(* ===== verification/GoPrelude.thy ===== *)
theory GoPrelude
  imports Main "HOL-Library.Word"
begin

text \<open>
  Machine integers, byte order and slices as Go has them, with the lemmas every
  component shares.

  \<^item> \<open>uint8\<close>, \<open>uint16\<close>, \<open>uint32\<close>, \<open>uint64\<close> are words of that width.
  \<^item> \<open>int\<close> and \<open>int64\<close> are mathematical integers; \<open>i64\<close> is the two's complement
    wrap-around of the 64-bit machine and is written where the operands come from the user.
  \<^item> \<open>encoding/binary\<close> is given by \<open>put32\<close>, \<open>get32\<close>, \<open>put32be\<close>, \<dots>; the locale
    \<open>codec\<close> states what an encoder and its decoder promise each other, and its client
    lemmas are about streams of encoded values.
\<close>

unbundle bit_operations_syntax

section \<open>Integers\<close>

type_synonym u8 = "8 word"
type_synonym u16 = "16 word"
type_synonym u32 = "32 word"
type_synonym u64 = "64 word"

text \<open>The wrap-around of Go's \<open>int64\<close>.\<close>

definition i64 :: "int \<Rightarrow> int" where
  "i64 x = (x + 2 ^ 63) mod 2 ^ 64 - 2 ^ 63"

lemma i64_id [simp]: "- (2 ^ 63) \<le> x \<Longrightarrow> x < 2 ^ 63 \<Longrightarrow> i64 x = x"
  by (simp add: i64_def)

lemma i64_range: "- (2 ^ 63) \<le> i64 x \<and> i64 x < 2 ^ 63"
proof -
  have "0 \<le> (x + 2 ^ 63) mod 2 ^ 64" "(x + 2 ^ 63) mod 2 ^ 64 < (2 ^ 64 :: int)"
    by (rule pos_mod_sign, simp) (rule pos_mod_bound, simp)
  then show ?thesis
    by (simp add: i64_def)
qed

text \<open>Rounding a length up to whole pages, \<open>n += (-n) & 4095\<close>.\<close>

definition page_round :: "int \<Rightarrow> int" where
  "page_round n = i64 (n + (i64 (- n) AND 4095))"

lemma and_4095: "(x::int) AND 4095 = x mod 4096"
  using take_bit_eq_mask [of 12 x] by (simp add: take_bit_eq_mod mask_eq_exp_minus_1)

text \<open>Wrapping keeps the low bits.\<close>

lemma i64_mod:
  assumes "d dvd 2 ^ 64"
  shows "i64 x mod d = x mod d"
proof -
  have "i64 x mod d = ((x + 2 ^ 63) mod 2 ^ 64 mod d - 2 ^ 63) mod d"
    by (simp only: i64_def mod_diff_left_eq)
  also have "(x + 2 ^ 63) mod 2 ^ 64 mod d = (x + 2 ^ 63) mod d"
    by (rule mod_mod_cancel [OF assms])
  finally show ?thesis
    by (simp only: mod_diff_left_eq add_diff_cancel_right')
qed

lemma i64_mod_4096: "i64 x mod 4096 = x mod 4096"
  by (rule i64_mod) simp

lemma page_round_eq:
  assumes "0 \<le> n" "n < 2 ^ 62"
  shows "page_round n = n + (- n) mod 4096"
proof -
  have "0 \<le> (- n) mod 4096" "(- n) mod 4096 < (4096::int)"
    by simp_all
  then show ?thesis
    unfolding page_round_def and_4095 i64_mod_4096
    using assms by (intro i64_id) auto
qed

lemma page_round_bounds:
  assumes "0 \<le> n" "n < 2 ^ 62"
  shows "n \<le> page_round n" "page_round n < n + 4096" "4096 dvd page_round n"
proof -
  have b: "0 \<le> (- n) mod 4096" "(- n) mod 4096 < (4096::int)"
    by simp_all
  then show "n \<le> page_round n" "page_round n < n + 4096"
    using page_round_eq [OF assms] by simp_all
  have "(n + (- n) mod 4096) mod 4096 = (0::int)"
    by (simp only: mod_add_right_eq add.right_inverse mod_0)
  then show "4096 dvd page_round n"
    using page_round_eq [OF assms] by (simp add: dvd_eq_mod_eq_0)
qed

section \<open>Byte order\<close>

definition put16 :: "u16 \<Rightarrow> u8 list" where
  "put16 w = [ucast w, ucast (drop_bit 8 w)]"

definition put32 :: "u32 \<Rightarrow> u8 list" where
  "put32 w = [ucast w, ucast (drop_bit 8 w), ucast (drop_bit 16 w), ucast (drop_bit 24 w)]"

definition put64 :: "u64 \<Rightarrow> u8 list" where
  "put64 w = [ucast w, ucast (drop_bit 8 w), ucast (drop_bit 16 w), ucast (drop_bit 24 w),
     ucast (drop_bit 32 w), ucast (drop_bit 40 w), ucast (drop_bit 48 w), ucast (drop_bit 56 w)]"

definition put32be :: "u32 \<Rightarrow> u8 list" where
  "put32be w = [ucast (drop_bit 24 w), ucast (drop_bit 16 w), ucast (drop_bit 8 w), ucast w]"

text \<open>The decoders read the first bytes of a slice; a shorter slice is Go's index panic.\<close>

fun get16 :: "u8 list \<Rightarrow> u16 option" where
  "get16 (a # b # _) = Some (ucast a OR push_bit 8 (ucast b))"
| "get16 _ = None"

fun get32 :: "u8 list \<Rightarrow> u32 option" where
  "get32 (a # b # c # d # _) = Some (ucast a OR push_bit 8 (ucast b) OR push_bit 16 (ucast c)
     OR push_bit 24 (ucast d))"
| "get32 _ = None"

fun get64 :: "u8 list \<Rightarrow> u64 option" where
  "get64 (a # b # c # d # e # f # g # h # _) =
     Some (ucast a OR push_bit 8 (ucast b) OR push_bit 16 (ucast c) OR push_bit 24 (ucast d)
       OR push_bit 32 (ucast e) OR push_bit 40 (ucast f) OR push_bit 48 (ucast g)
       OR push_bit 56 (ucast h))"
| "get64 _ = None"

fun get32be :: "u8 list \<Rightarrow> u32 option" where
  "get32be (a # b # c # d # _) = Some (push_bit 24 (ucast a) OR push_bit 16 (ucast b)
     OR push_bit 8 (ucast c) OR ucast d)"
| "get32be _ = None"

section \<open>What an encoding promises\<close>

text \<open>
  An encoder into \<open>n\<close> bytes and a decoder that reads the front of a slice: decoding what was
  encoded gives the value back whatever follows it, the decoder accepts exactly the slices that
  are long enough, and re-encoding a decoded value gives the bytes that were read.
\<close>

locale codec =
  fixes enc :: "'w \<Rightarrow> u8 list" and dec :: "u8 list \<Rightarrow> 'w option" and n :: nat
  assumes size_pos: "0 < n"
    and length_enc: "length (enc w) = n"
    and dec_enc: "dec (enc w @ bs) = Some w"
    and enc_dec: "dec bs = Some w \<Longrightarrow> enc w = take n bs"
    and dec_total: "n \<le> length bs \<Longrightarrow> dec bs \<noteq> None"
begin

lemma dec_enc_id: "dec (enc w) = Some w"
  using dec_enc [of w "[]"] by simp

lemma dec_None_iff: "dec bs = None \<longleftrightarrow> length bs < n"
proof
  assume "dec bs = None"
  then show "length bs < n"
    using dec_total [of bs] by force
next
  assume short: "length bs < n"
  show "dec bs = None"
  proof (rule ccontr)
    assume "dec bs \<noteq> None"
    then obtain w where "dec bs = Some w" by blast
    then have "enc w = take n bs" by (rule enc_dec)
    then have "length (take n bs) = n" using length_enc by metis
    with short show False by simp
  qed
qed

lemma dec_take: "dec (take n bs) = dec bs"
proof (cases "dec bs")
  case None
  then show ?thesis by (simp add: dec_None_iff)
next
  case (Some w)
  then have "enc w = take n bs" by (rule enc_dec)
  with Some show ?thesis using dec_enc_id by metis
qed

lemma enc_inj: "enc v = enc w \<Longrightarrow> v = w"
  by (metis dec_enc_id option.inject)

lemma length_stream: "length (concat (map enc ws)) = n * length ws"
  by (induction ws) (simp_all add: length_enc)

lemma stream_inj: "concat (map enc vs) = concat (map enc ws) \<Longrightarrow> vs = ws"
proof (induction vs arbitrary: ws)
  case Nil
  then have "n * length ws = 0"
    using length_stream [of ws] by (metis list.size(3) concat.simps(1) list.map(1))
  then show ?case using size_pos by simp
next
  case (Cons v vs)
  then have "n * length ws = n * length (v # vs)"
    using length_stream by metis
  then obtain w ws' where ws: "ws = w # ws'"
    using size_pos by (cases ws) auto
  with Cons.prems have "enc v = enc w \<and> concat (map enc vs) = concat (map enc ws')"
    by (simp add: length_enc)
  with Cons.IH ws show ?case by (auto dest: enc_inj)
qed

end

text \<open>The bits of a byte, and the byte a bit position of a wider word lies in.\<close>

lemma bit_byte: "8 \<le> n \<Longrightarrow> \<not> bit (b::u8) n"
  by (rule impossible_bit) simp

lemma byte_cases16: "n < LENGTH(16) \<Longrightarrow> n < 8 
    \<or> (\<exists>m. m < 8 \<and> n = 8 + m)"
  by simp presburger

lemma byte_cases32: "n < LENGTH(32) \<Longrightarrow> n < 8 
    \<or> (\<exists>m. m < 8 \<and> n = 8 + m) 
    \<or> (\<exists>m. m < 8 \<and> n = 16 + m) 
    \<or> (\<exists>m. m < 8 \<and> n = 24 + m)"
  by simp presburger

lemma byte_cases64: "n < LENGTH(64) \<Longrightarrow> n < 8 
    \<or> (\<exists>m. m < 8 \<and> n = 8 + m) 
    \<or> (\<exists>m. m < 8 \<and> n = 16 + m) 
    \<or> (\<exists>m. m < 8 \<and> n = 24 + m) 
    \<or> (\<exists>m. m < 8 \<and> n = 32 + m) 
    \<or> (\<exists>m. m < 8 \<and> n = 40 + m) 
    \<or> (\<exists>m. m < 8 \<and> n = 48 + m) 
    \<or> (\<exists>m. m < 8 \<and> n = 56 + m)"
  by simp presburger

interpretation le16: codec put16 get16 2
proof unfold_locales
  fix w bs
  show "get16 (put16 w @ bs) = Some w"
    by (simp add: put16_def) (rule bit_word_eqI, drule byte_cases16, elim disjE exE conjE,
      simp_all add: bit_simps bit_byte)
next
  fix bs w
  assume a: "get16 bs = Some w"
  show "put16 w = take 2 bs"
    using a by (cases bs rule: get16.cases)
      (auto simp: put16_def intro!: bit_word_eqI simp: bit_simps bit_byte)
next
  fix bs :: "u8 list"
  assume a: "2 \<le> length bs"
  show "get16 bs \<noteq> None"
    using a by (cases bs rule: get16.cases) auto
qed (simp_all add: put16_def)

interpretation le32: codec put32 get32 4
proof unfold_locales
  fix w bs
  show "get32 (put32 w @ bs) = Some w"
    by (simp add: put32_def) (rule bit_word_eqI, drule byte_cases32, elim disjE exE conjE,
      simp_all add: bit_simps bit_byte)
next
  fix bs w
  assume a: "get32 bs = Some w"
  show "put32 w = take 4 bs"
    using a by (cases bs rule: get32.cases)
      (auto simp: put32_def intro!: bit_word_eqI simp: bit_simps bit_byte)
next
  fix bs :: "u8 list"
  assume a: "4 \<le> length bs"
  show "get32 bs \<noteq> None"
    using a by (cases bs rule: get32.cases) auto
qed (simp_all add: put32_def)

interpretation be32: codec put32be get32be 4
proof unfold_locales
  fix w bs
  show "get32be (put32be w @ bs) = Some w"
    by (simp add: put32be_def) (rule bit_word_eqI, drule byte_cases32, elim disjE exE conjE,
      simp_all add: bit_simps bit_byte)
next
  fix bs w
  assume a: "get32be bs = Some w"
  show "put32be w = take 4 bs"
    using a by (cases bs rule: get32be.cases)
      (auto simp: put32be_def intro!: bit_word_eqI simp: bit_simps bit_byte)
next
  fix bs :: "u8 list"
  assume a: "4 \<le> length bs"
  show "get32be bs \<noteq> None"
    using a by (cases bs rule: get32be.cases) auto
qed (simp_all add: put32be_def)

interpretation le64: codec put64 get64 8
proof unfold_locales
  fix w bs
  show "get64 (put64 w @ bs) = Some w"
    by (simp add: put64_def) (rule bit_word_eqI, drule byte_cases64, elim disjE exE conjE,
      simp_all add: bit_simps bit_byte)
next
  fix bs w
  assume a: "get64 bs = Some w"
  show "put64 w = take 8 bs"
    using a by (cases bs rule: get64.cases)
      (auto simp: put64_def intro!: bit_word_eqI simp: bit_simps bit_byte)
next
  fix bs :: "u8 list"
  assume a: "8 \<le> length bs"
  show "get64 bs \<noteq> None"
    using a by (cases bs rule: get64.cases) auto
qed (simp_all add: put64_def)

end
