(* ===== verification/GoText.thy ===== *)
theory GoText
  imports GoPrelude
begin

text \<open>
  The parts of \<open>strings\<close>, \<open>strconv\<close> and \<open>fmt\<close> the program uses: \<open>strings.Split\<close> and
  \<open>strings.Join\<close> with a one-character separator, \<open>strconv.ParseInt\<close> and \<open>ParseUint\<close> with
  their base prefixes, underscores, ranges and errors, and the verbs \<open>%d\<close>, \<open>%x\<close> with zero
  padding. A Go string is a list of bytes; the strings here are ASCII.
\<close>

section \<open>Splitting and joining\<close>

fun Split :: "char \<Rightarrow> string \<Rightarrow> string list" where
  "Split c [] = [[]]"
| "Split c (x # xs) =
     (if x = c then [] # Split c xs
      else case Split c xs of p # ps \<Rightarrow> (x # p) # ps | [] \<Rightarrow> [[x]])"

fun Join :: "char \<Rightarrow> string list \<Rightarrow> string" where
  "Join c [] = []"
| "Join c [p] = p"
| "Join c (p # q # ps) = p @ c # Join c (q # ps)"

lemma Split_not_Nil [simp]: "Split c s \<noteq> []"
  by (induction s) (auto split: list.splits)

lemma Join_Cons: "Join c (p # ps) = (if ps = [] then p else p @ c # Join c ps)"
  by (cases ps) auto

lemma Join_Split: "Join c (Split c s) = s"
proof (induction s)
  case (Cons x s)
  obtain p ps where "Split c s = p # ps" by (cases "Split c s") auto
  with Cons show ?case by (auto simp: Join_Cons split: if_splits)
qed simp

lemma Split_no_sep: "p \<in> set (Split c s) \<Longrightarrow> c \<notin> set p"
proof (induction s arbitrary: p)
  case (Cons x s)
  then show ?case by (auto split: list.splits if_splits)
qed simp

lemma Split_plain: "c \<notin> set s \<Longrightarrow> Split c s = [s]"
  by (induction s) auto

lemma Split_append_sep: "c \<notin> set p \<Longrightarrow> Split c (p @ c # s) = p # Split c s"
  by (induction p) auto

lemma Split_Join: "ps \<noteq> [] \<Longrightarrow> (\<And>p. p \<in> set ps \<Longrightarrow> c \<notin> set p) \<Longrightarrow> Split c (Join c ps) = ps"
proof (induction ps)
  case (Cons p ps)
  then show ?case by (cases ps) (auto simp: Split_plain Split_append_sep)
qed simp

section \<open>Strings and bytes\<close>

definition bytes_of :: "string \<Rightarrow> u8 list" where
  "bytes_of s = map of_char s"

definition text_of :: "u8 list \<Rightarrow> string" where
  "text_of bs = map (\<lambda>b. char_of (unat b)) bs"

lemma of_char_0: "(of_char c :: u8) = 0 \<longleftrightarrow> c = CHR 0x00"
proof
  assume "(of_char c :: u8) = 0"
  then have "word_of_nat (of_char c :: nat) = (0 :: u8)" by (simp only: of_nat_of_char)
  moreover have "(of_char c :: nat) < 256" by simp
  ultimately have "(of_char c :: nat) = 0" by (simp add: word_of_nat_eq_0_iff dvd_imp_le mod_eq_0_iff_dvd [symmetric])
  then have "(of_char c :: nat) = of_char (CHR 0x00)" by simp
  then show "c = CHR 0x00" by (simp only: of_char_eq_iff)
qed simp

lemma length_bytes_of [simp]: "length (bytes_of s) = length s"
  by (simp add: bytes_of_def)

lemma text_bytes [simp]: "text_of (bytes_of s) = s"
proof -
  have "char_of (unat (of_char c :: u8)) = c" for c
  proof -
    have "unat (of_char c :: u8) = unat (word_of_nat (of_char c) :: u8)" by (simp only: of_nat_of_char)
    also have "\<dots> = of_char c mod 256" by (simp only: unsigned_of_nat take_bit_eq_mod) simp
    finally have "unat (of_char c :: u8) = of_char c" by simp
    then show ?thesis by simp
  qed
  then show ?thesis by (simp add: bytes_of_def text_of_def map_idI)
qed

section \<open>Digits\<close>

abbreviation code :: "char \<Rightarrow> int" where
  "code c \<equiv> of_char c"

text \<open>\<open>lower(c) = c | ('x' - 'X')\<close> sets the bit that makes a letter lower case.\<close>

definition lower :: "char \<Rightarrow> int" where
  "lower c = code c OR 32"

definition digit_val :: "char \<Rightarrow> int option" where
  "digit_val c =
     (if 48 \<le> code c \<and> code c \<le> 57 then Some (code c - 48)
      else if 97 \<le> lower c \<and> lower c \<le> 122 then Some (lower c - 97 + 10)
      else None)"

section \<open>strconv.ParseUint and ParseInt\<close>

datatype num_error = SyntaxErr | RangeErr

text \<open>The digits of a number, with the largest value allowed.\<close>

fun parse_digits :: "bool \<Rightarrow> int \<Rightarrow> int \<Rightarrow> int \<Rightarrow> string \<Rightarrow> int \<times> num_error option" where
  "parse_digits base0 base maxVal n [] = (n, None)"
| "parse_digits base0 base maxVal n (c # cs) =
     (if c = CHR ''_'' \<and> base0 then parse_digits base0 base maxVal n cs
      else case digit_val c of
        None \<Rightarrow> (0, Some SyntaxErr)
      | Some d \<Rightarrow>
          if base \<le> d then (0, Some SyntaxErr)
          else if maxVal < n * base + d then (maxVal, Some RangeErr)
          else parse_digits base0 base maxVal (n * base + d) cs)"

datatype last_seen = Start | Digit | Underscore | Other

fun underscores :: "bool \<Rightarrow> last_seen \<Rightarrow> string \<Rightarrow> bool" where
  "underscores hex i [] = (i \<noteq> Underscore)"
| "underscores hex i (c # cs) =
     (if (48 \<le> code c \<and> code c \<le> 57) \<or> (hex \<and> 97 \<le> lower c \<and> lower c \<le> 102)
      then underscores hex Digit cs
      else if c = CHR ''_'' then i = Digit \<and> underscores hex Underscore cs
      else i \<noteq> Underscore \<and> underscores hex Other cs)"

fun underscore_body :: "string \<Rightarrow> bool" where
  "underscore_body (z # x # cs) =
     (if z = CHR ''0'' \<and> lower x \<in> {98, 111, 120}
      then underscores (lower x = 120) Digit cs
      else underscores False Start (z # x # cs))"
| "underscore_body s = underscores False Start s"

definition underscoreOK :: "string \<Rightarrow> bool" where
  "underscoreOK s = underscore_body
     (case s of c # cs \<Rightarrow> if c = CHR ''-'' \<or> c = CHR ''+'' then cs else s | [] \<Rightarrow> [])"

text \<open>The base a literal announces, when the base argument is 0.\<close>

fun base_prefix :: "string \<Rightarrow> int \<times> string" where
  "base_prefix (z # cs) =
     (if z \<noteq> CHR ''0'' then (10, z # cs)
      else case cs of
          x # y # ys \<Rightarrow>
            if lower x = 98 then (2, y # ys)
            else if lower x = 111 then (8, y # ys)
            else if lower x = 120 then (16, y # ys)
            else (8, cs)
        | _ \<Rightarrow> (8, cs))"
| "base_prefix [] = (10, [])"

definition ParseUint :: "string \<Rightarrow> int \<Rightarrow> nat \<Rightarrow> int \<times> num_error option" where
  "ParseUint s base bits =
     (if s = [] \<or> \<not> underscoreOK s then (0, Some SyntaxErr)
      else let (b, s') = (if base = 0 then base_prefix s else (base, s))
           in parse_digits (base = 0) b (2 ^ bits - 1) 0 s')"

definition ParseInt :: "string \<Rightarrow> int \<Rightarrow> nat \<Rightarrow> int \<times> num_error option" where
  "ParseInt s0 base bits =
     (if s0 = [] then (0, Some SyntaxErr)
      else let neg = (hd s0 = CHR ''-'');
               s = (if hd s0 = CHR ''+'' \<or> hd s0 = CHR ''-'' then tl s0 else s0);
               (un, err) = ParseUint s base bits;
               cutoff = 2 ^ (bits - 1)
           in if err = Some SyntaxErr then (0, Some SyntaxErr)
              else if \<not> neg \<and> cutoff \<le> un then (cutoff - 1, Some RangeErr)
              else if neg \<and> cutoff < un then (- cutoff, Some RangeErr)
              else (if neg then - un else un, None))"

section \<open>The verbs \%d and \%x\<close>

definition digit_char :: "nat \<Rightarrow> char" where
  "digit_char d = (if d < 10 then char_of (48 + d) else char_of (87 + d))"

fun digits_of :: "nat \<Rightarrow> nat \<Rightarrow> string" where
  "digits_of b n = (if b < 2 \<or> n < b then [digit_char n] else digits_of b (n div b) @ [digit_char (n mod b)])"

declare digits_of.simps [simp del]

abbreviation hex_str :: "nat \<Rightarrow> string" where
  "hex_str \<equiv> digits_of 16"

abbreviation dec_str :: "nat \<Rightarrow> string" where
  "dec_str \<equiv> digits_of 10"

text \<open>\<open>%d\<close> of an integer.\<close>

definition int_str :: "int \<Rightarrow> string" where
  "int_str n = (if n < 0 then ''-'' @ dec_str (nat (- n)) else dec_str (nat n))"

definition pad0 :: "nat \<Rightarrow> string \<Rightarrow> string" where
  "pad0 w s = replicate (w - length s) (CHR ''0'') @ s"

section \<open>Printing and parsing numbers\<close>

lemma less_pow_pred: "(n::int) < 2 ^ (bits - 1) \<Longrightarrow> n < 2 ^ bits"
  by (erule less_le_trans) (simp add: power_increasing)

lemma or_32: "97 \<le> k \<Longrightarrow> k \<le> 122 \<Longrightarrow> (k::int) OR 32 = k"
proof -
  assume "97 \<le> k" "k \<le> 122"
  then have "k = 97 \<or> k = 98 \<or> k = 99 \<or> k = 100 \<or> k = 101 \<or> k = 102 \<or> k = 103
      \<or> k = 104 \<or> k = 105 \<or> k = 106 \<or> k = 107 \<or> k = 108 \<or> k = 109
      \<or> k = 110 \<or> k = 111 \<or> k = 112 \<or> k = 113 \<or> k = 114 \<or> k = 115
      \<or> k = 116 \<or> k = 117 \<or> k = 118 \<or> k = 119 \<or> k = 120 \<or> k = 121
      \<or> k = 122"
    by arith
  then show "k OR 32 = k" by (elim disjE) simp_all
qed

lemma code_char_of: "n < 256 \<Longrightarrow> code (char_of (n::nat)) = int n"
  using of_nat_of_char [of "char_of n", where 'a = int] by simp

lemma digit_val_char: "d < 36 \<Longrightarrow> digit_val (digit_char d) = Some (int d)"
  by (auto simp: digit_val_def digit_char_def lower_def code_char_of or_32)

lemma digit_char_class: "d < 36 \<Longrightarrow> digit_char d \<notin> set ''_:-+. '' \<and> code (digit_char d) \<noteq> 10"
proof -
  have "\<forall>d \<in> set [0..<36]. digit_char d \<notin> set ''_:-+. '' \<and> code (digit_char d) \<noteq> 10" by code_simp
  then show "d < 36 \<Longrightarrow> digit_char d \<notin> set ''_:-+. '' \<and> code (digit_char d) \<noteq> 10" by simp
qed

lemma parse_digits_append:
  "parse_digits z b mx m (xs @ ys) =
     (case parse_digits z b mx m xs of
        (v, None) \<Rightarrow> parse_digits z b mx v ys
      | (v, Some e) \<Rightarrow> (v, Some e))"
  by (induction z b mx m xs rule: parse_digits.induct) (auto split: option.splits)

lemma parse_one_digit:
  "d < b \<Longrightarrow> b \<le> 36 \<Longrightarrow> m * int b + int d \<le> mx \<Longrightarrow>
     parse_digits z (int b) mx m [digit_char d] = (m * int b + int d, None)"
  using digit_val_char [of d] digit_char_class [of d] by auto

lemma parse_digits_of:
  assumes "2 \<le> b" "b \<le> 36" "int n \<le> mx"
  shows "parse_digits z (int b) mx 0 (digits_of b n) = (int n, None)"
  using assms
proof (induction b n rule: digits_of.induct)
  case (1 b n)
  show ?case
  proof (cases "n < b")
    case True
    then show ?thesis
      using "1.prems" parse_one_digit [of n b 0 mx z] by (subst digits_of.simps) simp
  next
    case False
    have split: "int (n div b) * int b + int (n mod b) = int n"
      by (metis div_mult_mod_eq of_nat_add of_nat_mult)
    have "n div b \<le> n" by (rule div_le_dividend)
    then have "int (n div b) \<le> mx" using "1.prems" by linarith
    then have "parse_digits z (int b) mx 0 (digits_of b (n div b)) = (int (n div b), None)"
      using 1 False by simp
    then show ?thesis
      using False "1.prems" parse_one_digit [of "n mod b" b "int (n div b)" mx z] split
      by (subst digits_of.simps) (simp add: parse_digits_append)
  qed
qed

lemma digits_of_chars:
  assumes "2 \<le> b" "b \<le> 36" "c \<in> set (digits_of b n)"
  shows "\<exists>d<b. c = digit_char d"
  using assms
proof (induction b n rule: digits_of.induct)
  case (1 b n)
  show ?case
  proof (cases "n < b")
    case True
    with 1 show ?thesis by (subst (asm) digits_of.simps) auto
  next
    case False
    from "1.prems" False have "c \<in> set (digits_of b (n div b)) \<or> c = digit_char (n mod b)"
      by (subst (asm) digits_of.simps) auto
    then show ?thesis
    proof
      assume "c = digit_char (n mod b)"
      moreover have "n mod b < b" using "1.prems"(1) by simp
      ultimately show ?thesis by blast
    qed (use 1 False in auto)
  qed
qed

lemma digits_of_plain:
  assumes "2 \<le> b" "b \<le> 36"
  shows "set (digits_of b n) \<inter> set ''_:-+. '' = {}" "CHR 0x0A \<notin> set (digits_of b n)"
proof -
  have c: "c \<notin> set ''_:-+. '' \<and> code c \<noteq> 10" if "c \<in> set (digits_of b n)" for c
    using digits_of_chars [OF assms that] digit_char_class assms by force
  show "set (digits_of b n) \<inter> set ''_:-+. '' = {}"
    using c by blast
  show "CHR 0x0A \<notin> set (digits_of b n)"
    using c [of "CHR 0x0A"] by (auto simp: of_char_def)
qed

lemma digits_of_not_Nil [simp]: "digits_of b n \<noteq> []"
  by (subst digits_of.simps) simp

lemma underscores_ok: "CHR ''_'' \<notin> set s \<Longrightarrow> i \<noteq> Underscore \<Longrightarrow> underscores hex i s"
  by (induction hex i s rule: underscores.induct) auto

lemma underscoreOK_plain: "CHR ''_'' \<notin> set s \<Longrightarrow> underscoreOK s"
proof -
  have body: "CHR ''_'' \<notin> set t \<Longrightarrow> underscore_body t" for t
    by (cases t rule: underscore_body.cases) (auto intro!: underscores_ok)
  show "CHR ''_'' \<notin> set s \<Longrightarrow> underscoreOK s"
    by (cases s) (auto simp: underscoreOK_def intro!: body)
qed

lemma ParseUint_digits_of:
  assumes "2 \<le> b" "b \<le> 36" "int n < 2 ^ bits"
  shows "ParseUint (digits_of b n) (int b) bits = (int n, None)"
proof -
  have "CHR ''_'' \<notin> set (digits_of b n)"
    using digits_of_plain(1) [OF assms(1,2), of n] by auto
  then show ?thesis
    using assms parse_digits_of [of b n "2 ^ bits - 1"]
    by (simp add: ParseUint_def underscoreOK_plain)
qed

lemma hd_digits_of:
  assumes "2 \<le> b" "b \<le> 36"
  shows "hd (digits_of b n) \<noteq> CHR ''-''" "hd (digits_of b n) \<noteq> CHR ''+''"
  using digits_of_plain(1) [OF assms, of n] list.set_sel(1) [OF digits_of_not_Nil, of b n] by force+

lemma ParseInt_digits_of:
  assumes "2 \<le> b" "b \<le> 36" "0 < bits" "int n < 2 ^ (bits - 1)"
  shows "ParseInt (digits_of b n) (int b) bits = (int n, None)"
proof -
  have "int n < 2 ^ bits"
    using assms(4) by (rule less_pow_pred)
  then show ?thesis
    using assms hd_digits_of [OF assms(1,2), of n] ParseUint_digits_of [OF assms(1,2)]
    by (simp add: ParseInt_def)
qed

text \<open>A hexadecimal literal with its prefix, read with base 0.\<close>

lemma ParseInt_0x:
  assumes "0 < bits" "int n < 2 ^ (bits - 1)"
  shows "ParseInt (''0x'' @ hex_str n) 0 bits = (int n, None)"
proof -
  have le: "int n < 2 ^ bits"
    using assms(2) by (rule less_pow_pred)
  obtain y ys where y: "hex_str n = y # ys" by (cases "hex_str n") auto
  have "CHR ''_'' \<notin> set (hex_str n)"
    using digits_of_plain(1) [of 16 n] by auto
  then have "underscoreOK (''0x'' @ hex_str n)" by (simp add: underscoreOK_plain)
  moreover have "lower (CHR ''x'') = 120" by (simp add: lower_def)
  ultimately have "ParseUint (''0x'' @ hex_str n) 0 bits = (int n, None)"
    using parse_digits_of [of 16 n "2 ^ bits - 1" True] le y by (simp add: ParseUint_def)
  then show ?thesis using assms by (simp add: ParseInt_def)
qed

text \<open>The range of what is parsed.\<close>

lemma digit_val_nonneg: "digit_val c = Some d \<Longrightarrow> 0 \<le> d"
  by (auto simp: digit_val_def split: if_splits)

lemma parse_digits_nonneg:
  "0 \<le> n \<Longrightarrow> 0 \<le> b \<Longrightarrow> 0 \<le> mx \<Longrightarrow> 0 \<le> fst (parse_digits z b mx n s)"
  by (induction z b mx n s rule: parse_digits.induct) (auto split: option.splits simp: digit_val_nonneg)

lemma base_prefix_nonneg: "0 \<le> fst (base_prefix s)"
  by (cases s rule: base_prefix.cases) (auto split: list.splits)

lemma ParseUint_nonneg: "0 \<le> base \<Longrightarrow> 0 \<le> fst (ParseUint s base bits)"
  using base_prefix_nonneg [of s]
  by (auto simp: ParseUint_def intro!: parse_digits_nonneg split: prod.split)

lemma ParseInt_range:
  assumes "ParseInt s base bits = (v, None)" "0 \<le> base"
  shows "- (2 ^ (bits - 1)) \<le> v \<and> v < 2 ^ (bits - 1)"
proof -
  define t where "t = (if hd s = CHR ''+'' \<or> hd s = CHR ''-'' then tl s else s)"
  define K :: int where "K = 2 ^ (bits - 1)"
  obtain un err where u: "ParseUint t base bits = (un, err)" by (cases "ParseUint t base bits") auto
  have nn: "0 \<le> un" using ParseUint_nonneg [OF assms(2), of t bits] u by simp
  have K: "0 < K" by (simp add: K_def)
  have *: "\<not> (hd s \<noteq> CHR ''-'' \<and> K \<le> un)" "\<not> (hd s = CHR ''-'' \<and> K < un)"
      "v = (if hd s = CHR ''-'' then - un else un)"
    using assms(1) u unfolding ParseInt_def Let_def t_def [symmetric] K_def [symmetric]
    by (simp_all split: if_splits)
  show ?thesis
    unfolding K_def [symmetric] using * nn K by (cases "hd s = CHR ''-''") auto
qed

end
