(* ===== verification/BsdTypes.thy ===== *)
theory BsdTypes
  imports GoPrelude
begin

text \<open>
  The structures the FreeBSD build passes to the kernel (pci/sysdefs\_freebsd.go,
  msr/msr\_freebsd.go), and its requests. An array of a fixed length is a list; the pointer to the
  array of matches is left out of \<open>struct_pci_conf_io\<close>, the array is part of the answer. The fields
  \<open>offset\<close>, \<open>status\<close> of the source are \<open>conf_offset\<close>, \<open>conf_status\<close>; those of \<open>MsrArg\<close> are
  \<open>msr_no\<close>, \<open>msr_data\<close>.
\<close>

record struct_pcisel =
  pc_domain :: u32
  pc_bus :: u8
  pc_dev :: u8
  pc_func :: u8

record struct_pci_conf14 =
  pc_sel :: struct_pcisel
  pc_hdr :: u8
  pc_subvendor :: u16
  pc_subdevice :: u16
  pc_vendor :: u16
  pc_device :: u16
  pc_class :: u8
  pc_subclass :: u8
  pc_progif :: u8
  pc_revid :: u8
  pd_name :: "u8 list"
  pd_unit :: u64

record struct_pci_conf = struct_pci_conf14 +
  pd_numa_domain :: u32
  pc_reported_len :: u64
  pc_spare :: "u8 list"

text \<open>Also \<open>struct_pci_conf_io14\<close>, which has the same fields.\<close>

record struct_pci_conf_io =
  pat_buf_len :: u32
  num_patterns :: u32
  match_buf_len :: u32
  num_matches :: u32
  conf_offset :: u32
  generation :: u32
  conf_status :: u32

record struct_pci_io =
  pi_sel :: struct_pcisel
  pi_reg :: u32
  pi_width :: u32
  pi_data :: u32

record MsrArg =
  msr_no :: int
  msr_data :: u64

text \<open>
  \<open>binary.Size\<close> of the two arrays of 2048 entries: the sum of the sizes of the fields, without the
  padding the compiler adds between them.
\<close>

definition conf14_size :: nat where
  "conf14_size = 8 + 1 + 4 * 2 + 4 * 1 + 17 + 8"

definition conf_size :: nat where
  "conf_size = conf14_size + 4 + 8 + 64"

datatype ioctl_req =
    PCIOCGETCONF_14 struct_pci_conf_io
  | PCIOCGETCONF struct_pci_conf_io
  | PCIOCREAD struct_pci_io
  | PCIOCWRITE struct_pci_io
  | CPUCTL_RDMSR MsrArg
  | CPUCTL_WRMSR MsrArg

definition ioctl_number :: "ioctl_req \<Rightarrow> int" where
  "ioctl_number r = (case r of
       PCIOCGETCONF_14 _ \<Rightarrow> 0xc0307005 | PCIOCGETCONF _ \<Rightarrow> 0xc030700a
     | PCIOCREAD _ \<Rightarrow> 0xc0147002 | PCIOCWRITE _ \<Rightarrow> 0xc0147003
     | CPUCTL_RDMSR _ \<Rightarrow> 0xc0106301 | CPUCTL_WRMSR _ \<Rightarrow> 0xc0106302)"

text \<open>
  What the kernel answers: an error number, or the structure with what it has filled in. A
  function number has three bits, and the array holds the matches that are counted, no more than
  fit in the buffer.
\<close>

datatype ioctl_resp =
    Errno int
  | Confs14 struct_pci_conf_io "struct_pci_conf14 list"
  | Confs struct_pci_conf_io "struct_pci_conf list"
  | PciIo u32
  | MsrData u64

definition conf_fits :: "nat \<Rightarrow> struct_pci_conf_io \<Rightarrow> struct_pci_conf_io \<Rightarrow> struct_pcisel list \<Rightarrow> bool" where
  "conf_fits esz req ans sels \<longleftrightarrow>
     unat (num_matches ans) = length sels \<and> length sels * esz \<le> unat (match_buf_len req) \<and>
     list_all (\<lambda>s. pc_func s < 8) sels"

fun ioctl_fits :: "ioctl_req \<Rightarrow> ioctl_resp \<Rightarrow> bool" where
  "ioctl_fits _ (Errno e) = (e \<noteq> 0)"
| "ioctl_fits (PCIOCGETCONF_14 io) (Confs14 io' cs) = conf_fits conf14_size io io' (map pc_sel cs)"
| "ioctl_fits (PCIOCGETCONF io) (Confs io' cs) = conf_fits conf_size io io' (map pc_sel cs)"
| "ioctl_fits (PCIOCREAD io) (PciIo v) = True"
| "ioctl_fits (PCIOCWRITE io) (PciIo v) = True"
| "ioctl_fits (CPUCTL_RDMSR a) (MsrData v) = True"
| "ioctl_fits (CPUCTL_WRMSR a) (MsrData v) = True"
| "ioctl_fits _ _ = False"

end
