(* ===== verification/GoIO.thy ===== *)
theory GoIO
  imports BsdTypes
begin

text \<open>
  Programs that talk to the machine, as data. A value of \<open>'a io\<close> is a Go function body: it
  returns, it stops the process (\<open>log.Fatal\<close>, a panic), or it performs one operation and goes
  on with the answer. Nothing is said here about what the hardware answers: \<open>runs p tr out\<close>
  holds of every trace of operations and answers the program can have in any environment, and
  \<open>exec h p s\<close> runs it against a given handler of operations.

  Operations are of three layers of the code: the methods of the interface \<open>pmem.Region\<close>
  (\<open>Rd32\<close>, \<open>Rd8\<close>, \<open>Wr32\<close>, \<open>Wr8\<close>, dispatched on the dynamic type of the region), what the
  implementations of that interface use (loads and stores in a mapping, \<open>pread\<close>/\<open>pwrite\<close> on
  the memory device, \<open>open\<close>, \<open>mmap\<close>), and the rest of the runtime (directories and
  files, requests to a driver, output, the clock, sleeping). A read or write at an offset of a file named by its path
  (\<open>ReadAt\<close>, \<open>WriteAt\<close>) opens the file when it is not open yet, and fails with
  \<open>NotOpened\<close> when that fails.

  Loops that wait for the hardware take a bound \<open>fuel\<close>; running out is the failure
  \<open>OutOfFuel\<close>, which each such loop has a lemma about.
\<close>

section \<open>Regions, operations, answers\<close>

text \<open>pmem/map.go: \<open>type iomapping struct\<close>, the key under which a mapping is cached.\<close>

record iomapping =
  hwAddr :: int
  mapLen :: int
  mapWrite :: bool

text \<open>
  The dynamic types behind \<open>pmem.Region\<close>: \<open>MemRegion\<close> (a name and the mapping its byte slice
  aliases), \<open>FileRegion\<close> (a name, which of the two handles of the memory device, a base) and
  \<open>AstMem\<close> (a name, a start and a size; its \<open>p2a\<close> field always points to \<open>p2aGlob\<close>).
\<close>

datatype region =
    MemRegion string iomapping
  | FileRegion string bool int
  | AstMem string int int

datatype arg = AI int | AS string

datatype op =
    Rd32 region int | Rd8 region int | Wr32 region int u32 | Wr8 region int u8
  | Load32 iomapping int | Load8 iomapping int
  | Store32 iomapping int u32 | Store8 iomapping int u8
  | LoadN iomapping int nat | StoreN iomapping int "u8 list" \<comment> \<open>accesses of another width\<close>
  | PRead bool int nat | PWrite bool int "u8 list"
  | OpenDev string bool | Mmap bool iomapping int
  | ReadAt string int nat | WriteAt string int "u8 list" | ReadDir string | Stat string
  | OpenFile string | ReadFile string | WriteFile string "u8 list" | Stdin nat | Stdout "u8 list"
  | Print string "arg list" | Now | Sleep int | Gosched
  | Ioctl string ioctl_req \<comment> \<open>on the file of that name\<close>

datatype ioerr = EOF | NotOpened | IOFailed

datatype resp =
    RUnit | RU32 u32 | RU8 u8 | ROk | RErr | RInt int
  | RBytes "u8 list" bool \<comment> \<open>the bytes transferred, and whether an error came with them\<close>
  | RCount nat bool \<comment> \<open>the number of bytes written, and whether an error came with it\<close>
  | RAt "u8 list" "ioerr option" \<comment> \<open>the bytes read, and the error that ended the read\<close>
  | RWrote nat "ioerr option" \<comment> \<open>the number of bytes written, and the error that ended the write\<close>
  | RNames "string list" | RBool bool | RFile "u8 list" | RIoctl ioctl_resp

text \<open>The answers an operation can have.\<close>

fun fits :: "op \<Rightarrow> resp \<Rightarrow> bool" where
  "fits (Rd32 _ _) x = (case x of RU32 _ \<Rightarrow> True | _ \<Rightarrow> False)"
| "fits (Rd8 _ _) x = (case x of RU8 _ \<Rightarrow> True | _ \<Rightarrow> False)"
| "fits (Load32 _ _) x = (case x of RU32 _ \<Rightarrow> True | _ \<Rightarrow> False)"
| "fits (Load8 _ _) x = (case x of RU8 _ \<Rightarrow> True | _ \<Rightarrow> False)"
| "fits (PRead _ _ n) x = (case x of RBytes bs e \<Rightarrow> length bs \<le> n \<and> (length bs < n \<longrightarrow> e) | _ \<Rightarrow> False)"
| "fits (PWrite _ _ bs) x = (case x of RCount n e \<Rightarrow> n \<le> length bs \<and> (n < length bs \<longrightarrow> e) | _ \<Rightarrow> False)"
| "fits (OpenDev _ _) x = (case x of ROk \<Rightarrow> True | RErr \<Rightarrow> True | _ \<Rightarrow> False)"
| "fits (Mmap _ _ _) x = (case x of ROk \<Rightarrow> True | RErr \<Rightarrow> True | _ \<Rightarrow> False)"
| "fits (ReadAt _ _ n) x = (case x of RAt bs e \<Rightarrow> length bs \<le> n \<and> (length bs < n \<longrightarrow> e \<noteq> None) | _ \<Rightarrow> False)"
| "fits (WriteAt _ _ bs) x = (case x of RWrote n e \<Rightarrow> n \<le> length bs \<and> (n < length bs \<longrightarrow> e \<noteq> None) | _ \<Rightarrow> False)"
| "fits (ReadDir _) x = (case x of RNames _ \<Rightarrow> True | RErr \<Rightarrow> True | _ \<Rightarrow> False)"
| "fits (Stat _) x = (case x of RBool _ \<Rightarrow> True | RErr \<Rightarrow> True | _ \<Rightarrow> False)"
| "fits (OpenFile _) x = (case x of ROk \<Rightarrow> True | RErr \<Rightarrow> True | _ \<Rightarrow> False)"
| "fits (ReadFile _) x = (case x of RFile _ \<Rightarrow> True | RErr \<Rightarrow> True | _ \<Rightarrow> False)"
| "fits (WriteFile _ _) x = (case x of ROk \<Rightarrow> True | RErr \<Rightarrow> True | _ \<Rightarrow> False)"
| "fits (Stdin n) x = (case x of RBytes bs e \<Rightarrow> length bs \<le> n | _ \<Rightarrow> False)"
| "fits (Stdout bs) x = (case x of RCount n e \<Rightarrow> n \<le> length bs \<and> (n < length bs \<longrightarrow> e) | _ \<Rightarrow> False)"
| "fits (LoadN _ _ n) x = (case x of RFile bs \<Rightarrow> length bs = n | _ \<Rightarrow> False)"
| "fits (Ioctl _ r) x = (case x of RIoctl a \<Rightarrow> ioctl_fits r a | _ \<Rightarrow> False)"
| "fits Now x = (case x of RInt _ \<Rightarrow> True | _ \<Rightarrow> False)"
| "fits _ x = (x = RUnit)"

text \<open>The same, as the form of the answer.\<close>

lemma Ex_Not [simp]: "Ex Not"
  by (rule exI [of _ False]) simp

lemma fits_iff:
  "fits (Rd32 r off) x \<longleftrightarrow> (\<exists>v. x = RU32 v)"
  "fits (Rd8 r off) x \<longleftrightarrow> (\<exists>b. x = RU8 b)"
  "fits (Load32 m off) x \<longleftrightarrow> (\<exists>v. x = RU32 v)"
  "fits (Load8 m off) x \<longleftrightarrow> (\<exists>b. x = RU8 b)"
  "fits (PRead f off n) x \<longleftrightarrow> (\<exists>bs e. x = RBytes bs e \<and> length bs \<le> n \<and> (length bs < n \<longrightarrow> e))"
  "fits (PWrite f off ws) x \<longleftrightarrow> (\<exists>i e. x = RCount i e \<and> i \<le> length ws \<and> (i < length ws \<longrightarrow> e))"
  "fits (ReadAt d i n) x \<longleftrightarrow> (\<exists>bs z. x = RAt bs z \<and> length bs \<le> n \<and> (length bs < n \<longrightarrow> z \<noteq> None))"
  "fits (WriteAt d i ws) x \<longleftrightarrow> (\<exists>j z. x = RWrote j z \<and> j \<le> length ws \<and> (j < length ws \<longrightarrow> z \<noteq> None))"
  "fits (OpenDev dev w) x \<longleftrightarrow> x = ROk \<or> x = RErr"
  "fits (Mmap f m prot) x \<longleftrightarrow> x = ROk \<or> x = RErr"
  "fits (ReadDir d) x \<longleftrightarrow> (\<exists>ns. x = RNames ns) \<or> x = RErr"
  "fits (Stat d) x \<longleftrightarrow> (\<exists>b. x = RBool b) \<or> x = RErr"
  "fits (OpenFile d) x \<longleftrightarrow> x = ROk \<or> x = RErr"
  "fits (ReadFile d) x \<longleftrightarrow> (\<exists>bs. x = RFile bs) \<or> x = RErr"
  "fits (WriteFile d ws) x \<longleftrightarrow> x = ROk \<or> x = RErr"
  "fits (Stdin n) x \<longleftrightarrow> (\<exists>bs e. x = RBytes bs e \<and> length bs \<le> n)"
  "fits (Stdout ws) x \<longleftrightarrow> (\<exists>j e. x = RCount j e \<and> j \<le> length ws \<and> (j < length ws \<longrightarrow> e))"
  "fits (LoadN m off n) x \<longleftrightarrow> (\<exists>bs. x = RFile bs \<and> length bs = n)"
  "fits (Ioctl d rq) x \<longleftrightarrow> (\<exists>a. x = RIoctl a \<and> ioctl_fits rq a)"
  "fits Now x \<longleftrightarrow> (\<exists>t. x = RInt t)"
  by (auto split: resp.splits)

text \<open>Every operation can be answered.\<close>

lemma fits_ex: "\<exists>x. fits q x"
proof (cases q)
  case (PRead f off n)
  then have "fits q (RBytes [] True)" by simp
  then show ?thesis ..
next
  case (ReadAt f off n)
  then have "fits q (RAt [] (Some EOF))" by simp
  then show ?thesis ..
next
  case (PWrite f off bs)
  then have "fits q (RCount (length bs) True)" by simp
  then show ?thesis ..
next
  case (WriteAt f off bs)
  then have "fits q (RWrote (length bs) None)" by simp
  then show ?thesis ..
next
  case (LoadN m off n)
  then have "fits q (RFile (replicate n 0))" by simp
  then show ?thesis ..
next
  case (Stdin n)
  then have "fits q (RBytes [] True)" by simp
  then show ?thesis ..
next
  case (Stdout bs)
  then have "fits q (RCount (length bs) True)" by simp
  then show ?thesis ..
next
  case (Ioctl f r)
  then have "fits q (RIoctl (Errno 1))" by simp
  then show ?thesis ..
qed (force split: resp.split)+

declare fits.simps(1-20) [simp del]
declare fits_iff [simp]

section \<open>Programs\<close>

datatype failure = Fatal string "arg list" | Panic string | OutOfFuel | BadResp

datatype 'a io = Ret 'a | Fail failure | Op op "resp \<Rightarrow> 'a io"

primrec bind :: "'a io \<Rightarrow> ('a \<Rightarrow> 'b io) \<Rightarrow> 'b io" where
  "bind (Ret x) f = f x"
| "bind (Fail e) f = Fail e"
| "bind (Op q k) f = Op q (\<lambda>x. bind (k x) f)"

abbreviation seq :: "'a io \<Rightarrow> 'b io \<Rightarrow> 'b io" where
  "seq p q \<equiv> bind p (\<lambda>_. q)"

abbreviation whenM :: "bool \<Rightarrow> unit io \<Rightarrow> unit io" where
  "whenM b p \<equiv> (if b then p else Ret ())"

lemma bind_Ret [simp]: "bind p Ret = p"
  by (induction p) auto

lemma bind_assoc [simp]: "bind (bind p f) g = bind p (\<lambda>x. bind (f x) g)"
  by (induction p) auto

text \<open>The panics of indexing, slicing and of a nil pointer.\<close>

definition index_panic :: "'a io" where
  "index_panic = Fail (Panic ''index out of range'')"

definition slice_panic :: "'a io" where
  "slice_panic = Fail (Panic ''slice bounds out of range'')"

definition nil_deref :: "'a io" where
  "nil_deref = Fail (Panic ''nil pointer dereference'')"

text \<open>A range loop whose body returns nothing.\<close>

primrec forM :: "'a list \<Rightarrow> ('a \<Rightarrow> unit io) \<Rightarrow> unit io" where
  "forM [] f = Ret ()"
| "forM (x # xs) f = seq (f x) (forM xs f)"

lemma forM_append: "forM (xs @ ys) f = seq (forM xs f) (forM ys f)"
  by (induction xs) auto

text \<open>One operation each.\<close>

named_theorems io_defs \<open>the operations as programs\<close>

definition read32 :: "region \<Rightarrow> int \<Rightarrow> u32 io" where [io_defs]:
  "read32 r off = Op (Rd32 r off) (\<lambda>x. case x of RU32 v \<Rightarrow> Ret v | _ \<Rightarrow> Fail BadResp)"

definition read8 :: "region \<Rightarrow> int \<Rightarrow> u8 io" where [io_defs]:
  "read8 r off = Op (Rd8 r off) (\<lambda>x. case x of RU8 v \<Rightarrow> Ret v | _ \<Rightarrow> Fail BadResp)"

definition write32 :: "region \<Rightarrow> int \<Rightarrow> u32 \<Rightarrow> unit io" where [io_defs]:
  "write32 r off v = Op (Wr32 r off v) (\<lambda>_. Ret ())"

definition write8 :: "region \<Rightarrow> int \<Rightarrow> u8 \<Rightarrow> unit io" where [io_defs]:
  "write8 r off v = Op (Wr8 r off v) (\<lambda>_. Ret ())"

definition load32 :: "iomapping \<Rightarrow> int \<Rightarrow> u32 io" where [io_defs]:
  "load32 m off = Op (Load32 m off) (\<lambda>x. case x of RU32 v \<Rightarrow> Ret v | _ \<Rightarrow> Fail BadResp)"

definition load8 :: "iomapping \<Rightarrow> int \<Rightarrow> u8 io" where [io_defs]:
  "load8 m off = Op (Load8 m off) (\<lambda>x. case x of RU8 v \<Rightarrow> Ret v | _ \<Rightarrow> Fail BadResp)"

definition store32 :: "iomapping \<Rightarrow> int \<Rightarrow> u32 \<Rightarrow> unit io" where [io_defs]:
  "store32 m off v = Op (Store32 m off v) (\<lambda>_. Ret ())"

definition store8 :: "iomapping \<Rightarrow> int \<Rightarrow> u8 \<Rightarrow> unit io" where [io_defs]:
  "store8 m off v = Op (Store8 m off v) (\<lambda>_. Ret ())"

definition load_n :: "iomapping \<Rightarrow> int \<Rightarrow> nat \<Rightarrow> u8 list io" where [io_defs]:
  "load_n m off n = Op (LoadN m off n) (\<lambda>x. case x of RFile bs \<Rightarrow> Ret bs | _ \<Rightarrow> Fail BadResp)"

definition store_n :: "iomapping \<Rightarrow> int \<Rightarrow> u8 list \<Rightarrow> unit io" where [io_defs]:
  "store_n m off bs = Op (StoreN m off bs) (\<lambda>_. Ret ())"

definition pread :: "bool \<Rightarrow> int \<Rightarrow> nat \<Rightarrow> (u8 list \<times> bool) io" where [io_defs]:
  "pread f off n = Op (PRead f off n)
     (\<lambda>x. case x of RBytes bs e \<Rightarrow> Ret (bs, e) | _ \<Rightarrow> Fail BadResp)"

definition pwrite :: "bool \<Rightarrow> int \<Rightarrow> u8 list \<Rightarrow> (nat \<times> bool) io" where [io_defs]:
  "pwrite f off bs = Op (PWrite f off bs)
     (\<lambda>x. case x of RCount n e \<Rightarrow> Ret (n, e) | _ \<Rightarrow> Fail BadResp)"

definition open_dev :: "string \<Rightarrow> bool \<Rightarrow> bool io" where [io_defs]:
  "open_dev dev w = Op (OpenDev dev w) 
     (\<lambda>x. case x of ROk \<Rightarrow> Ret True | RErr \<Rightarrow> Ret False | _ \<Rightarrow> Fail BadResp)"

definition mmap :: "bool \<Rightarrow> iomapping \<Rightarrow> int \<Rightarrow> bool io" where [io_defs]:
  "mmap f m prot = Op (Mmap f m prot) 
     (\<lambda>x. case x of ROk \<Rightarrow> Ret True | RErr \<Rightarrow> Ret False | _ \<Rightarrow> Fail BadResp)"

definition read_at :: "string \<Rightarrow> int \<Rightarrow> nat \<Rightarrow> (u8 list \<times> ioerr option) io" where [io_defs]:
  "read_at path off n = Op (ReadAt path off n)
     (\<lambda>x. case x of RAt bs e \<Rightarrow> Ret (bs, e) | _ \<Rightarrow> Fail BadResp)"

definition write_at :: "string \<Rightarrow> int \<Rightarrow> u8 list \<Rightarrow> (nat \<times> ioerr option) io" where [io_defs]:
  "write_at path off bs = Op (WriteAt path off bs)
     (\<lambda>x. case x of RWrote n e \<Rightarrow> Ret (n, e) | _ \<Rightarrow> Fail BadResp)"

definition read_dir :: "string \<Rightarrow> string list option io" where [io_defs]:
  "read_dir path = Op (ReadDir path)
     (\<lambda>x. case x of RNames ns \<Rightarrow> Ret (Some ns) | RErr \<Rightarrow> Ret None | _ \<Rightarrow> Fail BadResp)"

definition stat_regular :: "string \<Rightarrow> bool option io" where [io_defs]:
  "stat_regular path = Op (Stat path)
     (\<lambda>x. case x of RBool b \<Rightarrow> Ret (Some b) | RErr \<Rightarrow> Ret None | _ \<Rightarrow> Fail BadResp)"

definition open_file :: "string \<Rightarrow> bool io" where [io_defs]:
  "open_file path = Op (OpenFile path)
     (\<lambda>x. case x of ROk \<Rightarrow> Ret True | RErr \<Rightarrow> Ret False | _ \<Rightarrow> Fail BadResp)"

definition read_file :: "string \<Rightarrow> u8 list option io" where [io_defs]:
  "read_file path = Op (ReadFile path)
     (\<lambda>x. case x of RFile bs \<Rightarrow> Ret (Some bs) | RErr \<Rightarrow> Ret None | _ \<Rightarrow> Fail BadResp)"

definition write_file :: "string \<Rightarrow> u8 list \<Rightarrow> bool io" where [io_defs]:
  "write_file path bs = Op (WriteFile path bs)
     (\<lambda>x. case x of ROk \<Rightarrow> Ret True | RErr \<Rightarrow> Ret False | _ \<Rightarrow> Fail BadResp)"

definition stdin_read :: "nat \<Rightarrow> (u8 list \<times> bool) io" where [io_defs]:
  "stdin_read n = Op (Stdin n)
     (\<lambda>x. case x of RBytes bs e \<Rightarrow> Ret (bs, e) | _ \<Rightarrow> Fail BadResp)"

definition stdout_write :: "u8 list \<Rightarrow> (nat \<times> bool) io" where [io_defs]:
  "stdout_write bs = Op (Stdout bs)
     (\<lambda>x. case x of RCount n e \<Rightarrow> Ret (n, e) | _ \<Rightarrow> Fail BadResp)"

definition ioctl :: "string \<Rightarrow> ioctl_req \<Rightarrow> ioctl_resp io" where [io_defs]:
  "ioctl path r = Op (Ioctl path r) (\<lambda>x. case x of RIoctl a \<Rightarrow> Ret a | _ \<Rightarrow> Fail BadResp)"

definition print :: "string \<Rightarrow> arg list \<Rightarrow> unit io" where [io_defs]:
  "print fmt args = Op (Print fmt args) (\<lambda>_. Ret ())"

definition now :: "int io" where [io_defs]:
  "now = Op Now (\<lambda>x. case x of RInt t \<Rightarrow> Ret t | _ \<Rightarrow> Fail BadResp)"

definition sleep :: "int \<Rightarrow> unit io" where [io_defs]:
  "sleep d = Op (Sleep d) (\<lambda>_. Ret ())"

definition gosched :: "unit io" where [io_defs]:
  "gosched = Op Gosched (\<lambda>_. Ret ())"

text \<open>The formatted values of an error or a message are words and integers.\<close>

abbreviation AW :: "'a::len word \<Rightarrow> arg" where
  "AW w \<equiv> AI (uint w)"

section \<open>All traces of a program\<close>

datatype 'a outcome = Done 'a | Failed failure

type_synonym event = "op \<times> resp"

inductive runs :: "'a io \<Rightarrow> event list \<Rightarrow> 'a outcome \<Rightarrow> bool" where
  runs_Ret: "runs (Ret x) [] (Done x)"
| runs_Fail: "runs (Fail e) [] (Failed e)"
| runs_Op: "fits q x \<Longrightarrow> runs (k x) tr out \<Longrightarrow> runs (Op q k) ((q, x) # tr) out"

inductive_simps runs_Ret_iff [simp]: "runs (Ret x) tr out"
inductive_simps runs_Fail_iff [simp]: "runs (Fail e) tr out"
inductive_simps runs_Op_iff [simp]: "runs (Op q k) tr out"
inductive_cases runs_OpE: "runs (Op q k) tr out"

lemma runs_exists: "\<exists>tr out. runs p tr out"
proof (induction p)
  case (Op q k)
  obtain x where x: "fits q x" using fits_ex by blast
  from Op [of "k x"] obtain tr out where "runs (k x) tr out" by auto
  with x have "runs (Op q k) ((q, x) # tr) out" by simp
  then show ?case by blast
qed auto

text \<open>Sequential composition of traces.\<close>

lemma runs_bind:
  "runs (bind p f) tr out \<longleftrightarrow>
     (\<exists>tr1 tr2 x. runs p tr1 (Done x) \<and> runs (f x) tr2 out \<and> tr = tr1 @ tr2) \<or>
     (\<exists>e. runs p tr (Failed e) \<and> out = Failed e)"
proof (induction p arbitrary: tr)
  case (Op q k)
  show ?case
  proof
    assume "runs (bind (Op q k) f) tr out"
    then obtain x tr' where x: "fits q x" "tr = (q, x) # tr'" "runs (bind (k x) f) tr' out"
      by auto
    then consider (ok) tr1 tr2 y where "runs (k x) tr1 (Done y)" "runs (f y) tr2 out" "tr' = tr1 @ tr2"
      | (bad) e where "runs (k x) tr' (Failed e)" "out = Failed e"
      using Op by blast
    then show "(\<exists>tr1 tr2 x. runs (Op q k) tr1 (Done x) \<and> runs (f x) tr2 out \<and> tr = tr1 @ tr2) \<or>
      (\<exists>e. runs (Op q k) tr (Failed e) \<and> out = Failed e)"
    proof cases
      case ok
      then have "runs (Op q k) ((q, x) # tr1) (Done y)" using x by simp
      then show ?thesis using ok x by (metis append_Cons)
    next
      case bad
      then show ?thesis using x by auto
    qed
  next
    assume "(\<exists>tr1 tr2 x. runs (Op q k) tr1 (Done x) \<and> runs (f x) tr2 out \<and> tr = tr1 @ tr2) \<or>
      (\<exists>e. runs (Op q k) tr (Failed e) \<and> out = Failed e)"
    then show "runs (bind (Op q k) f) tr out"
      using Op by auto blast+
  qed
qed auto

lemma runs_bindE:
  assumes "runs (bind p f) tr out"
  obtains (ok) tr1 tr2 x where "runs p tr1 (Done x)" "runs (f x) tr2 out" "tr = tr1 @ tr2"
    | (fail) e where "runs p tr (Failed e)" "out = Failed e"
  using assms by (auto simp: runs_bind)

text \<open>The traces of the single operations, alone and followed by the rest of a program.\<close>

lemma runs_read32 [simp]:
  "runs (read32 r off) tr out \<longleftrightarrow> (\<exists>v. tr = [(Rd32 r off, RU32 v)] \<and> out = Done v)"
  by (auto simp: io_defs)

lemma runs_read8 [simp]:
  "runs (read8 r off) tr out \<longleftrightarrow> (\<exists>b. tr = [(Rd8 r off, RU8 b)] \<and> out = Done b)"
  by (auto simp: io_defs)

lemma runs_load32 [simp]:
  "runs (load32 m off) tr out \<longleftrightarrow> (\<exists>v. tr = [(Load32 m off, RU32 v)] \<and> out = Done v)"
  by (auto simp: io_defs)

lemma runs_load8 [simp]:
  "runs (load8 m off) tr out \<longleftrightarrow> (\<exists>b. tr = [(Load8 m off, RU8 b)] \<and> out = Done b)"
  by (auto simp: io_defs)

lemma runs_open_dev [simp]:
  "runs (open_dev dev w) tr out \<longleftrightarrow> 
     tr = [(OpenDev dev w, ROk)] \<and> out = Done True \<or> tr = [(OpenDev dev w, RErr)] \<and> out = Done False"
  by (auto simp: io_defs)

lemma runs_mmap [simp]:
  "runs (mmap f m prot) tr out \<longleftrightarrow> 
     tr = [(Mmap f m prot, ROk)] \<and> out = Done True \<or> tr = [(Mmap f m prot, RErr)] \<and> out = Done False"
  by (auto simp: io_defs)

lemma runs_now [simp]:
  "runs (now) tr out \<longleftrightarrow> (\<exists>t. tr = [(Now, RInt t)] \<and> out = Done t)"
  by (auto simp: io_defs)

lemma runs_write32 [simp]:
  "runs (write32 r off v) tr out \<longleftrightarrow> tr = [(Wr32 r off v, RUnit)] \<and> out = Done ()"
  by (auto simp: io_defs)

lemma runs_write8 [simp]:
  "runs (write8 r off b) tr out \<longleftrightarrow> tr = [(Wr8 r off b, RUnit)] \<and> out = Done ()"
  by (auto simp: io_defs)

lemma runs_store32 [simp]:
  "runs (store32 m off v) tr out \<longleftrightarrow> tr = [(Store32 m off v, RUnit)] \<and> out = Done ()"
  by (auto simp: io_defs)

lemma runs_store8 [simp]:
  "runs (store8 m off b) tr out \<longleftrightarrow> tr = [(Store8 m off b, RUnit)] \<and> out = Done ()"
  by (auto simp: io_defs)

lemma runs_print [simp]:
  "runs (print fmt args) tr out \<longleftrightarrow> tr = [(Print fmt args, RUnit)] \<and> out = Done ()"
  by (auto simp: io_defs)

lemma runs_sleep [simp]:
  "runs (sleep d) tr out \<longleftrightarrow> tr = [(Sleep d, RUnit)] \<and> out = Done ()"
  by (auto simp: io_defs)

lemma runs_gosched [simp]:
  "runs (gosched) tr out \<longleftrightarrow> tr = [(Gosched, RUnit)] \<and> out = Done ()"
  by (auto simp: io_defs)

lemma runs_pread [simp]:
  "runs (pread f off n) tr out \<longleftrightarrow>
     (\<exists>bs e. tr = [(PRead f off n, RBytes bs e)] \<and> length bs \<le> n \<and> (length bs < n \<longrightarrow> e) \<and> out = Done (bs, e))"
  by (auto simp: io_defs)

lemma runs_pwrite [simp]:
  "runs (pwrite f off ws) tr out \<longleftrightarrow>
     (\<exists>i e. tr = [(PWrite f off ws, RCount i e)] \<and> i \<le> length ws \<and> (i < length ws \<longrightarrow> e) \<and> out = Done (i, e))"
  by (auto simp: io_defs)

lemma runs_bind_read32 [simp]:
  "runs (bind (read32 r off) k) tr out \<longleftrightarrow>
     (\<exists>v tr'. tr = (Rd32 r off, RU32 v) # tr' \<and> runs (k v) tr' out)"
  by (auto simp: runs_bind)

lemma runs_bind_read8 [simp]:
  "runs (bind (read8 r off) k) tr out \<longleftrightarrow>
     (\<exists>b tr'. tr = (Rd8 r off, RU8 b) # tr' \<and> runs (k b) tr' out)"
  by (auto simp: runs_bind)

lemma runs_bind_load32 [simp]:
  "runs (bind (load32 m off) k) tr out \<longleftrightarrow>
     (\<exists>v tr'. tr = (Load32 m off, RU32 v) # tr' \<and> runs (k v) tr' out)"
  by (auto simp: runs_bind)

lemma runs_bind_load8 [simp]:
  "runs (bind (load8 m off) k) tr out \<longleftrightarrow>
     (\<exists>b tr'. tr = (Load8 m off, RU8 b) # tr' \<and> runs (k b) tr' out)"
  by (auto simp: runs_bind)

lemma runs_bind_open_dev [simp]:
  "runs (bind (open_dev dev w) k) tr out \<longleftrightarrow>
     (\<exists>tr'. tr = (OpenDev dev w, ROk) # tr' \<and> runs (k True) tr' out) \<or>
     (\<exists>tr'. tr = (OpenDev dev w, RErr) # tr' \<and> runs (k False) tr' out)"
  by (auto simp: io_defs)

lemma runs_bind_mmap [simp]:
  "runs (bind (mmap f m prot) k) tr out \<longleftrightarrow>
     (\<exists>tr'. tr = (Mmap f m prot, ROk) # tr' \<and> runs (k True) tr' out) \<or>
     (\<exists>tr'. tr = (Mmap f m prot, RErr) # tr' \<and> runs (k False) tr' out)"
  by (auto simp: io_defs)

lemma runs_bind_now [simp]:
  "runs (bind (now) k) tr out \<longleftrightarrow>
     (\<exists>t tr'. tr = (Now, RInt t) # tr' \<and> runs (k t) tr' out)"
  by (auto simp: runs_bind)

lemma runs_bind_write32 [simp]:
  "runs (bind (write32 r off v) k) tr out \<longleftrightarrow>
     (\<exists>tr'. tr = (Wr32 r off v, RUnit) # tr' \<and> runs (k ()) tr' out)"
  by (auto simp: runs_bind)

lemma runs_bind_write8 [simp]:
  "runs (bind (write8 r off b) k) tr out \<longleftrightarrow>
     (\<exists>tr'. tr = (Wr8 r off b, RUnit) # tr' \<and> runs (k ()) tr' out)"
  by (auto simp: runs_bind)

lemma runs_bind_store32 [simp]:
  "runs (bind (store32 m off v) k) tr out \<longleftrightarrow>
     (\<exists>tr'. tr = (Store32 m off v, RUnit) # tr' \<and> runs (k ()) tr' out)"
  by (auto simp: runs_bind)

lemma runs_bind_store8 [simp]:
  "runs (bind (store8 m off b) k) tr out \<longleftrightarrow>
     (\<exists>tr'. tr = (Store8 m off b, RUnit) # tr' \<and> runs (k ()) tr' out)"
  by (auto simp: runs_bind)

lemma runs_bind_print [simp]:
  "runs (bind (print fmt args) k) tr out \<longleftrightarrow>
     (\<exists>tr'. tr = (Print fmt args, RUnit) # tr' \<and> runs (k ()) tr' out)"
  by (auto simp: runs_bind)

lemma runs_bind_sleep [simp]:
  "runs (bind (sleep d) k) tr out \<longleftrightarrow>
     (\<exists>tr'. tr = (Sleep d, RUnit) # tr' \<and> runs (k ()) tr' out)"
  by (auto simp: runs_bind)

lemma runs_bind_gosched [simp]:
  "runs (bind (gosched) k) tr out \<longleftrightarrow>
     (\<exists>tr'. tr = (Gosched, RUnit) # tr' \<and> runs (k ()) tr' out)"
  by (auto simp: runs_bind)

lemma runs_bind_pread [simp]:
  "runs (bind (pread f off n) k) tr out \<longleftrightarrow>
     (\<exists>bs e tr'. tr = (PRead f off n, RBytes bs e) # tr' \<and> length bs \<le> n \<and> (length bs < n \<longrightarrow> e) \<and> runs (k (bs, e)) tr' out)"
  by (auto simp: runs_bind)

lemma runs_bind_pwrite [simp]:
  "runs (bind (pwrite f off ws) k) tr out \<longleftrightarrow>
     (\<exists>i e tr'. tr = (PWrite f off ws, RCount i e) # tr' \<and> i \<le> length ws \<and> (i < length ws \<longrightarrow> e) \<and> runs (k (i, e)) tr' out)"
  by (auto simp: runs_bind)

lemma runs_bind_read_at [simp]:
  "runs (bind (read_at pth off n) k) tr out \<longleftrightarrow>
     (\<exists>bs e tr'. tr = (ReadAt pth off n, RAt bs e) # tr' \<and> length bs \<le> n \<and> (length bs < n \<longrightarrow> e \<noteq> None)
        \<and> runs (k (bs, e)) tr' out)"
  unfolding io_defs by (fastforce simp: runs_bind)

lemma runs_ioctl [simp]:
  "runs (ioctl f r) tr out \<longleftrightarrow> (\<exists>a. tr = [(Ioctl f r, RIoctl a)] \<and> ioctl_fits r a \<and> out = Done a)"
  by (auto simp: io_defs)

lemma runs_bind_ioctl [simp]:
  "runs (bind (ioctl f r) k) tr out \<longleftrightarrow>
     (\<exists>a tr'. tr = (Ioctl f r, RIoctl a) # tr' \<and> ioctl_fits r a \<and> runs (k a) tr' out)"
  by (auto simp: runs_bind)

lemma runs_bind_read_file [simp]:
  "runs (bind (read_file pth) k) tr out \<longleftrightarrow>
     (\<exists>bs tr'. tr = (ReadFile pth, RFile bs) # tr' \<and> runs (k (Some bs)) tr' out) \<or>
     (\<exists>tr'. tr = (ReadFile pth, RErr) # tr' \<and> runs (k None) tr' out)"
  unfolding io_defs by fastforce

lemma runs_bind_write_file [simp]:
  "runs (bind (write_file pth ws) k) tr out \<longleftrightarrow>
     (\<exists>tr'. tr = (WriteFile pth ws, ROk) # tr' \<and> runs (k True) tr' out) \<or>
     (\<exists>tr'. tr = (WriteFile pth ws, RErr) # tr' \<and> runs (k False) tr' out)"
  by (auto simp: io_defs)

text \<open>The answers determine the run: two runs with the same trace have the same outcome.\<close>

lemma runs_det: "runs p tr out \<Longrightarrow> runs p tr out' \<Longrightarrow> out = out'"
  by (induction arbitrary: out' rule: runs.induct) auto

section \<open>What a program may do\<close>

text \<open>Every operation a program can perform satisfies \<open>P\<close>, in every environment.\<close>

primrec safe :: "(op \<Rightarrow> bool) \<Rightarrow> 'a io \<Rightarrow> bool" where
  "safe P (Ret x) = True"
| "safe P (Fail e) = True"
| "safe P (Op q k) = (P q \<and> (\<forall>x. fits q x \<longrightarrow> safe P (k x)))"

lemma safe_runs: "safe P p \<Longrightarrow> runs p tr out \<Longrightarrow> \<forall>e \<in> set tr. P (fst e)"
  by (rotate_tac, induction rule: runs.induct) auto

lemma runs_safe:
  assumes "\<And>tr out. runs p tr out \<Longrightarrow> \<forall>e \<in> set tr. P (fst e)"
  shows "safe P p"
  using assms
proof (induction p)
  case (Op q k)
  have "safe P (k x)" if "fits q x" for x
  proof (rule Op.IH)
    fix tr out
    assume "runs (k x) tr out"
    with that have "runs (Op q k) ((q, x) # tr) out" by simp
    from Op.prems [OF this] show "\<forall>e \<in> set tr. P (fst e)" by simp
  qed simp
  moreover obtain tr out where "runs (Op q k) tr out"
    using runs_exists by blast
  then have "P q"
    using Op.prems [of tr out] by auto
  ultimately show ?case by simp
qed auto

lemma safe_bind [intro]:
  "safe P p \<Longrightarrow> (\<And>x tr. runs p tr (Done x) \<Longrightarrow> safe P (f x)) \<Longrightarrow> safe P (bind p f)"
proof (induction p)
  case (Op q k)
  have "safe P (bind (k x) f)" if "fits q x" for x
  proof (rule Op.IH)
    show "safe P (k x)" using Op.prems(1) that by simp
    fix y tr
    assume "runs (k x) tr (Done y)"
    with that have "runs (Op q k) ((q, x) # tr) (Done y)" by simp
    then show "safe P (f y)" by (rule Op.prems(2))
  qed simp
  then show ?case using Op.prems by simp
qed auto

lemma safe_bindI: "safe P p \<Longrightarrow> (\<And>x. safe P (f x)) \<Longrightarrow> safe P (bind p f)"
  by (rule safe_bind)

lemma safe_forM: "(\<And>x. x \<in> set xs \<Longrightarrow> safe P (f x)) \<Longrightarrow> safe P (forM xs f)"
  by (induction xs) (auto intro!: safe_bindI)

lemma safe_mono: "safe P p \<Longrightarrow> (\<And>q. P q \<Longrightarrow> Q q) \<Longrightarrow> safe Q p"
  by (induction p) auto

section \<open>Running against a handler\<close>

type_synonym 's handler = "op \<Rightarrow> 's \<Rightarrow> (failure + resp) \<times> 's"

primrec exec :: "'s handler \<Rightarrow> 'a io \<Rightarrow> 's \<Rightarrow> 'a outcome \<times> 's" where
  "exec h (Ret x) s = (Done x, s)"
| "exec h (Fail e) s = (Failed e, s)"
| "exec h (Op q k) s =
     (case h q s of
        (Inl e, s') \<Rightarrow> (Failed e, s')
      | (Inr x, s') \<Rightarrow> if fits q x then exec h (k x) s' else (Failed BadResp, s'))"

lemma exec_bind:
  "exec h (bind p f) s =
     (case exec h p s of (Done x, s') \<Rightarrow> exec h (f x) s' | (Failed e, s') \<Rightarrow> (Failed e, s'))"
  by (induction p arbitrary: s) (auto split: prod.splits sum.splits)

text \<open>A handler that always answers, with an answer of the right kind.\<close>

definition answers :: "'s handler \<Rightarrow> bool" where
  "answers h \<longleftrightarrow> (\<forall>q s. \<exists>x s'. h q s = (Inr x, s') \<and> fits q x)"

text \<open>Under such a handler every execution is one of the program's runs.\<close>

lemma exec_runs:
  assumes "answers h" "exec h p s = (out, s')"
  shows "\<exists>tr. runs p tr out"
  using assms(2)
proof (induction p arbitrary: s)
  case (Op q k)
  obtain x t where x: "h q s = (Inr x, t)" "fits q x"
    using assms(1) unfolding answers_def by blast
  with Op.prems have "exec h (k x) t = (out, s')" by simp
  then obtain tr where "runs (k x) tr out" using Op.IH by blast
  with x have "runs (Op q k) ((q, x) # tr) out" by simp
  then show ?case by blast
qed auto

section \<open>Simulation\<close>

text \<open>
  Two handlers that agree on the operations a program performs, on states related by \<open>R\<close>,
  give the program the same outcome and related final states.
\<close>

lemma exec_sim:
  assumes "safe P p" "R s t"
    and step: "\<And>q s t. P q \<Longrightarrow> R s t \<Longrightarrow>
      fst (h1 q s) = fst (h2 q t) \<and> R (snd (h1 q s)) (snd (h2 q t))"
  shows "fst (exec h1 p s) = fst (exec h2 p t) \<and> R (snd (exec h1 p s)) (snd (exec h2 p t))"
  using assms(1,2)
proof (induction p arbitrary: s t)
  case (Op q k)
  obtain x s' where x: "h1 q s = (x, s')" by (cases "h1 q s")
  obtain y t' where y: "h2 q t = (y, t')" by (cases "h2 q t")
  have "x = y" "R s' t'"
    using step [of q s t] Op.prems x y by auto
  then show ?case
    using Op x y by (cases y) auto
qed auto

section \<open>Methods: replacing operations by their bodies\<close>

text \<open>
  \<open>elab m p st\<close> runs \<open>p\<close> with every operation replaced by its implementation \<open>m\<close>, which may
  keep a state of its own: this is how a call through the interface \<open>pmem.Region\<close> reaches the
  method of the region's dynamic type. \<open>under h m\<close> is the handler that results when the
  bodies themselves run against \<open>h\<close>.
\<close>

type_synonym 'st methods = "op \<Rightarrow> 'st \<Rightarrow> (resp \<times> 'st) io"

primrec elab :: "'st methods \<Rightarrow> 'a io \<Rightarrow> 'st \<Rightarrow> ('a \<times> 'st) io" where
  "elab m (Ret x) = (\<lambda>st. Ret (x, st))"
| "elab m (Fail e) = (\<lambda>st. Fail e)"
| "elab m (Op q k) = (\<lambda>st. bind (m q st) (\<lambda>y. elab m (k (fst y)) (snd y)))"

definition perform :: "op \<Rightarrow> 'st \<Rightarrow> (resp \<times> 'st) io" where
  "perform q st = Op q (\<lambda>x. Ret (x, st))"

definition under :: "'s handler \<Rightarrow> 'st methods \<Rightarrow> ('s \<times> 'st) handler" where
  "under h m = (\<lambda>q (s, st).
     case exec h (m q st) s of
       (Done y, s') \<Rightarrow> (Inr (fst y), (s', snd y))
     | (Failed e, s') \<Rightarrow> (Inl e, (s', st)))"

text \<open>A body that returns gives an answer of the right kind.\<close>

definition well_answering :: "'st methods \<Rightarrow> bool" where
  "well_answering m \<longleftrightarrow> (\<forall>q st tr y. runs (m q st) tr (Done y) \<longrightarrow> fits q (fst y))"

definition exec_answers :: "'s handler \<Rightarrow> 'st methods \<Rightarrow> bool" where
  "exec_answers h m \<longleftrightarrow> (\<forall>q st s y s'. exec h (m q st) s = (Done y, s') \<longrightarrow> fits q (fst y))"

lemma exec_done_runs: "exec h p s = (Done y, s') \<Longrightarrow> \<exists>tr. runs p tr (Done y)"
proof (induction p arbitrary: s)
  case (Op q k)
  then obtain x t where x: "h q s = (Inr x, t)" "fits q x" "exec h (k x) t = (Done y, s')"
    by (auto split: prod.splits sum.splits if_splits)
  then obtain tr where "runs (k x) tr (Done y)" using Op.IH by blast
  with x have "runs (Op q k) ((q, x) # tr) (Done y)" by simp
  then show ?case by blast
qed auto

lemma well_answering_exec: "well_answering m \<Longrightarrow> exec_answers h m"
  unfolding well_answering_def exec_answers_def by (metis exec_done_runs)

text \<open>Running an elaborated program is running the program under the elaborating handler.\<close>

lemma exec_elab:
  assumes "exec_answers h m"
  shows "exec h (elab m p st) s =
    (case exec (under h m) p (s, st) of
       (Done x, (s', st')) \<Rightarrow> (Done (x, st'), s')
     | (Failed e, (s', st')) \<Rightarrow> (Failed e, s'))"
proof (induction p arbitrary: s st)
  case (Op q k)
  show ?case
  proof (cases "exec h (m q st) s")
    case (Pair o1 s1)
    show ?thesis
    proof (cases o1)
      case (Done y)
      then have "fits q (fst y)"
        using assms Pair unfolding exec_answers_def by blast
      then show ?thesis
        using Op.IH [OF rangeI, of "fst y" "snd y" s1] Pair Done by (simp add: exec_bind under_def)
    next
      case (Failed e)
      then show ?thesis using Pair by (simp add: exec_bind under_def)
    qed
  qed
qed auto

text \<open>The operations an elaborated program performs are those of its bodies.\<close>

lemma safe_elab:
  assumes "safe P p" "I st"
    and "\<And>q st. P q \<Longrightarrow> I st \<Longrightarrow> safe Q (m q st)"
    and "\<And>q st tr y. P q \<Longrightarrow> I st \<Longrightarrow> runs (m q st) tr (Done y) \<Longrightarrow> fits q (fst y) \<and> I (snd y)"
  shows "safe Q (elab m p st)"
  using assms(1,2)
proof (induction p arbitrary: st)
  case (Op q k)
  then have "P q" by simp
  have "safe Q (bind (m q st) (\<lambda>y. elab m (k (fst y)) (snd y)))"
  proof (rule safe_bind)
    show "safe Q (m q st)" using assms(3) \<open>P q\<close> Op.prems(2) by blast
    fix y tr
    assume "runs (m q st) tr (Done y)"
    then have "fits q (fst y)" "I (snd y)"
      using assms(4) [OF \<open>P q\<close> Op.prems(2)] by auto
    moreover have "safe P (k (fst y))"
      using Op.prems(1) \<open>fits q (fst y)\<close> by simp
    ultimately show "safe Q (elab m (k (fst y)) (snd y))"
      using Op.IH [OF rangeI] by blast
  qed
  then show ?case by simp
qed auto

section \<open>What a program returns\<close>

definition returns :: "'a io \<Rightarrow> ('a \<Rightarrow> bool) \<Rightarrow> bool" where
  "returns p Q \<longleftrightarrow> (\<forall>tr x. runs p tr (Done x) \<longrightarrow> Q x)"

lemma returnsI: "(\<And>tr x. runs p tr (Done x) \<Longrightarrow> Q x) \<Longrightarrow> returns p Q"
  by (simp add: returns_def)

lemma returnsD: "returns p Q \<Longrightarrow> runs p tr (Done x) \<Longrightarrow> Q x"
  unfolding returns_def by blast

lemma returns_Ret [simp]: "returns (Ret x) Q = Q x"
  by (auto simp: returns_def)

lemma returns_Fail [simp]: "returns (Fail e) Q"
  by (simp add: returns_def)

lemma returns_mono: "returns p R \<Longrightarrow> (\<And>x. R x \<Longrightarrow> Q x) \<Longrightarrow> returns p Q"
  unfolding returns_def by blast

lemma returns_bind:
  "returns p R \<Longrightarrow> (\<And>x. R x \<Longrightarrow> returns (f x) Q) \<Longrightarrow> returns (bind p f) Q"
  unfolding returns_def by (metis outcome.distinct(1) runs_bindE)

lemma returns_seq: "(\<And>x. returns (f x) Q) \<Longrightarrow> returns (bind p f) Q"
  by (rule returns_bind [where R = "\<lambda>_. True"]) (simp_all add: returns_def)

section \<open>Reading traces\<close>

abbreviation ops :: "event list \<Rightarrow> op list" where
  "ops tr \<equiv> map fst tr"

fun is_wr :: "op \<Rightarrow> bool" where
  "is_wr (Wr32 _ _ _) = True"
| "is_wr (Wr8 _ _ _) = True"
| "is_wr _ = False"

fun is_rd :: "op \<Rightarrow> bool" where
  "is_rd (Rd32 _ _) = True"
| "is_rd (Rd8 _ _) = True"
| "is_rd _ = False"

abbreviation is_access :: "op \<Rightarrow> bool" where
  "is_access q \<equiv> is_rd q \<or> is_wr q"

text \<open>The register writes of a trace, in order.\<close>

definition writes :: "event list \<Rightarrow> op list" where
  "writes tr = filter is_wr (ops tr)"

lemma writes_simps [simp]:
  "writes [] = []"
  "writes (e # tr) = (if is_wr (fst e) then fst e # writes tr else writes tr)"
  "writes (tr @ tr') = writes tr @ writes tr'"
  by (simp_all add: writes_def)

text \<open>The value of the first answer to an operation in a trace.\<close>

primrec answer :: "op \<Rightarrow> event list \<Rightarrow> resp option" where
  "answer q [] = None"
| "answer q (e # tr) = (if fst e = q then Some (snd e) else answer q tr)"

section \<open>Monitors\<close>

text \<open>
  A monitor follows a run with a state of its own: \<open>step q x s\<close> is its state after the program
  did \<open>q\<close> and got \<open>x\<close>. \<open>wp step ok p Q s\<close> is the weakest precondition of \<open>p\<close>: from the
  monitor state \<open>s\<close>, \<open>ok\<close> holds after every operation of every run of \<open>p\<close>, and \<open>Q\<close> holds
  of the result and the last state when \<open>p\<close> returns.
\<close>

type_synonym 's monitor = "op \<Rightarrow> resp \<Rightarrow> 's \<Rightarrow> 's"

primrec wp :: "'s monitor \<Rightarrow> ('s \<Rightarrow> bool) \<Rightarrow> 'a io \<Rightarrow> ('a \<Rightarrow> 's \<Rightarrow> bool) \<Rightarrow> 's \<Rightarrow> bool" where
  "wp step ok (Ret x) Q s = Q x s"
| "wp step ok (Fail e) Q s = True"
| "wp step ok (Op q k) Q s =
     (\<forall>x. fits q x \<longrightarrow> ok (step q x s) \<and> wp step ok (k x) Q (step q x s))"

definition track :: "'s monitor \<Rightarrow> event list \<Rightarrow> 's \<Rightarrow> 's" where
  "track step tr s = fold (\<lambda>e. step (fst e) (snd e)) tr s"

lemma track_simps [simp]:
  "track step [] s = s"
  "track step (e # tr) s = track step tr (step (fst e) (snd e) s)"
  "track step (tr @ tr') s = track step tr' (track step tr s)"
  by (simp_all add: track_def)

lemma wp_bind: "wp step ok (bind p f) Q s = wp step ok p (\<lambda>x. wp step ok (f x) Q) s"
  by (induction p arbitrary: s) auto

lemma wp_mono: "wp step ok p Q s \<Longrightarrow> (\<And>x s. Q x s \<Longrightarrow> R x s) \<Longrightarrow> wp step ok p R s"
  by (induction p arbitrary: s) auto

lemma wp_bindI:
  "wp step ok p R s \<Longrightarrow> (\<And>x s. R x s \<Longrightarrow> wp step ok (f x) Q s) \<Longrightarrow> wp step ok (bind p f) Q s"
  unfolding wp_bind by (rule wp_mono)

lemma wp_forM:
  assumes "I s" "\<And>x s. x \<in> set xs \<Longrightarrow> I s \<Longrightarrow> wp step ok (f x) (\<lambda>_. I) s"
    and "\<And>s. I s \<Longrightarrow> Q () s"
  shows "wp step ok (forM xs f) Q s"
  using assms(1,2)
proof (induction xs arbitrary: s)
  case Nil
  then show ?case using assms(3) by simp
next
  case (Cons x xs)
  have "wp step ok (forM xs f) Q s'" if "I s'" for s'
    using Cons that by simp
  moreover have "wp step ok (f x) (\<lambda>_. I) s" using Cons by simp
  ultimately show ?case unfolding forM.simps by (intro wp_bindI [where R = "\<lambda>_. I"])
qed

lemma wp_track:
  assumes "wp step ok p Q s" "ok s" "runs p tr out"
  shows "(\<forall>n. ok (track step (take n tr) s)) \<and> (\<forall>x. out = Done x \<longrightarrow> Q x (track step tr s))"
  using assms(3,1,2)
proof (induction arbitrary: s rule: runs.induct)
  case (runs_Op q x k tr out)
  then have "wp step ok (k x) Q (step q x s)" "ok (step q x s)" by simp_all
  from runs_Op.IH [OF this] have IH: "ok (track step (take n tr) (step q x s))"
      "\<forall>y. out = Done y \<longrightarrow> Q y (track step tr (step q x s))" for n
    by blast+
  have "ok (track step (take n ((q, x) # tr)) s)" for n
    using IH(1) runs_Op.prems(2) by (cases n) simp_all
  then show ?case using IH(2) by simp
qed simp_all

text \<open>A precondition read off the runs.\<close>

lemma wp_of_runs:
  "(\<And>tr x. runs p tr (Done x) \<Longrightarrow> Q x (track step tr s)) \<Longrightarrow> wp step (\<lambda>_. True) p Q s"
proof (induction p arbitrary: s)
  case (Op q k)
  have "wp step (\<lambda>_. True) (k x) Q (step q x s)" if "fits q x" for x
  proof (rule Op.IH)
    fix tr y
    assume "runs (k x) tr (Done y)"
    with that have "runs (Op q k) ((q, x) # tr) (Done y)" by simp
    from Op.prems [OF this] show "Q y (track step tr (step q x s))" by simp
  qed simp
  then show ?case by simp
next
  case (Ret x)
  from Ret [of "[]" x] show ?case by simp
qed simp

text \<open>The single operations, followed by the rest of a program.\<close>

lemma wp_ops [simp]:
  "wp step ok (read32 r off) Qw s =
     (\<forall>v. ok (step (Rd32 r off) (RU32 v) s) \<and> Qw v (step (Rd32 r off) (RU32 v) s))"
  "wp step ok (read8 r off) Qb s =
     (\<forall>b. ok (step (Rd8 r off) (RU8 b) s) \<and> Qb b (step (Rd8 r off) (RU8 b) s))"
  "wp step ok (write32 r off v) Q s =
     (ok (step (Wr32 r off v) RUnit s) \<and> Q () (step (Wr32 r off v) RUnit s))"
  "wp step ok (write8 r off b) Q s =
     (ok (step (Wr8 r off b) RUnit s) \<and> Q () (step (Wr8 r off b) RUnit s))"
  "wp step ok (print f a) Q s =
     (ok (step (Print f a) RUnit s) \<and> Q () (step (Print f a) RUnit s))"
  "wp step ok (sleep d) Q s = (ok (step (Sleep d) RUnit s) \<and> Q () (step (Sleep d) RUnit s))"
  "wp step ok gosched Q s = (ok (step Gosched RUnit s) \<and> Q () (step Gosched RUnit s))"
  "wp step ok now Qt s = (\<forall>t. ok (step Now (RInt t) s) \<and> Qt t (step Now (RInt t) s))"
  by (auto simp: io_defs)

lemma answer_all:
  "(\<forall>x. (\<exists>bs z. x = RAt bs z \<and> P bs z) \<longrightarrow> R x) \<longleftrightarrow> (\<forall>bs z. P bs z \<longrightarrow> R (RAt bs z))"
  "(\<forall>x. (\<exists>j z. x = RWrote j z \<and> P' j z) \<longrightarrow> R x) \<longleftrightarrow> (\<forall>j z. P' j z \<longrightarrow> R (RWrote j z))"
  by blast+

lemma wp_at [simp]:
  "wp step ok (read_at pth i n) Qr s = (\<forall>bs e. length bs \<le> n \<and> (length bs < n \<longrightarrow> e \<noteq> None) \<longrightarrow>
     ok (step (ReadAt pth i n) (RAt bs e) s) \<and> Qr (bs, e) (step (ReadAt pth i n) (RAt bs e) s))"
  "wp step ok (write_at pth i ws) Qn s = (\<forall>j e. j \<le> length ws \<and> (j < length ws \<longrightarrow> e \<noteq> None) \<longrightarrow>
     ok (step (WriteAt pth i ws) (RWrote j e) s) \<and> Qn (j, e) (step (WriteAt pth i ws) (RWrote j e) s))"
  unfolding io_defs wp.simps fits_iff answer_all by simp_all

lemma wp_if: "wp step ok (if b then p else q) Q s = (if b then wp step ok p Q s else wp step ok q Q s)"
  by simp

section \<open>Command-line settings\<close>

text \<open>
  The package-level flags, fixed once \<open>flag.Parse\<close> has run, and what \<open>uname\<close> says of the
  machine the program runs on. \<open>fuel\<close> bounds the waiting loops.
\<close>

record config =
  SocReset :: bool
  LpcReset :: bool
  NoWrite :: bool
  Verbose :: bool
  Debug :: bool
  ExtraCheck :: bool
  SpiMode :: int
  archName :: string
  DevName :: string
  fuel :: nat

text \<open>All flags at their defaults, on a host.\<close>

definition plain_config :: config where
  "plain_config = \<lparr>SocReset = False, LpcReset = False, NoWrite = False, Verbose = False,
     Debug = False, ExtraCheck = False, SpiMode = 0, archName = ''x86_64'', DevName = ''/dev/mem'',
     fuel = 100\<rparr>"

lemma plain_config_sel [simp]:
  "\<not> SocReset plain_config" "\<not> LpcReset plain_config" "\<not> NoWrite plain_config"
  "\<not> Verbose plain_config" "\<not> Debug plain_config" "\<not> ExtraCheck plain_config"
  "SpiMode plain_config = 0" "archName plain_config = ''x86_64''" "DevName plain_config = ''/dev/mem''"
  by (simp_all add: plain_config_def)

lemma plain_config_fuel: "fuel plain_config = Suc 99"
  by (simp add: plain_config_def)

text \<open>An answer for every operation, for the environments of the witnesses.\<close>

definition quiet :: "op \<Rightarrow> resp" where
  "quiet q = (case q of
       Rd32 _ _ \<Rightarrow> RU32 0 | Rd8 _ _ \<Rightarrow> RU8 0 | Load32 _ _ \<Rightarrow> RU32 0 | Load8 _ _ \<Rightarrow> RU8 0
     | LoadN _ _ n \<Rightarrow> RFile (replicate n 0)
     | PRead _ _ n \<Rightarrow> RBytes (replicate n 0) False | PWrite _ _ bs \<Rightarrow> RCount (length bs) False
     | OpenDev _ _ \<Rightarrow> ROk | Mmap _ _ _ \<Rightarrow> ROk
     | ReadAt _ _ n \<Rightarrow> RAt (replicate n 0) None | WriteAt _ _ bs \<Rightarrow> RWrote (length bs) None
     | ReadDir _ \<Rightarrow> RNames [] | Stat _ \<Rightarrow> RBool True | OpenFile _ \<Rightarrow> ROk
     | ReadFile _ \<Rightarrow> RFile [] | WriteFile _ _ \<Rightarrow> ROk
     | Stdin n \<Rightarrow> RBytes (replicate n 0) False | Stdout bs \<Rightarrow> RCount (length bs) False
     | Ioctl _ _ \<Rightarrow> RIoctl (Errno 1) | Now \<Rightarrow> RInt 0 | _ \<Rightarrow> RUnit)"

lemma fits_quiet [simp]: "fits q (quiet q)"
  by (cases q) (auto simp: quiet_def)

text \<open>An environment for the witnesses: registers that read as zero.\<close>

definition zeros :: "unit handler" where
  "zeros q s = (Inr (case q of Rd32 r off \<Rightarrow> RU32 0 | Rd8 r off \<Rightarrow> RU8 0 | Now \<Rightarrow> RInt 0 | _ \<Rightarrow> RUnit), s)"

lemma exec_zeros [simp]:
  "exec zeros (read32 r off) s = (Done 0, s)" "exec zeros (read8 r off) s = (Done 0, s)"
  "exec zeros (write32 r off v) s = (Done (), s)" "exec zeros (write8 r off b) s = (Done (), s)"
  "exec zeros (print f a) s = (Done (), s)" "exec zeros (sleep d) s = (Done (), s)"
  "exec zeros now s = (Done 0, s)"
  by (simp_all add: zeros_def io_defs)

end
