(* ===== verification/Regs.thy ===== *)
theory Regs
  imports GoText GoIO
begin

text \<open>
  The textual register tables (ast/reg.go): \<open>ParseRegs\<close> reads lines \<open>offset name\<close> and indented
  lines \<open>bits name\<close>. Malformed lines end the process (\<open>log.Fatalf\<close>); a field line before any
  register dereferences a nil register.
\<close>

section \<open>The data\<close>

text \<open>\<open>Parent\<close> is the position of the register in the list being built.\<close>

record RegField =
  Parent :: nat
  fName :: string
  FirstBit :: u8
  NumBits :: u8

record Reg =
  rName :: string
  Off :: int
  Fields :: "RegField list"

section \<open>The parser\<close>

definition field_fatal :: "string list \<Rightarrow> failure" where
  "field_fatal toks = Fatal ''Cannot parse field line'' [AS (Join (CHR '' '') toks)]"

definition ParseField :: "nat \<Rightarrow> Reg \<Rightarrow> string list \<Rightarrow> failure + Reg" where
  "ParseField parent r toks =
     (if length toks < 2 \<or> toks ! 0 = [] \<or> toks ! 1 = [] then Inl (field_fatal toks)
      else
        let name = Join (CHR '' '') (tl toks);
            bits = Split (CHR '':'') (toks ! 0);
            (b0, err) = ParseInt (bits ! 0) 10 8
        in if err \<noteq> None then Inl (field_fatal toks)
           else case bits of
             [_] \<Rightarrow> Inr (r\<lparr>Fields := Fields r @ [\<lparr>Parent = parent, fName = name,
                     FirstBit = word_of_int b0, NumBits = 1\<rparr>]\<rparr>)
           | [_, hi] \<Rightarrow>
               let (b1, err1) = ParseInt hi 10 8
               in if err1 \<noteq> None \<or> b0 \<le> b1 then Inl (field_fatal toks)
                  else Inr (r\<lparr>Fields := Fields r @ [\<lparr>Parent = parent, fName = name,
                     FirstBit = word_of_int b1, NumBits = word_of_int (b0 + 1 - b1)\<rparr>]\<rparr>)
           | _ \<Rightarrow> Inl (field_fatal toks))"

definition ParseReg :: "string list \<Rightarrow> failure + Reg" where
  "ParseReg toks =
     (if length toks < 2 \<or> toks ! 0 = [] \<or> toks ! 1 = []
      then Inl (Fatal ''Cannot parse reg line'' [AS (Join (CHR '' '') toks)])
      else
        let name = Join (CHR '' '') (tl toks);
            (off, err) = ParseInt (toks ! 0) 0 32
        in if err \<noteq> None
           then Inl (Fatal ''Cannot int parse for reg line'' [AS (toks ! 0), AS name])
           else Inr \<lparr>rName = name, Off = off, Fields = []\<rparr>)"

text \<open>One line; \<open>r\<close> of the source is the last register of the list, or nil.\<close>

definition ParseLine :: "Reg list \<Rightarrow> string \<Rightarrow> failure + Reg list" where
  "ParseLine rList l =
     (if l = [] then Inr rList
      else
        let toks = Split (CHR '' '') l
        in if toks ! 0 = [] \<and> length toks < 2 then Inl (Panic ''index out of range'')
           else if toks ! 0 = [] \<and> toks ! 1 = []
           then (if rList = [] then Inl (Panic ''nil pointer dereference'')
                 else case ParseField (length rList - 1) (last rList) (drop 2 toks) of
                     Inl e \<Rightarrow> Inl e
                   | Inr r \<Rightarrow> Inr (butlast rList @ [r]))
           else (case ParseReg toks of
                     Inl e \<Rightarrow> Inl e
                   | Inr r \<Rightarrow> Inr (rList @ [r])))"

fun ParseLines :: "Reg list \<Rightarrow> string list \<Rightarrow> failure + Reg list" where
  "ParseLines rList [] = Inr rList"
| "ParseLines rList (l # ls) =
     (case ParseLine rList l of Inl e \<Rightarrow> Inl e | Inr rList' \<Rightarrow> ParseLines rList' ls)"

abbreviation newline :: char where
  "newline \<equiv> CHR 0x0A"

definition ParseRegs :: "string \<Rightarrow> failure + Reg list" where
  "ParseRegs def = ParseLines [] (Split newline def)"

text \<open>ast.go, \<open>spiReg\<close>: the table of the SPI controller, as lines.\<close>

definition spiReg_lines :: "string list" where
  "spiReg_lines =
    ['''',
     ''0 CEType'',
     ''  16 CE write type'',
     ''  1:0 CE Flash type (2 == spiflash)'',
     ''4 CeCtl'',
     ''  8 Ce0Div2'',
     ''  0 Ce0Addr4B'',
     ''0x10 Ce0Ctl'',
     ''  30:28 IO mode'',
     ''  23:16 Cmd'',
     ''  15 dummy cycles bit2'',
     ''  12 CmdMerge'',
     ''  11:8 ClkSpeed (0 == HCLK/16, 15 = HCLK)'',
     ''  7:6 dummy cycles bit1:0'',
     ''  5 Msbit-Lsbit order'',
     ''  3 DualInput'',
     ''  2 CeStopActive'',
     ''  1:0 CmdMode'',
     ''0x94 DataInputDelay'',
     '''']"

definition spiReg :: string where
  "spiReg = Join newline spiReg_lines"

definition spiRegs :: "failure + Reg list" where
  "spiRegs = ParseRegs spiReg"

section \<open>Printing a table\<close>

text \<open>
  The textual form of a table, and the tables that have one: names that start with something
  other than a space and hold no newline, offsets and bit ranges in the range of the parser.
\<close>

definition print_field :: "RegField \<Rightarrow> string" where
  "print_field f = ''  '' @
     (if NumBits f = 1 then dec_str (unat (FirstBit f))
      else dec_str (unat (FirstBit f) + unat (NumBits f) - 1) @ '':'' @ dec_str (unat (FirstBit f)))
     @ '' '' @ fName f"

definition print_reg :: "Reg \<Rightarrow> string list" where
  "print_reg r = (''0x'' @ hex_str (nat (Off r)) @ '' '' @ rName r) # map print_field (Fields r)"

definition plain_name :: "string \<Rightarrow> bool" where
  "plain_name s \<longleftrightarrow> s \<noteq> [] \<and> hd s \<noteq> CHR '' '' \<and> newline \<notin> set s"

definition wf_field :: "nat \<Rightarrow> RegField \<Rightarrow> bool" where
  "wf_field i f \<longleftrightarrow> Parent f = i \<and> plain_name (fName f) \<and> 1 \<le> unat (NumBits f)
     \<and> unat (FirstBit f) + unat (NumBits f) \<le> 128"

definition wf_reg :: "nat \<Rightarrow> Reg \<Rightarrow> bool" where
  "wf_reg i r \<longleftrightarrow> plain_name (rName r) \<and> 0 \<le> Off r \<and> Off r < 2 ^ 31 \<and> list_all (wf_field i) (Fields r)"

definition wf_regs :: "Reg list \<Rightarrow> bool" where
  "wf_regs rs \<longleftrightarrow> (\<forall>i < length rs. wf_reg i (rs ! i))"

lemma Split_name: "plain_name s \<Longrightarrow> \<exists>p ps. Split (CHR '' '') s = p # ps \<and> p \<noteq> [] \<and> Join (CHR '' '') (p # ps) = s"
proof -
  assume s: "plain_name s"
  then obtain c cs where c: "s = c # cs" "c \<noteq> CHR '' ''" by (cases s) (auto simp: plain_name_def)
  obtain p ps where p: "Split (CHR '' '') s = p # ps" by (cases "Split (CHR '' '') s") auto
  moreover have "p \<noteq> []" using p c by (auto split: list.splits)
  moreover have "Join (CHR '' '') (p # ps) = s" using Join_Split [of "CHR '' ''" s] p by simp
  ultimately show ?thesis by blast
qed

lemma digits_no:
  assumes "b = 10 \<or> b = 16"
  shows "CHR '' '' \<notin> set (digits_of b n)" "CHR '':'' \<notin> set (digits_of b n)" "newline \<notin> set (digits_of b n)"
  using assms digits_of_plain [of b n] by auto

lemma ParseInt_dec: "n < 128 \<Longrightarrow> ParseInt (dec_str n) 10 8 = (int n, None)"
  using ParseInt_digits_of [of 10 8 n] by simp

lemma ParseField_printed:
  assumes "wf_field i f"
  shows "\<exists>toks. Split (CHR '' '') (print_field f) = [] # [] # toks
    \<and> ParseField i r toks = Inr (r\<lparr>Fields := Fields r @ [f]\<rparr>)"
proof -
  let ?lo = "unat (FirstBit f)" and ?n = "unat (NumBits f)"
  obtain p ps where p: "Split (CHR '' '') (fName f) = p # ps" "p \<noteq> []"
      "Join (CHR '' '') (p # ps) = fName f"
    using assms Split_name unfolding wf_field_def by blast
  have w: "Parent f = i" "1 \<le> ?n" "?lo + ?n \<le> 128"
    using assms by (auto simp: wf_field_def)
  have f: "f = \<lparr>Parent = i, fName = fName f, FirstBit = FirstBit f, NumBits = NumBits f\<rparr>"
    using w by simp
  show ?thesis
  proof (cases "NumBits f = 1")
    case True
    let ?t = "dec_str ?lo"
    have "Split (CHR '' '') (print_field f) = [] # [] # ?t # p # ps"
      using True p by (simp add: print_field_def Split_append_sep digits_no)
    moreover have "ParseField i r (?t # p # ps) = Inr (r\<lparr>Fields := Fields r @ [f]\<rparr>)"
      using True p w
      by (subst f) (simp add: ParseField_def Split_plain digits_no ParseInt_dec)
    ultimately show ?thesis by blast
  next
    case False
    then have "?n \<noteq> 1" by (simp add: word_unat_eq_iff)
    then have n: "2 \<le> ?n" using w by linarith
    let ?t = "dec_str (?lo + ?n - 1) @ '':'' @ dec_str ?lo"
    have sp: "CHR '' '' \<notin> set ?t" by (simp add: digits_no)
    have "print_field f = CHR '' '' # CHR '' '' # (?t @ CHR '' '' # fName f)"
      using False by (simp add: print_field_def)
    then have "Split (CHR '' '') (print_field f) = [] # [] # ?t # p # ps"
      using Split_append_sep [OF sp, of "fName f"] p by simp
    moreover have "Split (CHR '':'') ?t = [dec_str (?lo + ?n - 1), dec_str ?lo]"
      by (simp add: Split_append_sep Split_plain digits_no)
    moreover have "ParseInt (dec_str (?lo + ?n - 1)) 10 8 = (int (?lo + ?n - 1), None)"
      "ParseInt (dec_str ?lo) 10 8 = (int ?lo, None)"
      using w by (simp_all add: ParseInt_dec)
    moreover have "int (?lo + ?n - 1) + 1 - int ?lo = int ?n" using w by linarith
    moreover have "\<not> int (?lo + ?n - 1) \<le> int ?lo" using n by linarith
    moreover have "\<not> uint (NumBits f) \<le> 1" unfolding uint_nat using n by linarith
    ultimately have "ParseField i r (?t # p # ps) = Inr (r\<lparr>Fields := Fields r @ [f]\<rparr>)"
      using p(2,3) w(1) by (subst f) (simp add: ParseField_def)
    then show ?thesis using \<open>Split (CHR '' '') (print_field f) = [] # [] # ?t # p # ps\<close> by blast
  qed
qed

lemma ParseReg_printed:
  assumes "wf_reg i r"
  shows "\<exists>t toks. Split (CHR '' '') (''0x'' @ hex_str (nat (Off r)) @ '' '' @ rName r) = t # toks \<and> t \<noteq> []
    \<and> ParseReg (t # toks) = Inr \<lparr>rName = rName r, Off = Off r, Fields = []\<rparr>"
proof -
  obtain p ps where p: "Split (CHR '' '') (rName r) = p # ps" "p \<noteq> []"
      "Join (CHR '' '') (p # ps) = rName r"
    using assms Split_name unfolding wf_reg_def by blast
  let ?t = "''0x'' @ hex_str (nat (Off r))"
  have sp: "CHR '' '' \<notin> set ?t" by (simp add: digits_no)
  have "''0x'' @ hex_str (nat (Off r)) @ '' '' @ rName r = ?t @ CHR '' '' # rName r" by simp
  then have "Split (CHR '' '') (''0x'' @ hex_str (nat (Off r)) @ '' '' @ rName r) = ?t # p # ps"
    using Split_append_sep [OF sp] p by metis
  moreover have "ParseInt ?t 0 32 = (Off r, None)"
    using assms ParseInt_0x [of 32 "nat (Off r)"] by (simp add: wf_reg_def)
  ultimately show ?thesis
    using p by (intro exI [of _ ?t] exI [of _ "p # ps"]) (simp add: ParseReg_def)
qed

lemma ParseLine_field:
  assumes "wf_field (length rs) f"
  shows "ParseLine (rs @ [r]) (print_field f) = Inr (rs @ [r\<lparr>Fields := Fields r @ [f]\<rparr>])"
proof -
  obtain toks where t: "Split (CHR '' '') (print_field f) = [] # [] # toks"
      "ParseField (length rs) r toks = Inr (r\<lparr>Fields := Fields r @ [f]\<rparr>)"
    using ParseField_printed [OF assms] by blast
  then show ?thesis by (auto simp: ParseLine_def print_field_def)
qed

lemma ParseLines_append:
  "ParseLines rs (ls @ ms) = (case ParseLines rs ls of Inl e \<Rightarrow> Inl e | Inr rs' \<Rightarrow> ParseLines rs' ms)"
  by (induction rs ls rule: ParseLines.induct) (auto split: sum.splits)

lemma ParseLines_fields:
  "list_all (wf_field (length rs)) fs \<Longrightarrow>
     ParseLines (rs @ [r]) (map print_field fs) = Inr (rs @ [r\<lparr>Fields := Fields r @ fs\<rparr>])"
  by (induction fs arbitrary: r) (auto simp: ParseLine_field)

lemma ParseLines_reg:
  assumes "wf_reg (length rs) r"
  shows "ParseLines rs (print_reg r) = Inr (rs @ [r])"
proof -
  obtain t toks where t: "Split (CHR '' '') (''0x'' @ hex_str (nat (Off r)) @ '' '' @ rName r) = t # toks"
      "t \<noteq> []" "ParseReg (t # toks) = Inr \<lparr>rName = rName r, Off = Off r, Fields = []\<rparr>"
    using ParseReg_printed [OF assms] by blast
  have "ParseLine rs (''0x'' @ hex_str (nat (Off r)) @ '' '' @ rName r)
      = Inr (rs @ [\<lparr>rName = rName r, Off = Off r, Fields = []\<rparr>])"
    unfolding ParseLine_def using t by (auto simp del: append.simps)
  moreover have "list_all (wf_field (length rs)) (Fields r)"
    using assms by (simp add: wf_reg_def)
  ultimately show ?thesis
    using ParseLines_fields [of rs "Fields r" "\<lparr>rName = rName r, Off = Off r, Fields = []\<rparr>"]
    by (simp add: print_reg_def del: append_Cons)
qed

lemma ParseLines_regs:
  assumes "\<forall>i < length rs. wf_reg (length done + i) (rs ! i)"
  shows "ParseLines done (concat (map print_reg rs)) = Inr (done @ rs)"
  using assms
proof (induction rs arbitrary: "done")
  case (Cons r rs)
  have "wf_reg (length done) r" using Cons.prems by force
  moreover have "\<forall>i < length rs. wf_reg (length (done @ [r]) + i) (rs ! i)"
    using Cons.prems by force
  ultimately show ?case
    using Cons.IH [of "done @ [r]"] by (simp add: ParseLines_append ParseLines_reg)
qed simp

lemma print_no_newline:
  assumes "wf_reg i r" "l \<in> set (print_reg r)"
  shows "newline \<notin> set l"
proof -
  consider "l = ''0x'' @ hex_str (nat (Off r)) @ '' '' @ rName r"
    | f where "f \<in> set (Fields r)" "l = print_field f"
    using assms(2) by (auto simp: print_reg_def)
  then show ?thesis
  proof cases
    case 1
    then show ?thesis using assms(1) by (simp add: wf_reg_def plain_name_def digits_no)
  next
    case 2
    then have "newline \<notin> set (fName f)"
      using assms(1) by (auto simp: wf_reg_def wf_field_def plain_name_def list_all_iff)
    then show ?thesis using 2 by (simp add: print_field_def digits_no)
  qed
qed

text \<open>
  Property C30: a table written in the textual format is read back exactly: every register with
  its offset and name, every field under its own register with its bit range and name.
\<close>

theorem ParseRegs_roundtrip:
  assumes "wf_regs rs"
  shows "ParseRegs (Join newline (concat (map print_reg rs))) = Inr rs"
proof (cases "rs = []")
  case True
  then show ?thesis by (simp add: ParseRegs_def ParseLine_def)
next
  case False
  let ?ls = "concat (map print_reg rs)"
  have "?ls \<noteq> []" using False by (cases rs) (auto simp: print_reg_def)
  moreover have "newline \<notin> set l" if "l \<in> set ?ls" for l
    using that assms print_no_newline by (fastforce simp: wf_regs_def in_set_conv_nth)
  ultimately have "Split newline (Join newline ?ls) = ?ls" by (rule Split_Join)
  then show ?thesis
    using ParseLines_regs [of rs "[]"] assms by (simp add: ParseRegs_def wf_regs_def)
qed

lemma Join_plain:
  assumes "Split (CHR '' '') s = a @ p # ps" "newline \<notin> set s" "p \<noteq> []"
  shows "plain_name (Join (CHR '' '') (p # ps))"
proof -
  have "CHR '' '' \<notin> set p" using Split_no_sep [of p "CHR '' ''" s] assms by simp
  moreover have "newline \<notin> set (Join (CHR '' '') (p # ps))"
  proof -
    have "set (Join c ys) \<subseteq> set (Join c (xs @ ys))" for c xs ys
      by (induction xs) (auto simp: Join_Cons)
    then show ?thesis using assms Join_Split [of "CHR '' ''" s] by (metis subsetD)
  qed
  ultimately show ?thesis
    using assms(3) by (cases p) (auto simp: plain_name_def Join_Cons)
qed

section \<open>What the parser accepts\<close>

text \<open>
  The bits of a field are given by two signed 8-bit numbers, the low one not above the high one;
  they are stored as unsigned bytes.
\<close>

definition bit_range :: "RegField \<Rightarrow> bool" where
  "bit_range f \<longleftrightarrow> (\<exists>lo \<in> {-128..127}. \<exists>hi \<in> {lo..127}.
     FirstBit f = word_of_int lo \<and> NumBits f = word_of_int (hi + 1 - lo))"

definition field_ok :: "nat \<Rightarrow> RegField \<Rightarrow> bool" where
  "field_ok i f \<longleftrightarrow> Parent f = i \<and> plain_name (fName f) \<and> bit_range f"

definition reg_ok :: "nat \<Rightarrow> Reg \<Rightarrow> bool" where
  "reg_ok i r \<longleftrightarrow> plain_name (rName r) \<and> - (2 ^ 31) \<le> Off r \<and> Off r < 2 ^ 31
     \<and> list_all (field_ok i) (Fields r)"

text \<open>A range whose low number is not negative is stored as it is.\<close>

lemma bit_range_small:
  assumes "bit_range f" "FirstBit f < 128"
  shows "1 \<le> unat (NumBits f) \<and> unat (FirstBit f) + unat (NumBits f) \<le> 128"
proof -
  obtain lo hi where r: "- 128 \<le> lo" "lo \<le> hi" "hi < 128" "FirstBit f = word_of_int lo"
    "NumBits f = word_of_int (hi + 1 - lo)"
    using assms(1) by (auto simp: bit_range_def)
  have u: "uint (FirstBit f) = lo mod 256" "uint (NumBits f) = (hi + 1 - lo) mod 256"
    by (simp_all add: r(4,5) uint_word_of_int del: of_int_diff of_int_add)
  have "uint (FirstBit f) < 128" using assms(2) by (simp add: word_less_def)
  then have "lo mod 256 < 128" using u by simp
  have "0 \<le> lo"
  proof (rule ccontr)
    assume "\<not> 0 \<le> lo"
    then have "(lo + 256) mod 256 = lo + 256" using r(1) by (intro mod_pos_pos_trivial) auto
    then have "lo mod 256 = lo + 256" by simp
    then show False using \<open>lo mod 256 < 128\<close> r(1) by simp
  qed
  then have "uint (FirstBit f) = lo" "uint (NumBits f) = hi + 1 - lo" using u r(2,3) by simp_all
  then show ?thesis using r(2,3) \<open>0 \<le> lo\<close> unfolding unat_eq_nat_uint by linarith
qed

lemma ParseField_ok:
  assumes "ParseField i r toks = Inr r'" "Split (CHR '' '') l = pre @ toks" "newline \<notin> set l"
  shows "\<exists>f. r' = r\<lparr>Fields := Fields r @ [f]\<rparr> \<and> field_ok i f"
proof -
  obtain p q qs where toks: "toks = p # q # qs" "q \<noteq> []"
    using assms(1) by (cases toks; cases "tl toks") (auto simp: ParseField_def Let_def split: if_splits)
  have name: "plain_name (Join (CHR '' '') (q # qs))"
    using Join_plain [of l "pre @ [p]" q qs] assms(2,3) toks by simp
  obtain b0 e0 where b0: "ParseInt (Split (CHR '':'') p ! 0) 10 8 = (b0, e0)" by force
  have e0: "e0 = None" using assms(1) b0 toks by (auto simp: ParseField_def Let_def split: if_splits)
  have r0: "- 128 \<le> b0" "b0 < 128" using ParseInt_range [of _ 10 8] b0 e0 by force+
  obtain bits where bits: "bits = Split (CHR '':'') p" by simp
  consider (none) "bits = []" | (one) x where "bits = [x]" | (two) x y where "bits = [x, y]"
    | (many) x y z zs where "bits = x # y # z # zs"
    by (metis list.exhaust)
  then show ?thesis
  proof cases
    case none
    then show ?thesis using bits by simp
  next
    case many
    then show ?thesis
      using assms(1) b0 e0 toks(1) many [unfolded bits]
      by (auto simp: ParseField_def Let_def split: if_splits)
  next
    case one
    let ?f = "\<lparr>Parent = i, fName = Join (CHR '' '') (q # qs), FirstBit = word_of_int b0, NumBits = 1\<rparr>"
    have "field_ok i ?f"
      using name r0 by (auto simp: field_ok_def bit_range_def intro!: bexI [of _ b0])
    moreover have "r' = r\<lparr>Fields := Fields r @ [?f]\<rparr>"
      using assms(1) b0 e0 toks(1) one [unfolded bits]
      by (auto simp: ParseField_def Let_def split: if_splits)
    ultimately show ?thesis by blast
  next
    case two
    obtain b1 e1 where b1: "ParseInt y 10 8 = (b1, e1)" by force
    have e1: "e1 = None" "b1 < b0"
      using assms(1) b0 e0 toks(1) two [unfolded bits] b1
      by (auto simp: ParseField_def Let_def split: if_splits)
    then have r1: "- 128 \<le> b1" using ParseInt_range [of y 10 8 b1] b1 by simp
    let ?f = "\<lparr>Parent = i, fName = Join (CHR '' '') (q # qs), FirstBit = word_of_int b1,
        NumBits = word_of_int (b0 + 1 - b1)\<rparr>"
    have "field_ok i ?f"
      using name r0 r1 e1 by (force simp: field_ok_def bit_range_def)
    moreover have "r' = r\<lparr>Fields := Fields r @ [?f]\<rparr>"
      using assms(1) b0 e0 toks(1) two [unfolded bits] b1 e1
      by (auto simp: ParseField_def Let_def split: if_splits)
    ultimately show ?thesis by blast
  qed
qed

lemma ParseReg_ok:
  assumes "ParseReg toks = Inr r" "Split (CHR '' '') l = toks" "newline \<notin> set l"
  shows "reg_ok i r \<and> Fields r = []"
proof -
  obtain p q qs where toks: "toks = p # q # qs" "q \<noteq> []"
    using assms(1) by (cases toks; cases "tl toks") (auto simp: ParseReg_def Let_def split: if_splits)
  have name: "plain_name (Join (CHR '' '') (q # qs))"
    using Join_plain [of l "[p]" q qs] assms(2,3) toks by simp
  then show ?thesis
    using assms(1) toks ParseInt_range [of p 0 32]
    by (auto simp: ParseReg_def Let_def reg_ok_def split: if_splits prod.splits)
qed

definition regs_ok :: "Reg list \<Rightarrow> bool" where
  "regs_ok rs \<longleftrightarrow> (\<forall>i < length rs. reg_ok i (rs ! i))"

lemma regs_ok_snoc: "regs_ok (rs @ [r]) \<longleftrightarrow> regs_ok rs \<and> reg_ok (length rs) r"
  by (auto simp: regs_ok_def nth_append less_Suc_eq)

lemma ParseLine_ok:
  assumes "ParseLine rs l = Inr rs'" "regs_ok rs" "newline \<notin> set l"
  shows "regs_ok rs'"
proof (cases "l = []")
  case True
  then show ?thesis using assms by (simp add: ParseLine_def)
next
  case False
  define toks where "toks = Split (CHR '' '') l"
  show ?thesis
  proof (cases "toks ! 0 = [] \<and> toks ! 1 = []")
    case True
    with assms(1) False obtain r where r: "rs \<noteq> []" "rs' = butlast rs @ [r]"
        "ParseField (length rs - 1) (last rs) (drop 2 toks) = Inr r"
      by (auto simp: ParseLine_def Let_def toks_def [symmetric] split: if_splits sum.splits)
    obtain f where f: "r = (last rs)\<lparr>Fields := Fields (last rs) @ [f]\<rparr>" "field_ok (length rs - 1) f"
      using ParseField_ok [OF r(3), of l "take 2 toks"] assms(3) by (auto simp: toks_def)
    have "regs_ok (butlast rs)" "reg_ok (length rs - 1) (last rs)"
      using regs_ok_snoc [of "butlast rs" "last rs"] assms(2) r(1) by simp_all
    then show ?thesis using f r by (simp add: regs_ok_snoc reg_ok_def)
  next
    case fld: False
    with assms(1) False obtain r where r: "rs' = rs @ [r]" "ParseReg toks = Inr r"
      by (auto simp: ParseLine_def Let_def toks_def [symmetric] split: if_splits sum.splits)
    then show ?thesis
      using ParseReg_ok [OF r(2) _ assms(3)] assms(2) by (auto simp: regs_ok_snoc toks_def)
  qed
qed

lemma ParseLines_ok:
  "ParseLines rs ls = Inr rs' \<Longrightarrow> regs_ok rs \<Longrightarrow> (\<forall>l \<in> set ls. newline \<notin> set l) \<Longrightarrow> regs_ok rs'"
proof (induction rs ls rule: ParseLines.induct)
  case (2 rs l ls)
  then show ?case using ParseLine_ok [of rs l] by (auto split: sum.splits)
qed simp

section \<open>When it aborts\<close>

text \<open>The first non-empty line is a field line.\<close>

definition field_first :: "string list \<Rightarrow> bool" where
  "field_first ls \<longleftrightarrow> (case dropWhile (\<lambda>l. l = []) ls of
      l # _ \<Rightarrow> l = '' '' \<or> take 2 l = ''  ''
    | [] \<Rightarrow> False)"

lemma Split_field: "l \<noteq> [] \<Longrightarrow>
    (Split (CHR '' '') l ! 0 = [] \<and> Split (CHR '' '') l ! 1 = []) \<longleftrightarrow> (l = '' '' \<or> take 2 l = ''  '')"
  "l \<noteq> [] \<Longrightarrow> Split (CHR '' '') l ! 0 = [] \<Longrightarrow> 2 \<le> length (Split (CHR '' '') l)"
  by (cases l; cases "tl l"; auto split: list.splits if_splits)+

text \<open>Which lines are for a field, and which for a register.\<close>

definition field_line :: "string \<Rightarrow> bool" where
  "field_line l \<longleftrightarrow> l = '' '' \<or> take 2 l = ''  ''"

text \<open>
  The outline of a text: its registers in order, each with the names of its fields. The name is
  what follows the first word of the line, which for a field comes after two spaces.
\<close>

definition after_word :: "string \<Rightarrow> string" where
  "after_word l = tl (dropWhile (\<lambda>c. c \<noteq> CHR '' '') l)"

type_synonym reg_outline = "(string \<times> string list) list"

definition outline_line :: "reg_outline \<Rightarrow> string \<Rightarrow> reg_outline" where
  "outline_line rs l =
     (if l = [] then rs
      else if field_line l then butlast rs @ [(fst (last rs), snd (last rs) @ [after_word (drop 2 l)])]
      else rs @ [(after_word l, [])])"

definition outline :: "string list \<Rightarrow> reg_outline" where
  "outline ls = foldl outline_line [] ls"

definition names_of :: "Reg list \<Rightarrow> reg_outline" where
  "names_of rs = map (\<lambda>r. (rName r, map fName (Fields r))) rs"

lemma Join_after_word:
  assumes "2 \<le> length (Split (CHR '' '') l)"
  shows "Join (CHR '' '') (tl (Split (CHR '' '') l)) = after_word l"
proof -
  obtain p q ps where s: "Split (CHR '' '') l = p # q # ps"
    using assms by (cases "Split (CHR '' '') l"; cases "tl (Split (CHR '' '') l)") auto
  have "l = p @ CHR '' '' # Join (CHR '' '') (q # ps)" using Join_Split [of "CHR '' ''" l] s by simp
  moreover have "CHR '' '' \<notin> set p" using Split_no_sep [of p "CHR '' ''" l] s by simp
  then have "dropWhile (\<lambda>c. c \<noteq> CHR '' '') (p @ CHR '' '' # t) = CHR '' '' # t" for t
    by (subst dropWhile_append2) auto
  ultimately show ?thesis by (metis s after_word_def list.sel(3))
qed

lemma ParseField_name:
  assumes "ParseField i r toks = Inr r'"
  shows "2 \<le> length toks \<and> rName r' = rName r \<and> map fName (Fields r') = map fName (Fields r) @ [Join (CHR '' '') (tl toks)]"
  using assms by (auto simp: ParseField_def Let_def split: if_splits prod.splits list.splits)

lemma ParseLine_outline:
  assumes "ParseLine rs l = Inr rs'"
  shows "names_of rs' = outline_line (names_of rs) l"
proof (cases "l = []")
  case True
  then show ?thesis using assms by (simp add: ParseLine_def outline_line_def)
next
  case False
  have t: "Split (CHR '' '') l ! 0 = [] \<and> Split (CHR '' '') l ! 1 = [] \<longleftrightarrow> field_line l"
    using Split_field(1) [OF False] by (simp add: field_line_def)
  show ?thesis
  proof (cases "field_line l")
    case True
    with assms False t obtain r where r: "rs \<noteq> []" "rs' = butlast rs @ [r]"
        "ParseField (length rs - 1) (last rs) (drop 2 (Split (CHR '' '') l)) = Inr r"
      by (auto simp: ParseLine_def Let_def split: if_splits sum.splits)
    note f = ParseField_name [OF r(3)]
    have "drop 2 (Split (CHR '' '') l) = Split (CHR '' '') (drop 2 l)"
      using True f by (cases l; cases "tl l") (auto simp: field_line_def)
    then have "Join (CHR '' '') (tl (drop 2 (Split (CHR '' '') l))) = after_word (drop 2 l)"
      using Join_after_word [of "drop 2 l"] f by simp
    then show ?thesis
      using f r(1,2) True False
      by (simp add: names_of_def outline_line_def map_butlast last_map del: drop_drop)
  next
    case no: False
    with assms False t obtain r where r: "rs' = rs @ [r]" "ParseReg (Split (CHR '' '') l) = Inr r"
      by (auto simp: ParseLine_def Let_def split: if_splits sum.splits)
    then have "2 \<le> length (Split (CHR '' '') l)" "rName r = Join (CHR '' '') (tl (Split (CHR '' '') l))" "Fields r = []"
      by (auto simp: ParseReg_def Let_def split: if_splits prod.splits)
    then show ?thesis using r(1) False no Join_after_word [of l] by (simp add: names_of_def outline_line_def)
  qed
qed

lemma ParseLines_outline:
  "ParseLines rs ls = Inr rs' \<Longrightarrow> names_of rs' = foldl outline_line (names_of rs) ls"
proof (induction rs ls rule: ParseLines.induct)
  case (2 rs l ls)
  then show ?case using ParseLine_outline [of rs l] by (auto split: sum.splits)
qed simp

text \<open>
  Property C34: what an accepted text gives. Every line that is not empty stands for a register or, when
  it is indented, for a field of the register above it, in order and under the name that follows
  its first word, and there is nothing else. Each register has a name and a signed 32-bit
  offset; each field has the index of the register it stands under as its parent, a name, and bits given by two
  signed bytes \<open>lo \<le> hi\<close>. If the low bit is not negative, the range stored is non-empty and
  below 128; a negative one is accepted too, and wraps to 128 and above.
\<close>

theorem ParseRegs_accepts:
  assumes "ParseRegs s = Inr rs"
  shows "names_of rs = outline (Split newline s) \<and>
     (\<forall>i < length rs. reg_ok i (rs ! i) \<and> (\<forall>f \<in> set (Fields (rs ! i)). FirstBit f < 128 \<longrightarrow>
        1 \<le> unat (NumBits f) \<and> unat (FirstBit f) + unat (NumBits f) \<le> 128))"
proof -
  have "regs_ok []" by (simp add: regs_ok_def)
  then have ok: "regs_ok rs"
    using assms ParseLines_ok Split_no_sep unfolding ParseRegs_def by blast
  have "bit_range f" if "i < length rs" "f \<in> set (Fields (rs ! i))" for i f
    using ok that by (auto simp: regs_ok_def reg_ok_def list_all_iff field_ok_def)
  moreover have "names_of rs = outline (Split newline s)"
    using ParseLines_outline [OF assms [unfolded ParseRegs_def]] by (simp add: outline_def names_of_def)
  ultimately show ?thesis using ok bit_range_small by (simp add: regs_ok_def)
qed

lemma ParseField_no_panic: "ParseField i r toks \<noteq> Inl (Panic m)"
  by (auto simp: ParseField_def field_fatal_def Let_def split: list.splits if_splits prod.splits)

lemma ParseReg_no_panic: "ParseReg toks \<noteq> Inl (Panic m)"
  by (auto simp: ParseReg_def Let_def split: if_splits prod.splits)

lemma ParseLine_panic:
  "ParseLine rs l = Inl (Panic m) \<longleftrightarrow>
     rs = [] \<and> l \<noteq> [] \<and> (l = '' '' \<or> take 2 l = ''  '') \<and> m = ''nil pointer dereference''"
proof (cases "l = []")
  case False
  define toks where "toks = Split (CHR '' '') l"
  define b where "b = (l = '' '' \<or> take 2 l = ''  '')"
  have t: "toks ! 0 = [] \<and> toks ! 1 = [] \<longleftrightarrow> b" "toks ! 0 = [] \<Longrightarrow> \<not> length toks < 2"
    using Split_field [OF False] by (auto simp: toks_def b_def)
  have "ParseLine rs l = (if b
      then (if rs = [] then Inl (Panic ''nil pointer dereference'')
            else case ParseField (length rs - 1) (last rs) (drop 2 toks) of
                Inl e \<Rightarrow> Inl e | Inr r \<Rightarrow> Inr (butlast rs @ [r]))
      else case ParseReg toks of Inl e \<Rightarrow> Inl e | Inr r \<Rightarrow> Inr (rs @ [r]))"
    unfolding ParseLine_def Let_def toks_def [symmetric] using False t by auto
  then show ?thesis
    using False unfolding b_def [symmetric]
    by (auto simp: ParseField_no_panic ParseReg_no_panic split: sum.splits)
qed (simp add: ParseLine_def)

lemma ParseLine_grows: "ParseLine rs l = Inr rs' \<Longrightarrow> l \<noteq> [] \<Longrightarrow> rs' \<noteq> []"
  by (auto simp: ParseLine_def Let_def split: if_splits sum.splits)

lemma ParseLines_no_panic: "rs \<noteq> [] \<Longrightarrow> ParseLines rs ls \<noteq> Inl (Panic m)"
proof (induction rs ls rule: ParseLines.induct)
  case (2 rs l ls)
  have "rs' \<noteq> []" if "ParseLine rs l = Inr rs'" for rs'
    using that 2(2) ParseLine_grows [OF that] by (cases "l = []") (auto simp: ParseLine_def)
  then show ?case using 2 ParseLine_panic [of rs l m] by (auto split: sum.splits)
qed simp

lemma ParseLines_panic: "(\<exists>m. ParseLines [] ls = Inl (Panic m)) \<longleftrightarrow> field_first ls"
proof (induction ls)
  case (Cons l ls)
  show ?case
  proof (cases "l = []")
    case True
    then show ?thesis using Cons by (simp add: ParseLine_def field_first_def)
  next
    case False
    then have first: "field_first (l # ls) \<longleftrightarrow> (l = '' '' \<or> take 2 l = ''  '')"
      by (simp add: field_first_def)
    show ?thesis
    proof (cases "ParseLine [] l")
      case (Inl e)
      then show ?thesis using ParseLine_panic [of "[]" l] False first by auto
    next
      case (Inr rs)
      then have "\<not> field_first (l # ls)" using ParseLine_panic [of "[]" l] False first by auto
      moreover have "rs \<noteq> []" using Inr False by (rule ParseLine_grows)
      ultimately show ?thesis using Inr ParseLines_no_panic [of rs ls] by simp
    qed
  qed
qed (simp add: field_first_def)

text \<open>
  Property C38: the parser panics exactly on the texts whose first non-empty line is a field line
  (the register is nil there); in particular no text makes it index past the end of a line's
  tokens.
\<close>

theorem ParseRegs_panics: "(\<exists>m. ParseRegs s = Inl (Panic m)) \<longleftrightarrow> field_first (Split newline s)"
  unfolding ParseRegs_def by (rule ParseLines_panic)

section \<open>The SPI table\<close>

definition spi_table :: "Reg list" where
  "spi_table =
    [\<lparr>rName = ''CEType'', Off = 0, Fields =
       [\<lparr>Parent = 0, fName = ''CE write type'', FirstBit = 16, NumBits = 1\<rparr>,
        \<lparr>Parent = 0, fName = ''CE Flash type (2 == spiflash)'', FirstBit = 0, NumBits = 2\<rparr>]\<rparr>,
     \<lparr>rName = ''CeCtl'', Off = 4, Fields =
       [\<lparr>Parent = 1, fName = ''Ce0Div2'', FirstBit = 8, NumBits = 1\<rparr>,
        \<lparr>Parent = 1, fName = ''Ce0Addr4B'', FirstBit = 0, NumBits = 1\<rparr>]\<rparr>,
     \<lparr>rName = ''Ce0Ctl'', Off = 16, Fields =
       [\<lparr>Parent = 2, fName = ''IO mode'', FirstBit = 28, NumBits = 3\<rparr>,
        \<lparr>Parent = 2, fName = ''Cmd'', FirstBit = 16, NumBits = 8\<rparr>,
        \<lparr>Parent = 2, fName = ''dummy cycles bit2'', FirstBit = 15, NumBits = 1\<rparr>,
        \<lparr>Parent = 2, fName = ''CmdMerge'', FirstBit = 12, NumBits = 1\<rparr>,
        \<lparr>Parent = 2, fName = ''ClkSpeed (0 == HCLK/16, 15 = HCLK)'', FirstBit = 8, NumBits = 4\<rparr>,
        \<lparr>Parent = 2, fName = ''dummy cycles bit1:0'', FirstBit = 6, NumBits = 2\<rparr>,
        \<lparr>Parent = 2, fName = ''Msbit-Lsbit order'', FirstBit = 5, NumBits = 1\<rparr>,
        \<lparr>Parent = 2, fName = ''DualInput'', FirstBit = 3, NumBits = 1\<rparr>,
        \<lparr>Parent = 2, fName = ''CeStopActive'', FirstBit = 2, NumBits = 1\<rparr>,
        \<lparr>Parent = 2, fName = ''CmdMode'', FirstBit = 0, NumBits = 2\<rparr>]\<rparr>,
     \<lparr>rName = ''DataInputDelay'', Off = 0x94, Fields = []\<rparr>]"

lemma Split_spiReg: "Split newline spiReg = spiReg_lines"
  unfolding spiReg_def by (rule Split_Join) (auto simp: spiReg_lines_def)

lemmas parse_eval = ParseLine_def ParseField_def ParseReg_def ParseInt_def ParseUint_def
  underscoreOK_def lower_def digit_val_def

lemma spiReg_parses: "ParseRegs spiReg = Inr spi_table"
  unfolding ParseRegs_def Split_spiReg spiReg_lines_def spi_table_def
  by (simp add: parse_eval)

text \<open>The fields of a register are listed from the top bit down, do not overlap and fit 32 bits.\<close>

definition fields_disjoint :: "RegField list \<Rightarrow> bool" where
  "fields_disjoint fs \<longleftrightarrow>
     sorted_wrt (\<lambda>f g. unat (FirstBit g) + unat (NumBits g) \<le> unat (FirstBit f)) fs \<and>
     list_all (\<lambda>f. 0 < unat (NumBits f) \<and> unat (FirstBit f) + unat (NumBits f) \<le> 32) fs"

lemma spi_table_wf: "wf_regs spi_table"
proof -
  have "list_all (\<lambda>(i, r). wf_reg i r) (zip [0..<4] spi_table)"
    by (simp add: spi_table_def wf_reg_def wf_field_def plain_name_def upt_rec)
  moreover have "length spi_table = 4" by (simp add: spi_table_def)
  ultimately show ?thesis unfolding wf_regs_def list_all_length by simp
qed

text \<open>
  The initialisation of the package's SPI table succeeds and gives the four
  registers of the controller, at word offsets inside the 4096 bytes mapped for it, with
  disjoint fields of the 32-bit registers.
\<close>

lemma spiRegs_value:
  "spiRegs = Inr spi_table \<and>
   list_all (\<lambda>r. 0 \<le> Off r \<and> Off r + 4 \<le> 4096 \<and> 4 dvd Off r \<and> fields_disjoint (Fields r)) spi_table"
  by (simp add: spiRegs_def spiReg_parses) (simp add: spi_table_def fields_disjoint_def)

theorem ParseRegs_roundtrip_witness:
  "wf_regs spi_table \<and>
   ParseRegs (Join newline (concat (map print_reg spi_table))) = Inr spi_table"
  using ParseRegs_roundtrip [OF spi_table_wf] spi_table_wf by simp

theorem ParseRegs_accepts_witness:
  "ParseRegs spiReg = Inr spi_table \<and> names_of spi_table = outline (Split newline spiReg) \<and> reg_ok 3 (spi_table ! 3)"
proof -
  have "3 < length spi_table" by (simp add: spi_table_def)
  with ParseRegs_accepts [OF spiReg_parses] spiReg_parses show ?thesis by blast
qed

text \<open>A negative bit number, accepted as bit 255.\<close>

lemma negative_bit_accepted:
  "ParseRegs ''0 r\<newline>  -1 foo'' = Inr [\<lparr>rName = ''r'', Off = 0,
     Fields = [\<lparr>Parent = 0, fName = ''foo'', FirstBit = 255, NumBits = 1\<rparr>]\<rparr>]"
  by code_simp

end
