(* ===== verification/Pmem.thy ===== *)
theory Pmem
  imports GoIO
begin

text \<open>
  Package \<open>pmem\<close> (pmem/map.go, pmem/file.go, pmem/pmem_gospecial.go): regions of physical
  memory, reached through a mapping (\<open>MemRegion\<close>) or by \<open>pread\<close> and \<open>pwrite\<close> (\<open>FileRegion\<close>),
  and the tables that cache mappings and file handles.

  The locale \<open>ram_region\<close> is the contract of the interface \<open>pmem.Region\<close> on plain memory: what
  its four methods do to the bytes behind the region. Both implementations are proved to meet
  it on a machine whose memory device is plain memory.
\<close>

section \<open>Memory mappings: pmem/pmem\_gospecial.go\<close>

text \<open>
  \<open>&m.mem[off]\<close> checks the index of the first byte against the slice and panics outside it;
  the access itself then goes through an unsafe pointer.
\<close>

definition mem_index :: "iomapping \<Rightarrow> int \<Rightarrow> unit io" where
  "mem_index m off = (if 0 \<le> off \<and> off < mapLen m then Ret ()
     else Fail (Panic ''index out of range''))"

definition MemRegion_Read32 :: "iomapping \<Rightarrow> int \<Rightarrow> u32 io" where
  "MemRegion_Read32 m off = seq (mem_index m off) (load32 m off)"

definition MemRegion_Read8 :: "iomapping \<Rightarrow> int \<Rightarrow> u8 io" where
  "MemRegion_Read8 m off = seq (mem_index m off) (load8 m off)"

definition MemRegion_Write32 :: "iomapping \<Rightarrow> int \<Rightarrow> u32 \<Rightarrow> unit io" where
  "MemRegion_Write32 m off v = seq (mem_index m off) (store32 m off v)"

definition MemRegion_Write8 :: "iomapping \<Rightarrow> int \<Rightarrow> u8 \<Rightarrow> unit io" where
  "MemRegion_Write8 m off v = seq (mem_index m off) (store8 m off v)"

section \<open>Files: pmem/file.go\<close>

definition FileRegion_Read32 :: "bool \<Rightarrow> int \<Rightarrow> int \<Rightarrow> u32 io" where
  "FileRegion_Read32 fd base off =
     bind (pread fd (i64 (off + base)) 4) (\<lambda>(b, err).
       if err \<or> length b \<noteq> 4 then Fail (Fatal ''ReadAt'' [])
       else (case get32 b of Some v \<Rightarrow> Ret v | None \<Rightarrow> Fail (Panic ''index out of range'')))"

definition FileRegion_Read8 :: "bool \<Rightarrow> int \<Rightarrow> int \<Rightarrow> u8 io" where
  "FileRegion_Read8 fd base off =
     bind (pread fd (i64 (off + base)) 1) (\<lambda>(b, err).
       if err \<or> length b \<noteq> 1 then Fail (Fatal ''ReadAt'' [])
       else (case b of v # _ \<Rightarrow> Ret v | [] \<Rightarrow> Fail (Panic ''index out of range'')))"

definition FileRegion_Write32 :: "bool \<Rightarrow> int \<Rightarrow> int \<Rightarrow> u32 \<Rightarrow> unit io" where
  "FileRegion_Write32 fd base off v =
     bind (pwrite fd (i64 (off + base)) (put32 v)) (\<lambda>(n, err).
       if err \<or> n \<noteq> 4 then Fail (Fatal ''WriteAt'' []) else Ret ())"

definition FileRegion_Write8 :: "bool \<Rightarrow> int \<Rightarrow> int \<Rightarrow> u8 \<Rightarrow> unit io" where
  "FileRegion_Write8 fd base off v =
     bind (pwrite fd (i64 (off + base)) [v]) (\<lambda>(n, err).
       if err \<or> n \<noteq> 1 then Fail (Fatal ''WriteAt'' []) else Ret ())"

section \<open>Method dispatch of the two types\<close>

fun pmem_method :: "unit methods" where
  "pmem_method (Rd32 (MemRegion _ m) off) st = bind (MemRegion_Read32 m off) (\<lambda>v. Ret (RU32 v, st))"
| "pmem_method (Rd8 (MemRegion _ m) off) st = bind (MemRegion_Read8 m off) (\<lambda>v. Ret (RU8 v, st))"
| "pmem_method (Wr32 (MemRegion _ m) off v) st = seq (MemRegion_Write32 m off v) (Ret (RUnit, st))"
| "pmem_method (Wr8 (MemRegion _ m) off v) st = seq (MemRegion_Write8 m off v) (Ret (RUnit, st))"
| "pmem_method (Rd32 (FileRegion _ f b) off) st = bind (FileRegion_Read32 f b off) (\<lambda>v. Ret (RU32 v, st))"
| "pmem_method (Rd8 (FileRegion _ f b) off) st = bind (FileRegion_Read8 f b off) (\<lambda>v. Ret (RU8 v, st))"
| "pmem_method (Wr32 (FileRegion _ f b) off v) st = seq (FileRegion_Write32 f b off v) (Ret (RUnit, st))"
| "pmem_method (Wr8 (FileRegion _ f b) off v) st = seq (FileRegion_Write8 f b off v) (Ret (RUnit, st))"
| "pmem_method q st = perform q st"

section \<open>The tables of mappings and handles: pmem/map.go\<close>

text \<open>\<open>memRW\<close> and \<open>memRO\<close> are nil until the device has been opened that way.\<close>

record pmem_state =
  hwMaps :: "iomapping \<rightharpoonup> region"
  memRW :: bool
  memRO :: bool

definition pmem_init :: pmem_state where
  "pmem_init = \<lparr>hwMaps = Map.empty, memRW = False, memRO = False\<rparr>"

text \<open>\<open>PROT_READ\<close> is 1 and \<open>PROT_WRITE\<close> is 2; the handle is named by its mode.\<close>

definition getFile :: "config \<Rightarrow> bool \<Rightarrow> pmem_state \<Rightarrow> ((bool \<times> int) \<times> pmem_state) io" where
  "getFile cfg write st =
     (let prot = (if write then 3 else 1);
          have = (if write then memRW st else memRO st);
          st' = (if write then st\<lparr>memRW := True\<rparr> else st\<lparr>memRO := True\<rparr>)
      in if have then Ret ((write, prot), st)
         else bind (open_dev (DevName cfg) write) (\<lambda>ok.
           if ok then Ret ((write, prot), st')
           else Fail (Fatal ''%s:%s'' [AS (DevName cfg)])))"

definition memHandle :: "config \<Rightarrow> iomapping \<Rightarrow> pmem_state \<Rightarrow> (iomapping \<times> pmem_state) io" where
  "memHandle cfg m st =
     bind (getFile cfg (mapWrite m) st) (\<lambda>((f, prot), st').
       bind (mmap f m prot) (\<lambda>ok.
         if ok then Ret (m, st') else Fail (Fatal ''mmap'' [])))"

definition round_len :: "int \<Rightarrow> int" where
  "round_len ioLen = page_round (if ioLen = 0 then 4096 else ioLen)"

definition Map :: "config \<Rightarrow> string \<Rightarrow> int \<Rightarrow> bool \<Rightarrow> int \<Rightarrow> pmem_state
    \<Rightarrow> (region \<times> pmem_state) io" where
  "Map cfg name hwaddr write ioLen st =
     (let m = \<lparr>hwAddr = hwaddr, mapLen = round_len ioLen, mapWrite = write\<rparr>
      in case hwMaps st m of
           Some r \<Rightarrow> Ret (r, st)
         | None \<Rightarrow> bind (memHandle cfg m st) (\<lambda>(mem, st').
             (let r = MemRegion name mem
              in Ret (r, st'\<lparr>hwMaps := (hwMaps st')(m \<mapsto> r)\<rparr>))))"

definition FileMap :: "config \<Rightarrow> string \<Rightarrow> int \<Rightarrow> bool \<Rightarrow> int \<Rightarrow> pmem_state
    \<Rightarrow> (region \<times> pmem_state) io" where
  "FileMap cfg name hwaddr write ioLen st =
     bind (getFile cfg write st) (\<lambda>((f, prot), st'). Ret (FileRegion name f hwaddr, st'))"


section \<open>The methods answer\<close>

lemma pmem_method_answers: "well_answering pmem_method"
  unfolding well_answering_def
proof (intro allI impI)
  fix q st tr y
  assume "runs (pmem_method q st) tr (Done y)"
  then show "fits q (fst y)"
    by (cases "(q, st)" rule: pmem_method.cases)
      (auto simp: runs_bind perform_def)
qed

lemmas pmem_exec_elab = exec_elab [OF well_answering_exec [OF pmem_method_answers]]

text \<open>
  The unchecked part of a mapped access: a 32-bit access whose first byte is in the slice is
  performed, also when its last byte is not; an access whose first byte is outside panics
  without touching memory.
\<close>

lemma MemRegion_Read32_runs:
  "runs (MemRegion_Read32 m off) tr out \<longleftrightarrow>
     (if 0 \<le> off \<and> off < mapLen m
      then (\<exists>v. tr = [(Load32 m off, RU32 v)] \<and> out = Done v)
      else tr = [] \<and> out = Failed (Panic ''index out of range''))"
  by (auto simp: MemRegion_Read32_def mem_index_def)

section \<open>The tables\<close>

text \<open>
  Every cached region aliases the mapping it is cached under, and a mapping exists only when
  the device is open in its mode.
\<close>

definition pmem_inv :: "pmem_state \<Rightarrow> bool" where
  "pmem_inv st \<longleftrightarrow> (\<forall>m r. hwMaps st m = Some r \<longrightarrow>
     (\<exists>name. r = MemRegion name m) \<and> (if mapWrite m then memRW st else memRO st))"

lemma pmem_inv_init: "pmem_inv pmem_init"
  by (simp add: pmem_inv_def pmem_init_def)

definition opened :: "bool \<Rightarrow> pmem_state \<Rightarrow> bool" where
  "opened w st = (if w then memRW st else memRO st)"

lemma getFile_runs:
  "runs (getFile cfg w st) tr (Done y) \<longleftrightarrow>
     (\<exists>st'. y = ((w, if w then 3 else 1), st')
       \<and> (if opened w st then tr = [] \<and> st' = st
          else tr = [(OpenDev (DevName cfg) w, ROk)]
            \<and> st' = (if w then st\<lparr>memRW := True\<rparr> else st\<lparr>memRO := True\<rparr>)))"
  by (auto simp: getFile_def opened_def Let_def)

lemma getFile_opens:
  "runs (getFile cfg w st) tr (Done (p, st')) \<Longrightarrow>
     opened w st' \<and> hwMaps st' = hwMaps st \<and> (\<forall>w'. opened w' st \<longrightarrow> opened w' st')"
  by (auto simp: getFile_runs opened_def split: if_splits)

lemma memHandle_runs:
  "runs (memHandle cfg m st) tr (Done (mem, st')) \<longleftrightarrow>
     (\<exists>tr1 prot. runs (getFile cfg (mapWrite m) st) tr1 (Done ((mapWrite m, prot), st'))
        \<and> tr = tr1 @ [(Mmap (mapWrite m) m prot, ROk)] \<and> mem = m)"
  by (auto simp: memHandle_def runs_bind [of "getFile cfg (mapWrite m) st"] getFile_runs split: if_splits)

lemma Map_runs:
  "runs (Map cfg name a w n st) tr (Done (r, st')) \<Longrightarrow>
     (hwMaps st \<lparr>hwAddr = a, mapLen = round_len n, mapWrite = w\<rparr> = Some r \<and> st' = st \<and> tr = []) \<or>
     (hwMaps st \<lparr>hwAddr = a, mapLen = round_len n, mapWrite = w\<rparr> = None
       \<and> r = MemRegion name \<lparr>hwAddr = a, mapLen = round_len n, mapWrite = w\<rparr>
       \<and> (\<exists>st1. runs (memHandle cfg \<lparr>hwAddr = a, mapLen = round_len n, mapWrite = w\<rparr> st) tr
              (Done (\<lparr>hwAddr = a, mapLen = round_len n, mapWrite = w\<rparr>, st1))
            \<and> st' = st1\<lparr>hwMaps := (hwMaps st1)(\<lparr>hwAddr = a, mapLen = round_len n, mapWrite = w\<rparr> \<mapsto> r)\<rparr>))"
  by (auto simp: Map_def Let_def runs_bind memHandle_runs split: option.splits)

lemma Map_inv: "pmem_inv st \<Longrightarrow> runs (Map cfg name a w n st) tr (Done (r, st')) \<Longrightarrow> pmem_inv st'"
proof -
  assume inv: "pmem_inv st" and "runs (Map cfg name a w n st) tr (Done (r, st'))"
  then show "pmem_inv st'"
    unfolding pmem_inv_def
    by (fastforce dest!: Map_runs getFile_opens simp: memHandle_runs opened_def split: if_splits)
qed

lemma Map_cached:
  assumes "runs (Map cfg name a w n st) tr (Done (r, st'))"
  shows "hwMaps st' \<lparr>hwAddr = a, mapLen = round_len n, mapWrite = w\<rparr> = Some r"
  using Map_runs [OF assms] by auto

section \<open>Plain memory\<close>

text \<open>The bytes of a memory, and the little-endian word at an address.\<close>

definition bytes_at :: "(int \<Rightarrow> u8) \<Rightarrow> int \<Rightarrow> nat \<Rightarrow> u8 list" where
  "bytes_at s a n = map (\<lambda>i. s (a + int i)) [0..<n]"

definition put_bytes :: "(int \<Rightarrow> u8) \<Rightarrow> int \<Rightarrow> u8 list \<Rightarrow> int \<Rightarrow> u8" where
  "put_bytes s a bs = (\<lambda>x. if a \<le> x \<and> x < a + int (length bs) then bs ! nat (x - a) else s x)"

definition word_at :: "(int \<Rightarrow> u8) \<Rightarrow> int \<Rightarrow> u32" where
  "word_at s a = the (get32 (bytes_at s a 4))"

lemma length_bytes_at [simp]: "length (bytes_at s a n) = n"
  by (simp add: bytes_at_def)

lemma put32_word_at: "put32 (word_at s a) = bytes_at s a 4"
proof -
  obtain w where w: "get32 (bytes_at s a 4) = Some w"
    using le32.dec_total [of "bytes_at s a 4"] by auto
  then have "put32 w = take 4 (bytes_at s a 4)" by (rule le32.enc_dec)
  with w show ?thesis by (simp add: word_at_def)
qed

lemma get32_bytes_at: "get32 (bytes_at s a 4) = Some (word_at s a)"
  using le32.dec_enc_id [of "word_at s a"] by (simp add: put32_word_at)

lemma bytes_at_put_same: "bytes_at (put_bytes s a bs) a (length bs) = bs"
  by (rule nth_equalityI) (auto simp: bytes_at_def put_bytes_def)

lemma bytes_at_put_other:
  "b + int n \<le> a \<or> a + int (length bs) \<le> b \<Longrightarrow> bytes_at (put_bytes s a bs) b n = bytes_at s b n"
  by (auto simp: bytes_at_def put_bytes_def)

lemma bytes_at_append: "bytes_at s a (m + n) = bytes_at s a m @ bytes_at s (a + int m) n"
proof (rule nth_equalityI)
  fix i assume "i < length (bytes_at s a (m + n))"
  then show "bytes_at s a (m + n) ! i = (bytes_at s a m @ bytes_at s (a + int m) n) ! i"
    by (cases "i < m") (auto simp: bytes_at_def nth_append algebra_simps)
qed simp

lemma put_bytes_append:
  "put_bytes (put_bytes s a xs) (a + int (length xs)) ys = put_bytes s a (xs @ ys)"
proof
  fix x
  have "nat (x - a) - length xs = nat (x - (a + int (length xs)))"
    if "a + int (length xs) \<le> x"
    using that by linarith
  then show "put_bytes (put_bytes s a xs) (a + int (length xs)) ys x = put_bytes s a (xs @ ys) x"
    by (auto simp: put_bytes_def nth_append)
qed

lemma word_at_put: "word_at (put_bytes s a (put32 v)) a = v"
proof -
  have "bytes_at (put_bytes s a (put32 v)) a 4 = put32 v"
    using bytes_at_put_same [of s a "put32 v"] by (simp add: le32.length_enc)
  then show ?thesis by (simp add: word_at_def le32.dec_enc_id)
qed

text \<open>
  The memory device as plain memory: loads and stores in a mapping, and \<open>pread\<close>/\<open>pwrite\<close>,
  reach the same bytes. A file offset below zero is an error.
\<close>

fun ram :: "(int \<Rightarrow> u8) handler" where
  "ram (Load32 m off) s = (Inr (RU32 (word_at s (hwAddr m + off))), s)"
| "ram (Load8 m off) s = (Inr (RU8 (s (hwAddr m + off))), s)"
| "ram (Store32 m off v) s = (Inr RUnit, put_bytes s (hwAddr m + off) (put32 v))"
| "ram (Store8 m off v) s = (Inr RUnit, put_bytes s (hwAddr m + off) [v])"
| "ram (PRead f a n) s =
     (Inr (if a < 0 then RBytes [] True else RBytes (bytes_at s a n) False), s)"
| "ram (PWrite f a bs) s =
     (if a < 0 then (Inr (RCount 0 True), s)
      else (Inr (RCount (length bs) False), put_bytes s a bs))"
| "ram (OpenDev d w) s = (Inr (ROk), s)"
| "ram (Mmap f m p) s = (Inr (ROk), s)"
| "ram Now s = (Inr (RInt 0), s)"
| "ram q s = (Inr RUnit, s)"

section \<open>The contract of a region of plain memory\<close>

text \<open>
  \<open>cell s i\<close> is the byte at offset \<open>i\<close> of the region \<open>r\<close> in state \<open>s\<close>, and \<open>size\<close> bounds
  the offsets that may be used.
\<close>

locale ram_region =
  fixes h :: "'s handler" and r :: region and cell :: "'s \<Rightarrow> int \<Rightarrow> u8" and size :: int
  assumes rd32: "0 \<le> off \<Longrightarrow> off + 4 \<le> size \<Longrightarrow>
      h (Rd32 r off) s = (Inr (RU32 (word_at (cell s) off)), s)"
    and rd8: "0 \<le> off \<Longrightarrow> off + 1 \<le> size \<Longrightarrow> h (Rd8 r off) s = (Inr (RU8 (cell s off)), s)"
    and wr32: "0 \<le> off \<Longrightarrow> off + 4 \<le> size \<Longrightarrow>
      \<exists>s'. h (Wr32 r off v) s = (Inr RUnit, s') \<and> cell s' = put_bytes (cell s) off (put32 v)"
    and wr8: "0 \<le> off \<Longrightarrow> off + 1 \<le> size \<Longrightarrow>
      \<exists>s'. h (Wr8 r off b) s = (Inr RUnit, s') \<and> cell s' = put_bytes (cell s) off [b]"
begin

lemma exec_read32:
  "0 \<le> off \<Longrightarrow> off + 4 \<le> size \<Longrightarrow> exec h (read32 r off) s = (Done (word_at (cell s) off), s)"
  by (simp add: read32_def rd32)

lemma exec_read8:
  "0 \<le> off \<Longrightarrow> off + 1 \<le> size \<Longrightarrow> exec h (read8 r off) s = (Done (cell s off), s)"
  by (simp add: read8_def rd8)

lemma exec_write32:
  assumes "0 \<le> off" "off + 4 \<le> size"
  shows "\<exists>s'. exec h (write32 r off v) s = (Done (), s') \<and> cell s' = put_bytes (cell s) off (put32 v)"
  using wr32 [OF assms] by (force simp: write32_def)

text \<open>A 32-bit write followed by a read of the same offset, and by a read elsewhere.\<close>

lemma write_read_same:
  assumes "0 \<le> off" "off + 4 \<le> size"
  shows "fst (exec h (seq (write32 r off v) (read32 r off)) s) = Done v"
proof -
  obtain s' where "exec h (write32 r off v) s = (Done (), s')"
      "cell s' = put_bytes (cell s) off (put32 v)"
    using exec_write32 [OF assms] by blast
  then show ?thesis
    by (simp add: exec_bind exec_read32 [OF assms] word_at_put)
qed

lemma write_read_other:
  assumes "0 \<le> off" "off + 4 \<le> size" "0 \<le> off'" "off' + 4 \<le> size"
    and apart: "off' + 4 \<le> off \<or> off + 4 \<le> off'"
  shows "fst (exec h (seq (write32 r off v) (read32 r off')) s) = fst (exec h (read32 r off') s)"
proof -
  obtain s' where s': "exec h (write32 r off v) s = (Done (), s')"
      "cell s' = put_bytes (cell s) off (put32 v)"
    using exec_write32 [OF assms(1,2)] by blast
  have "bytes_at (cell s') off' 4 = bytes_at (cell s) off' 4"
    using apart s'(2) by (auto simp: le32.length_enc intro!: bytes_at_put_other)
  then show ?thesis
    using s' by (simp add: exec_bind exec_read32 assms word_at_def)
qed

end

text \<open>A mapping meets the contract: its cells are the bytes from \<open>hwAddr\<close> on.\<close>

lemma bytes_at_shift: "bytes_at (\<lambda>i. s (a + i)) off n = bytes_at s (a + off) n"
  by (simp add: bytes_at_def add.assoc)

lemma word_at_shift: "word_at (\<lambda>i. s (a + i)) off = word_at s (a + off)"
  by (simp add: word_at_def bytes_at_shift)

lemma put_bytes_shift:
  "(\<lambda>i. put_bytes s (a + off) bs (a + i)) = put_bytes (\<lambda>i. s (a + i)) off bs"
  by (auto simp: put_bytes_def fun_eq_iff)

interpretation mapped: ram_region "under ram pmem_method" "MemRegion n m"
    "\<lambda>st i. fst st (hwAddr m + i)" "mapLen m" for n m
  by unfold_locales
    (auto simp: under_def exec_bind MemRegion_Read32_def MemRegion_Read8_def
      MemRegion_Write32_def MemRegion_Write8_def mem_index_def io_defs
      word_at_shift put_bytes_shift)

text \<open>So does a file region whose offsets stay within \<open>int64\<close>.\<close>

definition file_span :: "int \<Rightarrow> int" where
  "file_span base = (if 0 \<le> base then 2 ^ 63 - base else 0)"

interpretation filed: ram_region "under ram pmem_method" "FileRegion n f base"
    "\<lambda>st i. fst st (base + i)" "file_span base" for n f base
proof unfold_locales
  have id: "i64 (off + base) = base + off" "0 \<le> base"
    if "0 \<le> off" "off + 1 \<le> file_span base" for off
    using that by (auto simp: file_span_def add.commute split: if_splits)
  fix off s and v :: u32 and b :: u8
  show "under ram pmem_method (Rd32 (FileRegion n f base) off) s =
      (Inr (RU32 (word_at (\<lambda>i. fst s (base + i)) off)), s)"
    if "0 \<le> off" "off + 4 \<le> file_span base"
    using that id [of off]
    by (cases s) (simp add: under_def exec_bind FileRegion_Read32_def io_defs get32_bytes_at
      word_at_shift)
  show "under ram pmem_method (Rd8 (FileRegion n f base) off) s = (Inr (RU8 (fst s (base + off))), s)"
    if "0 \<le> off" "off + 1 \<le> file_span base"
    using that id [of off]
    by (cases s) (simp add: under_def exec_bind FileRegion_Read8_def io_defs bytes_at_def)
  show "\<exists>s'. under ram pmem_method (Wr32 (FileRegion n f base) off v) s = (Inr RUnit, s') \<and>
      (\<lambda>i. fst s' (base + i)) = put_bytes (\<lambda>i. fst s (base + i)) off (put32 v)"
    if "0 \<le> off" "off + 4 \<le> file_span base"
    using that id [of off]
    by (cases s) (auto simp: under_def exec_bind FileRegion_Write32_def io_defs le32.length_enc
      put_bytes_shift intro: exI [of _ False])
  show "\<exists>s'. under ram pmem_method (Wr8 (FileRegion n f base) off b) s = (Inr RUnit, s') \<and>
      (\<lambda>i. fst s' (base + i)) = put_bytes (\<lambda>i. fst s (base + i)) off [b]"
    if "0 \<le> off" "off + 1 \<le> file_span base"
    using that id [of off]
    by (cases s) (simp add: under_def exec_bind FileRegion_Write8_def io_defs put_bytes_shift)
qed

section \<open>Mapping and caching\<close>

definition map_key :: "int \<Rightarrow> bool \<Rightarrow> int \<Rightarrow> iomapping" where
  "map_key a w n = \<lparr>hwAddr = a, mapLen = round_len n, mapWrite = w\<rparr>"

lemma Map_result:
  assumes "pmem_inv st" "runs (Map cfg name a w n st) tr (Done (r, st'))"
  shows "\<exists>nm. r = MemRegion nm (map_key a w n)"
  using assms Map_runs [OF assms(2)] unfolding pmem_inv_def map_key_def by blast

lemma Map_ops:
  assumes "runs (Map cfg name a w n st) tr (Done (r, st'))"
  shows "ops tr \<in> {[], [Mmap w (map_key a w n) (if w then 3 else 1)],
    [OpenDev (DevName cfg) w, Mmap w (map_key a w n) (if w then 3 else 1)]}"
  using Map_runs [OF assms]
  by (auto simp: memHandle_runs getFile_runs map_key_def split: if_splits)

lemma round_len_bounds:
  assumes "0 \<le> n" "n < 2 ^ 62"
  shows "n \<le> round_len n \<and> 0 < round_len n \<and> round_len n mod 4096 = 0 \<and> round_len n < n + 4097"
proof (cases "n = 0")
  case True
  then show ?thesis by (simp add: round_len_def page_round_def i64_def)
next
  case False
  then show ?thesis
    using page_round_bounds [OF assms] assms by (simp add: round_len_def dvd_eq_mod_eq_0)
qed

text \<open>
  Property C33: \<open>pmem.Map\<close> keeps the table consistent and returns a region over the requested
  physical address, in the requested mode, at least as long as requested and a whole number of
  pages; it opens the memory device at most once, in that mode, and maps it at most once.
\<close>

theorem Map_maps:
  assumes "pmem_inv st" "0 \<le> n" "n < 2 ^ 62"
    and "runs (Map cfg name a w n st) tr (Done (r, st'))"
  shows "\<exists>nm m. r = MemRegion nm m \<and> hwAddr m = a \<and> mapWrite m = w \<and> n \<le> mapLen m
    \<and> mapLen m mod 4096 = 0 \<and> pmem_inv st' \<and> opened w st'
    \<and> ops tr \<in> {[], [Mmap w m (if w then 3 else 1)],
        [OpenDev (DevName cfg) w, Mmap w m (if w then 3 else 1)]}"
proof -
  obtain nm where r: "r = MemRegion nm (map_key a w n)"
    using Map_result [OF assms(1,4)] by blast
  have inv: "pmem_inv st'" using Map_inv [OF assms(1,4)] .
  moreover have "opened w st'"
    using inv Map_cached [OF assms(4)] by (force simp: pmem_inv_def opened_def)
  ultimately show ?thesis
    using r round_len_bounds [OF assms(2,3)] Map_ops [OF assms(4)]
    by (intro exI [of _ nm] exI [of _ "map_key a w n"]) (simp add: map_key_def)
qed

text \<open>
  Mapping the same range again, in the same mode and with any length that rounds
  to the same number of pages, does nothing to the machine and returns the same region (whose
  name is the one of the first call).
\<close>

lemma Map_again:
  assumes "runs (Map cfg name a w n st) tr (Done (r, st'))" "round_len n' = round_len n"
  shows "Map cfg name' a w n' st' = Ret (r, st')"
  using Map_cached [OF assms(1)] assms(2) by (simp add: Map_def)

section \<open>The two implementations are interchangeable\<close>

primrec rename :: "(op \<Rightarrow> op) \<Rightarrow> 'a io \<Rightarrow> 'a io" where
  "rename g (Ret x) = Ret x"
| "rename g (Fail e) = Fail e"
| "rename g (Op q k) = Op (g q) (\<lambda>x. rename g (k x))"

text \<open>The accesses to a mapping, redirected to a file region over the same memory.\<close>

fun as_file :: "op \<Rightarrow> op" where
  "as_file (Rd32 (MemRegion n m) off) = Rd32 (FileRegion n (mapWrite m) (hwAddr m)) off"
| "as_file (Rd8 (MemRegion n m) off) = Rd8 (FileRegion n (mapWrite m) (hwAddr m)) off"
| "as_file (Wr32 (MemRegion n m) off v) = Wr32 (FileRegion n (mapWrite m) (hwAddr m)) off v"
| "as_file (Wr8 (MemRegion n m) off v) = Wr8 (FileRegion n (mapWrite m) (hwAddr m)) off v"
| "as_file q = q"

fun inside :: "op \<Rightarrow> bool" where
  "inside (Rd32 (MemRegion n m) off) =
     (0 \<le> hwAddr m \<and> hwAddr m + mapLen m < 2 ^ 63 \<and> 0 \<le> off \<and> off + 4 \<le> mapLen m)"
| "inside (Wr32 (MemRegion n m) off v) =
     (0 \<le> hwAddr m \<and> hwAddr m + mapLen m < 2 ^ 63 \<and> 0 \<le> off \<and> off + 4 \<le> mapLen m)"
| "inside (Rd8 (MemRegion n m) off) =
     (0 \<le> hwAddr m \<and> hwAddr m + mapLen m < 2 ^ 63 \<and> 0 \<le> off \<and> off < mapLen m)"
| "inside (Wr8 (MemRegion n m) off v) =
     (0 \<le> hwAddr m \<and> hwAddr m + mapLen m < 2 ^ 63 \<and> 0 \<le> off \<and> off < mapLen m)"
| "inside q = (\<not> is_access q)"

lemma fits_as_file: "fits (as_file q) x = fits q x"
  by (cases q rule: as_file.cases) simp_all

lemma as_file_step:
  assumes "inside q"
  shows "under ram pmem_method (as_file q) s = under ram pmem_method q s"
proof (cases q rule: as_file.cases)
  case (1 n m off)
  then show ?thesis
    using assms mapped.rd32 [of off m n s]
      filed.rd32 [of off "hwAddr m" n "mapWrite m" s]
    by (simp add: file_span_def)
next
  case (2 n m off)
  then show ?thesis
    using assms mapped.rd8 [of off m n s] filed.rd8 [of off "hwAddr m" n "mapWrite m" s]
    by (simp add: file_span_def)
next
  case (3 n m off v)
  then show ?thesis
    using assms
    by (cases s) (simp add: under_def exec_bind FileRegion_Write32_def MemRegion_Write32_def
      mem_index_def io_defs le32.length_enc add.commute)
next
  case (4 n m off v)
  then show ?thesis
    using assms
    by (cases s) (simp add: under_def exec_bind FileRegion_Write8_def MemRegion_Write8_def
      mem_index_def io_defs add.commute)
qed simp_all

text \<open>
  Property C32: a program that stays inside its mappings behaves the same, in outcome and in
  what it leaves in memory, when its mappings are replaced by file regions over the same
  physical addresses: \<open>pread\<close> and \<open>pwrite\<close> on the memory device do what the mapping does.
\<close>

theorem file_regions_agree:
  assumes "safe inside p"
  shows "exec (under ram pmem_method) (rename as_file p) s = exec (under ram pmem_method) p s"
  using assms
proof (induction p arbitrary: s)
  case (Op q k)
  obtain x s' where x: "under ram pmem_method q s = (x, s')"
    by (cases "under ram pmem_method q s")
  then have "under ram pmem_method (as_file q) s = (x, s')"
    using Op.prems as_file_step by simp
  then show ?case
    using Op x by (cases x) (auto simp: fits_as_file)
qed auto

definition swap_words :: "region \<Rightarrow> unit io" where
  "swap_words r = bind (read32 r 0) (\<lambda>a. bind (read32 r 8) (\<lambda>b. seq (write32 r 0 b) (write32 r 8 a)))"

theorem file_regions_agree_witness:
  "safe inside (swap_words (MemRegion [] (map_key 0x1000 True 0))) \<and>
   exec (under ram pmem_method) (rename as_file (swap_words (MemRegion [] (map_key 0x1000 True 0))))
     (\<lambda>_. 0, ())
   = exec (under ram pmem_method) (swap_words (MemRegion [] (map_key 0x1000 True 0))) (\<lambda>_. 0, ())"
proof -
  have "safe inside (swap_words (MemRegion [] (map_key 0x1000 True 0)))"
    by (auto simp: swap_words_def io_defs map_key_def round_len_def page_round_def i64_def)
  then show ?thesis by (simp add: file_regions_agree)
qed

text \<open>Mapping the SCU of the BMC, for the witnesses.\<close>

definition scu_state :: pmem_state where
  "scu_state = \<lparr>hwMaps = [map_key 0x1E6E2000 True 4096 \<mapsto> MemRegion ''scu'' (map_key 0x1E6E2000 True 4096)],
     memRW = True, memRO = False\<rparr>"

lemma scu_mapped:
  "runs (Map plain_config ''scu'' 0x1E6E2000 True 4096 pmem_init)
     [(OpenDev ''/dev/mem'' True, ROk), (Mmap True (map_key 0x1E6E2000 True 4096) 3, ROk)]
     (Done (MemRegion ''scu'' (map_key 0x1E6E2000 True 4096), scu_state))"
  by (simp add: Map_def Let_def pmem_init_def memHandle_def getFile_def map_key_def scu_state_def
      plain_config_def)

theorem Map_maps_witness: "pmem_inv scu_state \<and> opened True scu_state"
  using Map_maps [OF pmem_inv_init _ _ scu_mapped] by auto

end
