(* ===== verification/P2A.thy ===== *)
theory P2A
  imports Pmem
begin

text \<open>
  The PCI-to-AHB bridge (ast/p2a.go): when the program runs on the host, every access to a
  register of the BMC goes through a 64 KiB window in BAR1 of the VGA device. \<open>setIndex\<close>
  selects the page of the window and caches it in \<open>p2aGlob.f004\<close>; the four methods of
  \<open>AstMem\<close> move an offset into the window.

  \<open>p2a_bridge\<close> states what the code relies on of the bridge hardware. The main lemma is a
  whole-program refinement: a program over \<open>AstMem\<close> regions, run through the bridge, does what
  it does on the flat address space of the BMC, because the cached page and the selected page
  never disagree.
\<close>

section \<open>The bridge handle\<close>

record p2aHandle =
  bar1 :: "region option"
  f004 :: u32

text \<open>The zero value of \<open>p2aGlob\<close>.\<close>

definition p2aGlob :: p2aHandle where
  "p2aGlob = \<lparr>bar1 = None, f004 = 0\<rparr>"

definition with_bar1 :: "p2aHandle \<Rightarrow> (region \<Rightarrow> 'a io) \<Rightarrow> 'a io" where
  "with_bar1 p f = (case bar1 p of
       Some b \<Rightarrow> f b
     | None \<Rightarrow> Fail (Panic ''nil pointer dereference''))"

definition page_of :: "int \<Rightarrow> u32" where
  "page_of offset = word_of_int offset AND 0xffff0000"

definition setIndex :: "p2aHandle \<Rightarrow> int \<Rightarrow> p2aHandle io" where
  "setIndex p offset =
     (let page = page_of offset
      in if f004 p \<noteq> page
         then with_bar1 p (\<lambda>b.
           seq (write32 b 0xf004 page)
             (seq (write32 b 0xf000 1)
               (Ret (p\<lparr>f004 := page\<rparr>))))
         else Ret p)"

section \<open>The methods of AstMem\<close>

definition AstMem_Read32 :: "config \<Rightarrow> int \<Rightarrow> int \<Rightarrow> int \<Rightarrow> p2aHandle \<Rightarrow> (u32 \<times> p2aHandle) io" where
  "AstMem_Read32 cfg start sz off p =
     (if sz \<le> off
      then seq (print ''offset=%#x, %#v'' [AI off, AI start, AI sz])
             (Fail (Panic ''out of bounds''))
      else let offset = i64 (off + start)
           in bind (setIndex p offset) (\<lambda>p.
             with_bar1 p (\<lambda>b.
               bind (read32 b (0x10000 + (offset AND 0xffff))) (\<lambda>rc.
                 seq (whenM (Debug cfg) (print ''ast[0x%08x] -> 0x%08x'' [AI offset, AW rc]))
                   (Ret (rc, p))))))"

definition AstMem_Read8 :: "config \<Rightarrow> int \<Rightarrow> int \<Rightarrow> int \<Rightarrow> p2aHandle \<Rightarrow> (u8 \<times> p2aHandle) io" where
  "AstMem_Read8 cfg start sz off p =
     (if sz \<le> off
      then seq (print ''offset=%#x, %#v'' [AI off, AI start, AI sz])
             (Fail (Panic ''out of bounds''))
      else let offset = i64 (off + start)
           in bind (setIndex p offset) (\<lambda>p.
             with_bar1 p (\<lambda>b.
               bind (read8 b (0x10000 + (offset AND 0xffff))) (\<lambda>rc.
                 seq (whenM (Debug cfg) (print ''ast[0x%08x] -> 0x%08x'' [AI offset, AW rc]))
                   (Ret (rc, p))))))"

definition AstMem_Write32 :: "config \<Rightarrow> int \<Rightarrow> int \<Rightarrow> int \<Rightarrow> u32 \<Rightarrow> p2aHandle \<Rightarrow> p2aHandle io" where
  "AstMem_Write32 cfg start sz off val p =
     (if sz \<le> off then Fail (Panic ''out of bounds'')
      else let offset = i64 (off + start)
           in seq (whenM (Debug cfg) (print ''ast[0x%08x] := 0x%08x'' [AI offset, AW val]))
             (bind (setIndex p offset) (\<lambda>p.
               with_bar1 p (\<lambda>b.
                 seq (whenM (\<not> NoWrite cfg) (write32 b (0x10000 + (offset AND 0xffff)) val))
                   (seq (read32 b 0x3cc) (Ret p))))))"

definition AstMem_Write8 :: "config \<Rightarrow> int \<Rightarrow> int \<Rightarrow> int \<Rightarrow> u8 \<Rightarrow> p2aHandle \<Rightarrow> p2aHandle io" where
  "AstMem_Write8 cfg start sz off val p =
     (if sz \<le> off then Fail (Panic ''out of bounds'')
      else let offset = i64 (off + start)
           in seq (whenM (Debug cfg) (print ''ast[0x%08x].8 := 0x%08x'' [AI offset, AW val]))
             (bind (setIndex p offset) (\<lambda>p.
               with_bar1 p (\<lambda>b.
                 seq (whenM (\<not> NoWrite cfg) (write8 b (0x10000 + (offset AND 0xffff)) val))
                   (seq (read32 b 0x3cc) (Ret p))))))"

text \<open>Method dispatch of the type.\<close>

fun ast_method :: "config \<Rightarrow> p2aHandle methods" where
  "ast_method cfg (Rd32 (AstMem _ st sz) off) p =
     bind (AstMem_Read32 cfg st sz off p) (\<lambda>(v, p). Ret (RU32 v, p))"
| "ast_method cfg (Rd8 (AstMem _ st sz) off) p =
     bind (AstMem_Read8 cfg st sz off p) (\<lambda>(v, p). Ret (RU8 v, p))"
| "ast_method cfg (Wr32 (AstMem _ st sz) off v) p =
     bind (AstMem_Write32 cfg st sz off v p) (\<lambda>p. Ret (RUnit, p))"
| "ast_method cfg (Wr8 (AstMem _ st sz) off v) p =
     bind (AstMem_Write8 cfg st sz off v p) (\<lambda>p. Ret (RUnit, p))"
| "ast_method cfg q p = perform q p"

section \<open>The address space behind the bridge\<close>

text \<open>
  The BMC's AHB bus: reads and writes at 32-bit addresses, and the rest of the environment
  (the clock, sleeping).
\<close>

record 'd bus =
  brd32 :: "u32 \<Rightarrow> 'd \<Rightarrow> u32 \<times> 'd"
  brd8 :: "u32 \<Rightarrow> 'd \<Rightarrow> u8 \<times> 'd"
  bwr32 :: "u32 \<Rightarrow> u32 \<Rightarrow> 'd \<Rightarrow> 'd"
  bwr8 :: "u32 \<Rightarrow> u8 \<Rightarrow> 'd \<Rightarrow> 'd"
  benv :: "op \<Rightarrow> 'd \<Rightarrow> resp \<times> 'd"

fun flat :: "'d bus \<Rightarrow> 'd handler" where
  "flat bus (Rd32 (AstMem _ st sz) off) d =
     (let (v, d') = brd32 bus (word_of_int (off + st)) d in (Inr (RU32 v), d'))"
| "flat bus (Rd8 (AstMem _ st sz) off) d =
     (let (v, d') = brd8 bus (word_of_int (off + st)) d in (Inr (RU8 v), d'))"
| "flat bus (Wr32 (AstMem _ st sz) off v) d = (Inr RUnit, bwr32 bus (word_of_int (off + st)) v d)"
| "flat bus (Wr8 (AstMem _ st sz) off v) d = (Inr RUnit, bwr8 bus (word_of_int (off + st)) v d)"
| "flat bus (Print f a) d = (Inr RUnit, d)"
| "flat bus q d = (let (x, d') = benv bus q d in (Inr x, d'))"

text \<open>
  What the code relies on of the bridge, for a handler \<open>h\<close> of the operations on BAR1 \<open>b\<close>:
  writing 0xf004 selects a page, writing 1 to 0xf000 enables the window, an enabled window
  reaches the selected page, the read of 0x3cc has no effect on the BMC, and nothing else
  moves the selection.
\<close>

definition bridge_control :: "'s handler \<Rightarrow> region \<Rightarrow> ('s \<Rightarrow> bool) \<Rightarrow> ('s \<Rightarrow> u32) \<Rightarrow> ('s \<Rightarrow> 'd) \<Rightarrow> bool" where
  "bridge_control h b en sel dev \<longleftrightarrow>
     (\<forall>s v. \<exists>s'. h (Wr32 b 0xf004 v) s = (Inr RUnit, s') \<and> sel s' = v \<and> en s' = en s \<and> dev s' = dev s) \<and>
     (\<forall>s. \<exists>s'. h (Wr32 b 0xf000 1) s = (Inr RUnit, s') \<and> sel s' = sel s \<and> en s' \<and> dev s' = dev s) \<and>
     (\<forall>s. \<exists>s' v. h (Rd32 b 0x3cc) s = (Inr (RU32 v), s') \<and> sel s' = sel s \<and> en s' = en s \<and> dev s' = dev s)"

definition bridge_window :: "'s handler \<Rightarrow> region \<Rightarrow> 'd bus \<Rightarrow> ('s \<Rightarrow> bool) \<Rightarrow> ('s \<Rightarrow> u32) \<Rightarrow> ('s \<Rightarrow> 'd) \<Rightarrow> bool" where
  "bridge_window h b bus en sel dev \<longleftrightarrow>
     (\<forall>s lo. en s \<longrightarrow> 0 \<le> lo \<longrightarrow> lo \<le> 0xfffc \<longrightarrow>
        (\<exists>s' v. h (Rd32 b (0x10000 + lo)) s = (Inr (RU32 v), s') \<and> sel s' = sel s \<and> en s'
           \<and> (v, dev s') = brd32 bus (sel s OR word_of_int lo) (dev s))) \<and>
     (\<forall>s lo. en s \<longrightarrow> 0 \<le> lo \<longrightarrow> lo \<le> 0xffff \<longrightarrow>
        (\<exists>s' v. h (Rd8 b (0x10000 + lo)) s = (Inr (RU8 v), s') \<and> sel s' = sel s \<and> en s'
           \<and> (v, dev s') = brd8 bus (sel s OR word_of_int lo) (dev s))) \<and>
     (\<forall>s lo v. en s \<longrightarrow> 0 \<le> lo \<longrightarrow> lo \<le> 0xfffc \<longrightarrow>
        (\<exists>s'. h (Wr32 b (0x10000 + lo) v) s = (Inr RUnit, s') \<and> sel s' = sel s \<and> en s'
           \<and> dev s' = bwr32 bus (sel s OR word_of_int lo) v (dev s))) \<and>
     (\<forall>s lo v. en s \<longrightarrow> 0 \<le> lo \<longrightarrow> lo \<le> 0xffff \<longrightarrow>
        (\<exists>s'. h (Wr8 b (0x10000 + lo) v) s = (Inr RUnit, s') \<and> sel s' = sel s \<and> en s'
           \<and> dev s' = bwr8 bus (sel s OR word_of_int lo) v (dev s)))"

definition bridge_rest :: "'s handler \<Rightarrow> 'd bus \<Rightarrow> ('s \<Rightarrow> bool) \<Rightarrow> ('s \<Rightarrow> u32) \<Rightarrow> ('s \<Rightarrow> 'd) \<Rightarrow> bool" where
  "bridge_rest h bus en sel dev \<longleftrightarrow>
     (\<forall>s f a. \<exists>s'. h (Print f a) s = (Inr RUnit, s') \<and> sel s' = sel s \<and> en s' = en s \<and> dev s' = dev s) \<and>
     (\<forall>s q. q \<in> {Now, Gosched} \<union> range Sleep \<longrightarrow>
        (\<exists>s' x. h q s = (Inr x, s') \<and> sel s' = sel s \<and> en s' = en s \<and> (x, dev s') = benv bus q (dev s)))"

definition p2a_bridge :: "'s handler \<Rightarrow> region \<Rightarrow> 'd bus \<Rightarrow> ('s \<Rightarrow> bool) \<Rightarrow> ('s \<Rightarrow> u32) \<Rightarrow> ('s \<Rightarrow> 'd) \<Rightarrow> bool" where
  "p2a_bridge h b bus en sel dev \<longleftrightarrow>
     bridge_control h b en sel dev \<and> bridge_window h b bus en sel dev \<and> bridge_rest h bus en sel dev"

text \<open>
  The accesses the refinement covers: inside the region, at an address of the bus above page
  zero, and (for 32-bit accesses) not crossing the end of a window page. The size is not the
  reason: \<open>AstMem\<close> checks only the first byte.
\<close>

fun ahb_ok :: "op \<Rightarrow> bool" where
  "ahb_ok (Rd32 (AstMem _ st sz) off) =
     (off < sz \<and> 0x10000 \<le> off + st \<and> off + st < 2 ^ 32 \<and> (off + st) mod 0x10000 \<le> 0xfffc)"
| "ahb_ok (Wr32 (AstMem _ st sz) off v) =
     (off < sz \<and> 0x10000 \<le> off + st \<and> off + st < 2 ^ 32 \<and> (off + st) mod 0x10000 \<le> 0xfffc)"
| "ahb_ok (Rd8 (AstMem _ st sz) off) = (off < sz \<and> 0x10000 \<le> off + st \<and> off + st < 2 ^ 32)"
| "ahb_ok (Wr8 (AstMem _ st sz) off v) = (off < sz \<and> 0x10000 \<le> off + st \<and> off + st < 2 ^ 32)"
| "ahb_ok (Print f a) = True"
| "ahb_ok Now = True"
| "ahb_ok Gosched = True"
| "ahb_ok (Sleep d) = True"
| "ahb_ok q = False"

text \<open>The coupling of the cached page with the bridge.\<close>

definition coupled :: "region \<Rightarrow> ('s \<Rightarrow> bool) \<Rightarrow> ('s \<Rightarrow> u32) \<Rightarrow> ('s \<Rightarrow> 'd) \<Rightarrow> 's \<times> p2aHandle \<Rightarrow> 'd \<Rightarrow> bool" where
  "coupled b en sel dev sp d \<longleftrightarrow>
     bar1 (snd sp) = Some b \<and> d = dev (fst sp) \<and>
     (f004 (snd sp) \<noteq> 0 \<longrightarrow> en (fst sp) \<and> sel (fst sp) = f004 (snd sp))"


section \<open>Addresses and pages\<close>

lemma and_ffff: "(x::int) AND 0xffff = x mod 0x10000"
  using take_bit_eq_mask [of 16 x] by (simp add: take_bit_eq_mod mask_eq_exp_minus_1)

lemma page_offset: "page_of a OR word_of_int (a AND 0xffff) = word_of_int a"
proof -
  have "(word_of_int (a AND 0xffff) :: u32) = word_of_int a AND 0xffff"
    by (simp add: and_ffff) (metis and_ffff of_int_and_eq of_int_numeral)
  then have "page_of a OR word_of_int (a AND 0xffff) = (word_of_int a :: u32) AND (0xffff0000 OR 0xffff)"
    by (simp only: page_of_def bit.conj_disj_distrib)
  moreover have "(0xffff0000 OR 0xffff :: u32) = - 1" by simp
  ultimately show ?thesis by (simp only: bit.conj_one_right)
qed

lemma page_of_nonzero:
  assumes "0x10000 \<le> a" "a < 2 ^ 32"
  shows "page_of a \<noteq> 0"
proof
  assume "page_of a = 0"
  then have "word_of_int (a AND 0xffff) = (word_of_int a :: u32)"
    using page_offset [of a] by simp
  then have "uint (word_of_int (a mod 0x10000) :: u32) = uint (word_of_int a :: u32)"
    by (simp add: and_ffff)
  moreover have "uint (word_of_int a :: u32) = a"
    using assms by (simp add: uint_word_of_int)
  moreover have "uint (word_of_int (a mod 0x10000) :: u32) = a mod 0x10000"
    by (simp add: uint_word_of_int)
  ultimately show False
    using assms by (metis linorder_not_le pos_mod_bound zero_less_numeral)
qed


section \<open>One access through the bridge\<close>

lemma bridge_controlD:
  assumes "p2a_bridge h b bus en sel dev"
  shows select: "\<exists>s'. h (Wr32 b 0xf004 v) s = (Inr RUnit, s') \<and> sel s' = v \<and> en s' = en s \<and> dev s' = dev s"
    and enable: "\<exists>s'. h (Wr32 b 0xf000 1) s = (Inr RUnit, s') \<and> sel s' = sel s \<and> en s' \<and> dev s' = dev s"
    and flush: "\<exists>s' w. h (Rd32 b 0x3cc) s = (Inr (RU32 w), s') \<and> sel s' = sel s \<and> en s' = en s \<and> dev s' = dev s"
  using assms by (simp_all only: p2a_bridge_def bridge_control_def)

lemma bridge_windowD:
  assumes "p2a_bridge h b bus en sel dev"
  shows window_rd32: "en s \<Longrightarrow> 0 \<le> lo \<Longrightarrow> lo \<le> 0xfffc \<Longrightarrow>
      \<exists>s' w. h (Rd32 b (0x10000 + lo)) s = (Inr (RU32 w), s') \<and> sel s' = sel s \<and> en s'
         \<and> (w, dev s') = brd32 bus (sel s OR word_of_int lo) (dev s)"
    and window_rd8: "en s \<Longrightarrow> 0 \<le> lo \<Longrightarrow> lo \<le> 0xffff \<Longrightarrow>
      \<exists>s' w. h (Rd8 b (0x10000 + lo)) s = (Inr (RU8 w), s') \<and> sel s' = sel s \<and> en s'
         \<and> (w, dev s') = brd8 bus (sel s OR word_of_int lo) (dev s)"
    and window_wr32: "en s \<Longrightarrow> 0 \<le> lo \<Longrightarrow> lo \<le> 0xfffc \<Longrightarrow>
      \<exists>s'. h (Wr32 b (0x10000 + lo) v) s = (Inr RUnit, s') \<and> sel s' = sel s \<and> en s'
         \<and> dev s' = bwr32 bus (sel s OR word_of_int lo) v (dev s)"
    and window_wr8: "en s \<Longrightarrow> 0 \<le> lo \<Longrightarrow> lo \<le> 0xffff \<Longrightarrow>
      \<exists>s'. h (Wr8 b (0x10000 + lo) c) s = (Inr RUnit, s') \<and> sel s' = sel s \<and> en s'
         \<and> dev s' = bwr8 bus (sel s OR word_of_int lo) c (dev s)"
  using assms unfolding p2a_bridge_def bridge_window_def by metis+

lemma bridge_restD:
  assumes "p2a_bridge h b bus en sel dev"
  shows printing: "\<exists>s'. h (Print f a) s = (Inr RUnit, s') \<and> sel s' = sel s \<and> en s' = en s \<and> dev s' = dev s"
    and timing: "q \<in> {Now, Gosched} \<union> range Sleep \<Longrightarrow>
      \<exists>s' x. h q s = (Inr x, s') \<and> sel s' = sel s \<and> en s' = en s \<and> (x, dev s') = benv bus q (dev s)"
  using assms by (simp_all only: p2a_bridge_def bridge_rest_def)

text \<open>After \<open>setIndex\<close> the cached page, the selected page and the page of the address agree.\<close>

lemma exec_setIndex:
  assumes br: "p2a_bridge h b bus en sel dev"
    and p: "bar1 p = Some b" "f004 p \<noteq> 0 \<longrightarrow> en s \<and> sel s = f004 p"
    and a: "0x10000 \<le> a" "a < 2 ^ 32"
  shows "\<exists>s'. exec h (setIndex p a) s = (Done (p\<lparr>f004 := page_of a\<rparr>), s')
    \<and> en s' \<and> sel s' = page_of a \<and> dev s' = dev s"
proof (cases "f004 p = page_of a")
  case True
  then have "p\<lparr>f004 := page_of a\<rparr> = p" by (cases p) simp
  with True p page_of_nonzero [OF a] show ?thesis
    by (simp add: setIndex_def)
next
  case False
  obtain s1 where s1: "h (Wr32 b 0xf004 (page_of a)) s = (Inr RUnit, s1)" "sel s1 = page_of a"
      "dev s1 = dev s"
    using select [OF br, of "page_of a" s] by blast
  obtain s2 where s2: "h (Wr32 b 0xf000 1) s1 = (Inr RUnit, s2)" "sel s2 = sel s1" "en s2"
      "dev s2 = dev s1"
    using enable [OF br, of s1] by blast
  show ?thesis
    using False p s1 s2 by (simp add: setIndex_def with_bar1_def Let_def write32_def)
qed

lemma exec_debug:
  assumes "p2a_bridge h b bus en sel dev"
  shows "\<exists>s'. exec h (whenM c (print f a)) s = (Done (), s') \<and> sel s' = sel s \<and> en s' = en s \<and> dev s' = dev s"
  using printing [OF assms, of f a s] by (auto simp: print_def)

lemma window_address:
  assumes "ahb_ok q" "q = Rd32 (AstMem n st sz) off \<or> q = Rd8 (AstMem n st sz) off
     \<or> q = Wr32 (AstMem n st sz) off v \<or> q = Wr8 (AstMem n st sz) off w"
  shows "off < sz" "i64 (off + st) = off + st" "0x10000 \<le> off + st" "off + st < 2 ^ 32"
  using assms by auto

lemma page_offset_mod: "page_of a OR word_of_int (a mod 0x10000) = word_of_int a"
  using page_offset [of a] by (simp add: and_ffff)

lemma under_read32:
  assumes br: "p2a_bridge h b bus en sel dev"
    and c: "coupled b en sel dev (s, p) d"
    and ok: "ahb_ok (Rd32 (AstMem n st sz) off)"
  shows "\<exists>s' p' v d'. under h (ast_method cfg) (Rd32 (AstMem n st sz) off) (s, p) = (Inr (RU32 v), (s', p'))
    \<and> brd32 bus (word_of_int (off + st)) d = (v, d') \<and> coupled b en sel dev (s', p') d'"
proof -
  let ?a = "off + st"
  have a: "off < sz" "i64 (off + st) = ?a" "0x10000 \<le> ?a" "?a < 2 ^ 32"
    using ok by auto
  obtain s1 where s1: "exec h (setIndex p ?a) s = (Done (p\<lparr>f004 := page_of ?a\<rparr>), s1)"
      "en s1" "sel s1 = page_of ?a" "dev s1 = d"
    using exec_setIndex [OF br _ _ a(3,4), of p s] c by (auto simp: coupled_def)
  obtain s2 v where s2: "h (Rd32 b (0x10000 + ?a mod 0x10000)) s1 = (Inr (RU32 v), s2)"
      "sel s2 = sel s1" "en s2" "(v, dev s2) = brd32 bus (word_of_int ?a) d"
    using window_rd32 [OF br, of s1 "?a mod 0x10000"] s1 ok by (auto simp: page_offset_mod)
  obtain s3 where s3: "exec h (whenM (Debug cfg) (print ''ast[0x%08x] -> 0x%08x'' [AI ?a, AW v])) s2 = (Done (), s3)"
      "sel s3 = sel s2" "en s3 = en s2" "dev s3 = dev s2"
    using exec_debug [OF br] by blast
  have "under h (ast_method cfg) (Rd32 (AstMem n st sz) off) (s, p)
      = (Inr (RU32 v), (s3, p\<lparr>f004 := page_of ?a\<rparr>))"
    using a s1 s2 s3 c
    by (simp add: Let_def under_def AstMem_Read32_def exec_bind with_bar1_def and_ffff read32_def coupled_def)
  moreover have "coupled b en sel dev (s3, p\<lparr>f004 := page_of ?a\<rparr>) (dev s3)"
    using c s1 s2 s3 by (simp add: coupled_def)
  ultimately show ?thesis using s2(4) s3(4) by metis
qed


lemma under_read8:
  assumes br: "p2a_bridge h b bus en sel dev"
    and c: "coupled b en sel dev (s, p) d"
    and ok: "ahb_ok (Rd8 (AstMem n st sz) off)"
  shows "\<exists>s' p' v d'. under h (ast_method cfg) (Rd8 (AstMem n st sz) off) (s, p) = (Inr (RU8 v), (s', p'))
    \<and> brd8 bus (word_of_int (off + st)) d = (v, d') \<and> coupled b en sel dev (s', p') d'"
proof -
  let ?a = "off + st"
  have a: "off < sz" "i64 (off + st) = ?a" "0x10000 \<le> ?a" "?a < 2 ^ 32"
    using ok by auto
  have lo: "?a mod 0x10000 \<le> 0xffff"
    using pos_mod_bound [of "0x10000" ?a] by simp
  obtain s1 where s1: "exec h (setIndex p ?a) s = (Done (p\<lparr>f004 := page_of ?a\<rparr>), s1)"
      "en s1" "sel s1 = page_of ?a" "dev s1 = d"
    using exec_setIndex [OF br _ _ a(3,4), of p s] c by (auto simp: coupled_def)
  obtain s2 v where s2: "h (Rd8 b (0x10000 + ?a mod 0x10000)) s1 = (Inr (RU8 v), s2)"
      "sel s2 = sel s1" "en s2" "(v, dev s2) = brd8 bus (word_of_int ?a) d"
    using window_rd8 [OF br, of s1 "?a mod 0x10000"] s1 lo by (auto simp: page_offset_mod)
  obtain s3 where s3: "exec h (whenM (Debug cfg) (print ''ast[0x%08x] -> 0x%08x'' [AI ?a, AW v])) s2 = (Done (), s3)"
      "sel s3 = sel s2" "en s3 = en s2" "dev s3 = dev s2"
    using exec_debug [OF br] by blast
  have "under h (ast_method cfg) (Rd8 (AstMem n st sz) off) (s, p)
      = (Inr (RU8 v), (s3, p\<lparr>f004 := page_of ?a\<rparr>))"
    using a s1 s2 s3 c
    by (simp add: Let_def under_def AstMem_Read8_def exec_bind with_bar1_def and_ffff read8_def coupled_def)
  moreover have "coupled b en sel dev (s3, p\<lparr>f004 := page_of ?a\<rparr>) (dev s3)"
    using c s1 s2 s3 by (simp add: coupled_def)
  ultimately show ?thesis using s2(4) s3(4) by metis
qed

lemma under_write32:
  assumes br: "p2a_bridge h b bus en sel dev"
    and c: "coupled b en sel dev (s, p) d"
    and ok: "ahb_ok (Wr32 (AstMem n st sz) off v)" and nw: "\<not> NoWrite cfg"
  shows "\<exists>s' p'. under h (ast_method cfg) (Wr32 (AstMem n st sz) off v) (s, p) = (Inr RUnit, (s', p'))
    \<and> coupled b en sel dev (s', p') (bwr32 bus (word_of_int (off + st)) v d)"
proof -
  let ?a = "off + st"
  have a: "off < sz" "i64 (off + st) = ?a" "0x10000 \<le> ?a" "?a < 2 ^ 32"
    using ok by auto
  obtain s0 where s0: "exec h (whenM (Debug cfg) (print ''ast[0x%08x] := 0x%08x'' [AI ?a, AW v])) s = (Done (), s0)"
      "sel s0 = sel s" "en s0 = en s" "dev s0 = dev s"
    using exec_debug [OF br] by blast
  obtain s1 where s1: "exec h (setIndex p ?a) s0 = (Done (p\<lparr>f004 := page_of ?a\<rparr>), s1)"
      "en s1" "sel s1 = page_of ?a" "dev s1 = d"
    using exec_setIndex [OF br _ _ a(3,4), of p s0] c s0 by (auto simp: coupled_def)
  obtain s2 where s2: "h (Wr32 b (0x10000 + ?a mod 0x10000) v) s1 = (Inr RUnit, s2)"
      "sel s2 = sel s1" "en s2" "dev s2 = bwr32 bus (word_of_int ?a) v d"
    using window_wr32 [OF br, of s1 "?a mod 0x10000"] s1 ok by (auto simp: page_offset_mod)
  obtain s3 w where s3: "h (Rd32 b 0x3cc) s2 = (Inr (RU32 w), s3)"
      "sel s3 = sel s2" "en s3 = en s2" "dev s3 = dev s2"
    using flush [OF br] by blast
  have "under h (ast_method cfg) (Wr32 (AstMem n st sz) off v) (s, p)
      = (Inr RUnit, (s3, p\<lparr>f004 := page_of ?a\<rparr>))"
    using a s0 s1 s2 s3 c nw
    by (simp add: Let_def under_def AstMem_Write32_def exec_bind with_bar1_def and_ffff
        read32_def write32_def coupled_def)
  moreover have "coupled b en sel dev (s3, p\<lparr>f004 := page_of ?a\<rparr>) (dev s3)"
    using c s1 s2 s3 by (simp add: coupled_def)
  ultimately show ?thesis using s2(4) s3(4) by metis
qed

lemma under_write8:
  assumes br: "p2a_bridge h b bus en sel dev"
    and c: "coupled b en sel dev (s, p) d"
    and ok: "ahb_ok (Wr8 (AstMem n st sz) off v)" and nw: "\<not> NoWrite cfg"
  shows "\<exists>s' p'. under h (ast_method cfg) (Wr8 (AstMem n st sz) off v) (s, p) = (Inr RUnit, (s', p'))
    \<and> coupled b en sel dev (s', p') (bwr8 bus (word_of_int (off + st)) v d)"
proof -
  let ?a = "off + st"
  have a: "off < sz" "i64 (off + st) = ?a" "0x10000 \<le> ?a" "?a < 2 ^ 32"
    using ok by auto
  have lo: "?a mod 0x10000 \<le> 0xffff"
    using pos_mod_bound [of "0x10000" ?a] by simp
  obtain s0 where s0: "exec h (whenM (Debug cfg) (print ''ast[0x%08x].8 := 0x%08x'' [AI ?a, AW v])) s = (Done (), s0)"
      "sel s0 = sel s" "en s0 = en s" "dev s0 = dev s"
    using exec_debug [OF br] by blast
  obtain s1 where s1: "exec h (setIndex p ?a) s0 = (Done (p\<lparr>f004 := page_of ?a\<rparr>), s1)"
      "en s1" "sel s1 = page_of ?a" "dev s1 = d"
    using exec_setIndex [OF br _ _ a(3,4), of p s0] c s0 by (auto simp: coupled_def)
  obtain s2 where s2: "h (Wr8 b (0x10000 + ?a mod 0x10000) v) s1 = (Inr RUnit, s2)"
      "sel s2 = sel s1" "en s2" "dev s2 = bwr8 bus (word_of_int ?a) v d"
    using window_wr8 [OF br, of s1 "?a mod 0x10000"] s1 lo by (auto simp: page_offset_mod)
  obtain s3 w where s3: "h (Rd32 b 0x3cc) s2 = (Inr (RU32 w), s3)"
      "sel s3 = sel s2" "en s3 = en s2" "dev s3 = dev s2"
    using flush [OF br] by blast
  have "under h (ast_method cfg) (Wr8 (AstMem n st sz) off v) (s, p)
      = (Inr RUnit, (s3, p\<lparr>f004 := page_of ?a\<rparr>))"
    using a s0 s1 s2 s3 c nw
    by (simp add: Let_def under_def AstMem_Write8_def exec_bind with_bar1_def and_ffff
        read32_def write8_def coupled_def)
  moreover have "coupled b en sel dev (s3, p\<lparr>f004 := page_of ?a\<rparr>) (dev s3)"
    using c s1 s2 s3 by (simp add: coupled_def)
  ultimately show ?thesis using s2(4) s3(4) by metis
qed

lemma under_print:
  assumes br: "p2a_bridge h b bus en sel dev"
    and c: "coupled b en sel dev (s, p) d"
  shows "\<exists>s'. under h (ast_method cfg) (Print f a) (s, p) = (Inr RUnit, (s', p))
    \<and> coupled b en sel dev (s', p) d"
  using printing [OF br, of f a s] c by (auto simp: under_def perform_def coupled_def)

lemma under_timing:
  assumes br: "p2a_bridge h b bus en sel dev"
    and c: "coupled b en sel dev (s, p) d"
    and q: "q = Now \<or> q = Gosched \<or> q = Sleep t" "\<And>x e. benv bus q e = (x, snd (benv bus q e)) \<Longrightarrow> fits q x"
  shows "\<exists>s' x d'. under h (ast_method cfg) q (s, p) = (Inr x, (s', p))
    \<and> benv bus q d = (x, d') \<and> coupled b en sel dev (s', p) d'"
proof -
  obtain s' x where s': "h q s = (Inr x, s')" "sel s' = sel s" "en s' = en s"
      "(x, dev s') = benv bus q (dev s)"
    using timing [OF br, of q s] q(1) by auto
  then have "fits q x" using q(2) [of "dev s" x] by (metis prod.sel(2))
  with q(1) s' have "under h (ast_method cfg) q (s, p) = (Inr x, (s', p))"
    by (auto simp: under_def perform_def)
  moreover have "coupled b en sel dev (s', p) (dev s')"
    using c s' by (simp add: coupled_def)
  ultimately show ?thesis using c s'(4) by (metis coupled_def fst_conv)
qed

section \<open>Programs through the bridge\<close>

text \<open>The clock of the bus answers with times.\<close>

definition bus_answers :: "'d bus \<Rightarrow> bool" where
  "bus_answers bus \<longleftrightarrow> (\<forall>q d. q \<in> {Now, Gosched} \<union> range Sleep \<longrightarrow> fits q (fst (benv bus q d)))"

lemma under_flat:
  assumes br: "p2a_bridge h b bus en sel dev" "bus_answers bus" "\<not> NoWrite cfg"
    and ok: "ahb_ok q" and c: "coupled b en sel dev sp d"
  shows "fst (under h (ast_method cfg) q sp) = fst (flat bus q d)
    \<and> coupled b en sel dev (snd (under h (ast_method cfg) q sp)) (snd (flat bus q d))"
proof -
  obtain s p where sp: "sp = (s, p)" by (cases sp)
  note c' = c [unfolded sp]
  have sum: "st + off = off + (st::int)" for st off by simp
  show ?thesis
    using ok
  proof (cases q rule: ahb_ok.cases)
    case (1 n st sz off)
    with ok under_read32 [OF br(1) c', of n st sz off cfg] show ?thesis
      by (auto simp: sp add.commute)
  next
    case (2 n st sz off v)
    with ok under_write32 [OF br(1) c' _ br(3), of n st sz off v] show ?thesis
      by (auto simp: sp add.commute)
  next
    case (3 n st sz off)
    with ok under_read8 [OF br(1) c', of n st sz off cfg] show ?thesis
      by (auto simp: sp add.commute)
  next
    case (4 n st sz off v)
    with ok under_write8 [OF br(1) c' _ br(3), of n st sz off v] show ?thesis
      by (auto simp: sp add.commute)
  next
    case (5 f a)
    with under_print [OF br(1) c', of cfg f a] show ?thesis by (auto simp: sp)
  next
    case 6
    have "fits q x" if "benv bus q e = (x, snd (benv bus q e))" for x e
      using br(2) that 6 unfolding bus_answers_def by (metis UnI1 fst_conv insertI1)
    with under_timing [where cfg = cfg and q = q, OF br(1) c'] 6 show ?thesis by (auto simp: sp)
  next
    case 7
    have "fits q x" if "benv bus q e = (x, snd (benv bus q e))" for x e
      using br(2) that 7 unfolding bus_answers_def by (metis UnI1 fst_conv insertI1 insertI2)
    with under_timing [where cfg = cfg and q = q, OF br(1) c'] 7 show ?thesis by (auto simp: sp)
  next
    case (8 t)
    have "fits q x" if "benv bus q e = (x, snd (benv bus q e))" for x e
      using br(2) that 8 unfolding bus_answers_def by (metis UnI2 fst_conv rangeI)
    with under_timing [where cfg = cfg and q = q, OF br(1) c'] 8 show ?thesis by (auto simp: sp)
  qed (simp_all)
qed

lemma ast_method_answers: "well_answering (ast_method cfg)"
  unfolding well_answering_def
proof (intro allI impI)
  fix q st tr y
  assume "runs (ast_method cfg q st) tr (Done y)"
  then show "fits q (fst y)"
    by (cases "(cfg, q, st)" rule: ast_method.cases)
      (auto simp: runs_bind perform_def)
qed


text \<open>
  What the refinement says of an outcome: the bridge handle is carried along and its BAR is
  the same.
\<close>

definition same_outcome :: "region \<Rightarrow> ('a \<times> p2aHandle) outcome \<Rightarrow> 'a outcome \<Rightarrow> bool" where
  "same_outcome b o1 o2 \<longleftrightarrow> (case o1 of
       Done (x, p) \<Rightarrow> o2 = Done x \<and> bar1 p = Some b
     | Failed e \<Rightarrow> o2 = Failed e)"

lemma bridge_refines:
  assumes br: "p2a_bridge h b bus en sel dev" "bus_answers bus" "\<not> NoWrite cfg"
    and safe: "safe ahb_ok p"
    and bridged: "exec h (elab (ast_method cfg) p (p2aGlob\<lparr>bar1 := Some b\<rparr>)) s = (out, s')"
    and direct: "exec (flat bus) p (dev s) = (out', d')"
  shows "same_outcome b out out' \<and> dev s' = d'"
proof -
  let ?g = "p2aGlob\<lparr>bar1 := Some b\<rparr>"
  obtain outu t q where u: "exec (under h (ast_method cfg)) p (s, ?g) = (outu, (t, q))"
    by (cases "exec (under h (ast_method cfg)) p (s, ?g)") auto
  have c: "coupled b en sel dev (s, ?g) (dev s)"
    by (simp add: coupled_def p2aGlob_def)
  have "fst (exec (under h (ast_method cfg)) p (s, ?g)) = fst (exec (flat bus) p (dev s))
      \<and> coupled b en sel dev (snd (exec (under h (ast_method cfg)) p (s, ?g)))
          (snd (exec (flat bus) p (dev s)))"
    using safe c by (rule exec_sim) (rule under_flat [OF br])
  then have "outu = out'" "bar1 q = Some b" "d' = dev t"
    using u direct by (auto simp: coupled_def)
  then show ?thesis
    using bridged u
    by (cases out') (auto simp: exec_elab [OF well_answering_exec [OF ast_method_answers]] same_outcome_def)
qed

text \<open>
  Property C1: a program over BMC registers run through the PCI bridge has the outcome, and
  leaves the BMC in the state, that it has on the BMC's own flat bus. It holds from the first
  access on, whatever page earlier users left selected, because no access is to page zero, the
  value the cache starts with.
\<close>

theorem bridge_refines_flat_bus:
  assumes br: "p2a_bridge h b bus en sel dev" "bus_answers bus" "\<not> NoWrite cfg"
    and safe: "safe ahb_ok p"
    and bridged: "exec h (elab (ast_method cfg) p (p2aGlob\<lparr>bar1 := Some b\<rparr>)) s = (out, s')"
    and direct: "exec (flat bus) p (dev s) = (out', d')"
  shows "same_outcome b out out' \<and> dev s' = d'"
  using assms by (rule bridge_refines)

text \<open>
  A bridge that meets the hypothesis: the word-addressed bus of a memory, behind a window with
  a page register and an enable bit.
\<close>

definition word_bus :: "(u32 \<Rightarrow> u32) bus" where
  "word_bus = \<lparr>brd32 = (\<lambda>a d. (d a, d)), brd8 = (\<lambda>a d. (ucast (d a), d)),
     bwr32 = (\<lambda>a v d. d(a := v)), bwr8 = (\<lambda>a v d. d(a := ucast v)),
     benv = (\<lambda>q d. (if q = Now then RInt 0 else RUnit, d))\<rparr>"

fun word_bridge :: "(bool \<times> u32 \<times> (u32 \<Rightarrow> u32)) handler" where
  "word_bridge (Wr32 r off v) (e, p, d) =
     (if off = 0xf004 then (Inr RUnit, (e, v, d))
      else if off = 0xf000 then (Inr RUnit, (v = 1, p, d))
      else if e \<and> 0x10000 \<le> off then (Inr RUnit, (e, p, d((p OR word_of_int (off - 0x10000)) := v)))
      else (Inr RUnit, (e, p, d)))"
| "word_bridge (Wr8 r off v) (e, p, d) =
     (if e \<and> 0x10000 \<le> off then (Inr RUnit, (e, p, d((p OR word_of_int (off - 0x10000)) := ucast v)))
      else (Inr RUnit, (e, p, d)))"
| "word_bridge (Rd32 r off) (e, p, d) =
     (Inr (RU32 (if e \<and> 0x10000 \<le> off then d (p OR word_of_int (off - 0x10000)) else 0)), (e, p, d))"
| "word_bridge (Rd8 r off) (e, p, d) =
     (Inr (RU8 (if e \<and> 0x10000 \<le> off then ucast (d (p OR word_of_int (off - 0x10000))) else 0)), (e, p, d))"
| "word_bridge Now s = (Inr (RInt 0), s)"
| "word_bridge q s = (Inr RUnit, s)"

lemma word_bridge_ok: "p2a_bridge word_bridge b word_bus fst (\<lambda>s. fst (snd s)) (\<lambda>s. snd (snd s))"
  unfolding p2a_bridge_def bridge_control_def bridge_window_def bridge_rest_def
  by (intro conjI) (auto simp: word_bus_def)

definition poke :: "u32 io" where
  "poke = seq (write32 (AstMem [] 0x1E6E2000 4096) 0 0x1688a8a8) (read32 (AstMem [] 0x1E6E2000 4096) 0)"

theorem bridge_refines_flat_bus_witness:
  "same_outcome (AstMem [] 0 0)
     (fst (exec word_bridge (elab (ast_method plain_config) poke (p2aGlob\<lparr>bar1 := Some (AstMem [] 0 0)\<rparr>))
        (False, 0, \<lambda>_. 0)))
     (Done 0x1688a8a8)"
proof -
  let ?p = "elab (ast_method plain_config) poke (p2aGlob\<lparr>bar1 := Some (AstMem [] 0 0)\<rparr>)"
  have "bus_answers word_bus" by (auto simp: bus_answers_def word_bus_def)
  moreover have "\<not> NoWrite plain_config" by (simp add: plain_config_def)
  moreover have "safe ahb_ok poke" by (auto simp: poke_def io_defs)
  moreover have "exec (flat word_bus) poke (\<lambda>_. 0) = (Done 0x1688a8a8, (\<lambda>_. 0)(0x1E6E2000 := 0x1688a8a8))"
    by (simp add: poke_def io_defs word_bus_def)
  ultimately show ?thesis
    using bridge_refines_flat_bus [where b = "AstMem [] 0 0" and cfg = plain_config and p = poke
        and s = "(False, 0, \<lambda>_. 0)" and out = "fst (exec word_bridge ?p (False, 0, \<lambda>_. 0))"
        and s' = "snd (exec word_bridge ?p (False, 0, \<lambda>_. 0))", OF word_bridge_ok]
    by simp
qed

section \<open>What reaches the bridge\<close>

text \<open>
  The accesses to BAR1 that the methods make: the three control registers, and the window, whose 64
  KiB the bytes of an access do not leave.
\<close>

definition in_window :: "int \<Rightarrow> int \<Rightarrow> bool" where
  "in_window off n \<longleftrightarrow> 0x10000 \<le> off \<and> off + n \<le> 0x20000"

fun bar_access :: "config \<Rightarrow> region \<Rightarrow> op \<Rightarrow> bool" where
  "bar_access cfg b (Rd32 r off) = (r = b \<and> (off = 0x3cc \<or> in_window off 4))"
| "bar_access cfg b (Rd8 r off) = (r = b \<and> in_window off 1)"
| "bar_access cfg b (Wr32 r off v) = (r = b \<and>
     (off = 0xf004 \<and> v AND 0xffff = 0 \<or> off = 0xf000 \<and> v = 1 \<or> \<not> NoWrite cfg \<and> in_window off 4))"
| "bar_access cfg b (Wr8 r off v) = (r = b \<and> \<not> NoWrite cfg \<and> in_window off 1)"
| "bar_access cfg b q = True"

text \<open>Programs over the BMC's registers, whose words do not cross a boundary of 64 KiB.\<close>

fun on_bridge :: "op \<Rightarrow> bool" where
  "on_bridge (Rd32 r off) = (case r of AstMem _ st _ \<Rightarrow> (off + st) mod 0x10000 \<le> 0xfffc | _ \<Rightarrow> False)"
| "on_bridge (Rd8 r off) = (case r of AstMem _ _ _ \<Rightarrow> True | _ \<Rightarrow> False)"
| "on_bridge (Wr32 r off v) = (case r of AstMem _ st _ \<Rightarrow> (off + st) mod 0x10000 \<le> 0xfffc | _ \<Rightarrow> False)"
| "on_bridge (Wr8 r off v) = (case r of AstMem _ _ _ \<Rightarrow> True | _ \<Rightarrow> False)"
| "on_bridge q = True"

lemma i64_low: "i64 x mod 0x10000 = x mod 0x10000"
  by (rule i64_mod) simp

lemma window_range: "in_window (0x10000 + (x AND 0xffff)) 1"
  "(off + st) mod 0x10000 \<le> 0xfffc \<Longrightarrow> in_window (0x10000 + (i64 (off + st) AND 0xffff)) 4"
proof -
  have "x mod 0x10000 < 0x10000" "0 \<le> x mod 0x10000" by simp_all
  then show "in_window (0x10000 + (x AND 0xffff)) 1" by (simp add: in_window_def and_ffff)
  show "in_window (0x10000 + (i64 (off + st) AND 0xffff)) 4" if "(off + st) mod 0x10000 \<le> 0xfffc"
    using that by (simp add: in_window_def and_ffff i64_low)
qed

lemma page_low: "page_of a AND 0xffff = 0"
  by (simp add: page_of_def and.assoc)

lemma setIndex_bar: "runs (setIndex p a) tr (Done p') \<Longrightarrow> bar1 p' = bar1 p"
  by (auto simp: setIndex_def with_bar1_def Let_def split: if_splits option.splits)

lemma setIndex_safe: "bar1 p = Some b \<Longrightarrow> safe (bar_access cfg b) (setIndex p a)"
  by (auto simp: setIndex_def with_bar1_def Let_def page_low io_defs)

lemma safe_setIndex:
  assumes "bar1 p = Some b" "\<And>p'. bar1 p' = Some b \<Longrightarrow> safe (bar_access cfg b) (f p')"
  shows "safe (bar_access cfg b) (bind (setIndex p a) f)"
  using assms setIndex_safe setIndex_bar by (intro safe_bind) fastforce+

lemma ast_method_safe:
  assumes "bar1 p = Some b" "on_bridge q"
  shows "safe (bar_access cfg b) (ast_method cfg q p)"
  using assms
  by (cases "(cfg, q, p)" rule: ast_method.cases)
    (auto simp: AstMem_Read32_def AstMem_Read8_def AstMem_Write32_def AstMem_Write8_def Let_def
      with_bar1_def window_range perform_def io_defs intro!: safe_bindI safe_setIndex split: region.splits)

lemma ast_method_bar:
  assumes "runs (ast_method cfg q p) tr (Done y)"
  shows "bar1 (snd y) = bar1 p"
  using assms
  by (cases "(cfg, q, p)" rule: ast_method.cases)
    (auto simp: AstMem_Read32_def AstMem_Read8_def AstMem_Write32_def AstMem_Write8_def Let_def
      with_bar1_def perform_def runs_bind split: if_splits option.splits dest!: setIndex_bar)

text \<open>
  Property C31: whatever a program does with BMC registers, the bridge only ever sees reads of
  0x3cc, page selections and enables, and accesses all of whose bytes are inside its 64 KiB
  window, provided that no word the program accesses crosses a boundary of 64 KiB (one that does
  leaves the window: \<open>window_overrun\<close>); with \<open>-noop\<close> no write reaches the window at all.
\<close>

theorem bridge_accesses:
  assumes "safe on_bridge p" "bar1 g = Some b"
    and "runs (elab (ast_method cfg) p g) tr out"
  shows "\<forall>e \<in> set tr. bar_access cfg b (fst e)"
proof -
  have "safe (bar_access cfg b) (elab (ast_method cfg) p g)"
    using assms(1,2)
  proof (rule safe_elab [where I = "\<lambda>p. bar1 p = Some b"])
    show "safe (bar_access cfg b) (ast_method cfg q st)" if "on_bridge q" "bar1 st = Some b" for q st
      using ast_method_safe that by blast
    show "fits q (fst y) \<and> bar1 (snd y) = Some b"
      if "bar1 st = Some b" "runs (ast_method cfg q st) tr (Done y)" for q st tr y
      using that ast_method_bar ast_method_answers unfolding well_answering_def by metis
  qed
  then show ?thesis using assms(3) by (rule safe_runs)
qed

text \<open>
  A word at the last byte of a page of the BMC is read at the last byte of the window, and three
  bytes past it.
\<close>

lemma window_overrun:
  "\<exists>tr out. runs (elab (ast_method plain_config) (read32 (AstMem [] 0 0x10000) 0xffff) (p2aGlob\<lparr>bar1 := Some b\<rparr>)) tr out \<and>
     fst (hd tr) = Rd32 b 0x1ffff \<and> \<not> in_window 0x1ffff 4"
proof -
  have "runs (elab (ast_method plain_config) (read32 (AstMem [] 0 0x10000) 0xffff) (p2aGlob\<lparr>bar1 := Some b\<rparr>))
      [(Rd32 b 0x1ffff, RU32 0)] (Done (0, p2aGlob\<lparr>bar1 := Some b\<rparr>))"
    by (simp add: read32_def AstMem_Read32_def setIndex_def page_of_def with_bar1_def Let_def plain_config_def p2aGlob_def)
  then show ?thesis by (intro exI conjI) (auto simp: in_window_def)
qed

text \<open>
  Property C39: the page cache starts at 0, so the first accesses to page zero of the BMC do not
  program the bridge: they reach whatever page an earlier user of the window left selected.
\<close>

theorem page_zero_not_selected:
  assumes "p2a_bridge h b bus en sel dev" "en s" "0 \<le> off" "off + st \<le> 0xfffc" "0 \<le> st" "off < sz"
  shows "fst (exec h (elab (ast_method cfg) (read32 (AstMem n st sz) off) (p2aGlob\<lparr>bar1 := Some b\<rparr>)) s)
    = Done (fst (brd32 bus (sel s OR word_of_int (off + st)) (dev s)), p2aGlob\<lparr>bar1 := Some b\<rparr>)"
proof -
  let ?p = "p2aGlob\<lparr>bar1 := Some b\<rparr>" and ?a = "off + st"
  have a: "0 \<le> ?a" "?a < 0x10000" "i64 ?a = ?a" using assms by auto
  have "?a AND 0xffff = ?a" using a by (simp add: and_ffff)
  then have "page_of ?a OR word_of_int ?a = word_of_int ?a" using page_offset [of ?a] by simp
  have "page_of ?a = 0"
  proof -
    have "(word_of_int ?a :: u32) = word_of_int (?a AND 0xffff)"
      using \<open>?a AND 0xffff = ?a\<close> by simp
    also have "\<dots> = word_of_int ?a AND 0xffff"
      by (metis of_int_and_eq of_int_numeral)
    finally have "page_of ?a = (word_of_int ?a AND 0xffff) AND 0xffff0000"
      unfolding page_of_def by metis
    then show ?thesis by (simp only: and.assoc) simp
  qed
  then have idx: "setIndex ?p ?a = Ret ?p" by (simp add: setIndex_def p2aGlob_def)
  obtain s1 w where s1: "h (Rd32 b (0x10000 + ?a)) s = (Inr (RU32 w), s1)"
      "(w, dev s1) = brd32 bus (sel s OR word_of_int ?a) (dev s)"
    using window_rd32 [OF assms(1,2) a(1)] assms(4) by blast
  obtain s2 where s2: "exec h (whenM (Debug cfg) (print ''ast[0x%08x] -> 0x%08x'' [AI ?a, AW w])) s1
      = (Done (), s2)"
    using exec_debug [OF assms(1)] by blast
  have w: "fst (brd32 bus (sel s OR word_of_int ?a) (dev s)) = w"
    using s1(2) by (metis fst_conv)
  have "fst (exec h (elab (ast_method cfg) (read32 (AstMem n st sz) off) ?p) s) = Done (w, ?p)"
    using a idx s1(1) s2 assms(6) \<open>?a AND 0xffff = ?a\<close>
    by (cases "Debug cfg") (simp_all add: read32_def AstMem_Read32_def Let_def with_bar1_def exec_bind)
  then show ?thesis unfolding w .
qed

text \<open>The witnesses: the bridge above with an earlier user's page selected.\<close>

theorem bridge_accesses_witness:
  "runs (elab (ast_method (plain_config\<lparr>NoWrite := True\<rparr>)) (write32 (AstMem [] 0x1E6E2000 4096) 0 1)
      (p2aGlob\<lparr>bar1 := Some (AstMem [] 0 0)\<rparr>))
    [(Wr32 (AstMem [] 0 0) 0xf004 0x1e6e0000, RUnit), (Wr32 (AstMem [] 0 0) 0xf000 1, RUnit),
     (Rd32 (AstMem [] 0 0) 0x3cc, RU32 0)]
    (Done ((), p2aGlob\<lparr>bar1 := Some (AstMem [] 0 0), f004 := 0x1e6e0000\<rparr>)) \<and>
   bar_access (plain_config\<lparr>NoWrite := True\<rparr>) (AstMem [] 0 0) (Rd32 (AstMem [] 0 0) 0x3cc)"
proof -
  let ?tr = "[(Wr32 (AstMem [] 0 0) 0xf004 0x1e6e0000, RUnit), (Wr32 (AstMem [] 0 0) 0xf000 1, RUnit),
     (Rd32 (AstMem [] 0 0) 0x3cc, RU32 0)]"
  have run: "runs (elab (ast_method (plain_config\<lparr>NoWrite := True\<rparr>))
      (write32 (AstMem [] 0x1E6E2000 4096) 0 1) (p2aGlob\<lparr>bar1 := Some (AstMem [] 0 0)\<rparr>))
    ?tr (Done ((), p2aGlob\<lparr>bar1 := Some (AstMem [] 0 0), f004 := 0x1e6e0000\<rparr>))"
    by (simp add: write32_def AstMem_Write32_def setIndex_def page_of_def with_bar1_def Let_def
        plain_config_def p2aGlob_def)
  have "safe on_bridge (write32 (AstMem [] 0x1E6E2000 4096) 0 1)" by (simp add: write32_def)
  from bridge_accesses [OF this _ run] show ?thesis using run by simp
qed

theorem page_zero_not_selected_witness:
  "fst (exec word_bridge (elab (ast_method plain_config) (read32 (AstMem [] 0 4096) 4)
      (p2aGlob\<lparr>bar1 := Some (AstMem [] 0 0)\<rparr>)) (True, 0x1e6e0000, \<lambda>a. a))
    = Done (0x1e6e0004, p2aGlob\<lparr>bar1 := Some (AstMem [] 0 0)\<rparr>)"
  using page_zero_not_selected [OF word_bridge_ok, where s = "(True, 0x1e6e0000, \<lambda>a. a)" and off = 4
      and st = 0 and sz = 4096 and cfg = plain_config and n = "[]" and b = "AstMem [] 0 0"]
  by (simp add: word_bus_def)

end
