(* ===== verification/Waiting.thy ===== *)
theory Waiting
  imports GoIO
begin

text \<open>
  Waiting with a deadline. The program waits for the hardware in loops that read a register
  until it changes or the clock passes a deadline; in the model such a loop takes a bound on its
  turns. What they have in common is the locale \<open>waiting\<close>: a turn that does not end the wait has
  seen the clock at least \<open>gap\<close> further and not past a limit. So a bound of \<open>limit div gap\<close> turns
  is never used up, on any clock that moves on; \<open>in_time\<close> carries this to the programs that wait.
\<close>

section \<open>The clock\<close>

text \<open>
  The clock of a run, which is \<open>t\<close> at its beginning, in nanoseconds: every reading is later than
  what came before, and a sleep takes at least its duration.
\<close>

definition tick :: "event \<Rightarrow> int \<Rightarrow> int" where
  "tick e t = (case e of (Now, RInt u) \<Rightarrow> u | (Sleep d, _) \<Rightarrow> t + max 0 d | _ \<Rightarrow> t)"

definition on_time :: "event \<Rightarrow> int \<Rightarrow> bool" where
  "on_time e t = (case e of (Now, RInt u) \<Rightarrow> t < u | _ \<Rightarrow> True)"

primrec clocked :: "int \<Rightarrow> event list \<Rightarrow> bool" where
  "clocked t [] = True"
| "clocked t (e # tr) = (on_time e t \<and> clocked (tick e t) tr)"

lemma tick_simps [simp]:
  "tick (Now, RInt u) t = u" "tick (Sleep d, x) t = t + max 0 d"
  "on_time (Now, RInt u) t \<longleftrightarrow> t < u" "on_time (Sleep d, x) t"
  by (simp_all add: tick_def on_time_def)

text \<open>An operation that is neither a reading of the clock nor a sleep leaves it alone.\<close>

fun timeless :: "op \<Rightarrow> bool" where
  "timeless Now = False"
| "timeless (Sleep d) = False"
| "timeless _ = True"

lemma tick_timeless [simp]: "timeless q \<Longrightarrow> tick (q, x) t = t" "timeless q \<Longrightarrow> on_time (q, x) t"
  by (cases q; simp add: tick_def on_time_def)+

lemma tick_ge: "on_time e t \<Longrightarrow> t \<le> tick e t"
  by (auto simp: tick_def on_time_def split: prod.split op.split resp.split)

lemma clocked_mono: "clocked t tr \<Longrightarrow> t' \<le> t \<Longrightarrow> clocked t' tr"
proof (induction tr arbitrary: t t')
  case (Cons e tr)
  have "on_time e t' \<and> tick e t' \<le> tick e t"
    using Cons.prems by (auto simp: tick_def on_time_def split: prod.split op.split resp.split)
  then show ?case using Cons by auto
qed simp

lemma clocked_step: "clocked t (e # tr) \<Longrightarrow> clocked t tr"
  using tick_ge [of e t] by (auto elim: clocked_mono)

lemma clocked_append: "clocked t (xs @ ys) \<Longrightarrow> clocked t xs \<and> clocked t ys"
proof (induction xs arbitrary: t)
  case (Cons e xs)
  then have "clocked (tick e t) xs" "clocked (tick e t) ys" "t \<le> tick e t" by (auto intro: tick_ge)
  then show ?case using Cons.prems by (auto elim: clocked_mono)
qed auto

text \<open>Every program has a run on such a clock.\<close>

lemma clocked_run: "\<exists>tr out. runs p tr out \<and> clocked t tr"
proof (induction p arbitrary: t)
  case (Op q k)
  have "\<exists>x. fits q x \<and> on_time (q, x) t"
  proof (cases "q = Now")
    case True
    then show ?thesis by (intro exI [of _ "RInt (t + 1)"]) simp
  next
    case False
    then have "on_time (q, x) t" for x by (cases q) (simp_all add: on_time_def)
    then show ?thesis using fits_ex by blast
  qed
  then obtain x where x: "fits q x" "on_time (q, x) t" by blast
  from Op [of "k x" "tick (q, x) t"] obtain tr out where "runs (k x) tr out" "clocked (tick (q, x) t) tr" by auto
  then have "runs (Op q k) ((q, x) # tr) out \<and> clocked t ((q, x) # tr)" using x by simp
  then show ?case by blast
qed (auto intro: exI [of _ "[]"])

section \<open>Programs that do not run out of turns\<close>

definition in_time :: "'a io \<Rightarrow> bool" where
  "in_time p \<longleftrightarrow> (\<forall>t tr. clocked t tr \<longrightarrow> \<not> runs p tr (Failed OutOfFuel))"

named_theorems in_time_intros \<open>composing programs that end\<close>

lemma in_timeI: "(\<And>t tr. clocked t tr \<Longrightarrow> runs p tr (Failed OutOfFuel) \<Longrightarrow> False) \<Longrightarrow> in_time p"
  unfolding in_time_def by blast

lemma in_timeD: "in_time p \<Longrightarrow> clocked t tr \<Longrightarrow> runs p tr out \<Longrightarrow> out \<noteq> Failed OutOfFuel"
  unfolding in_time_def by blast

lemma in_time_Ret [simp, in_time_intros]: "in_time (Ret x)"
  by (simp add: in_time_def)

lemma in_time_Fail [simp]: "in_time (Fail e) \<longleftrightarrow> e \<noteq> OutOfFuel"
  unfolding in_time_def by (auto intro: exI [of _ "[]"])

lemma in_time_Fatal [in_time_intros]: "in_time (Fail (Fatal m args))"
  by simp

lemma in_time_Panic [in_time_intros]: "in_time (Fail (Panic m))"
  by simp

lemma in_time_Op: "(\<And>x. in_time (k x)) \<Longrightarrow> in_time (Op q k)"
  unfolding in_time_def by (auto dest: clocked_step)

lemma in_time_bind [in_time_intros]:
  assumes "in_time p" "\<And>x. in_time (f x)"
  shows "in_time (bind p f)"
proof (rule in_timeI)
  fix t tr
  assume c: "clocked t tr" and r: "runs (bind p f) tr (Failed OutOfFuel)"
  from r show False
  proof (cases rule: runs_bindE)
    case (ok tr1 tr2 x)
    then show False using clocked_append [of t tr1 tr2] c assms(2) [of x] unfolding in_time_def by blast
  next
    case (fail e)
    then show False using c assms(1) unfolding in_time_def by auto
  qed
qed

lemma in_time_if [in_time_intros]:
  "(b \<Longrightarrow> in_time p) \<Longrightarrow> (\<not> b \<Longrightarrow> in_time q) \<Longrightarrow> in_time (if b then p else q)"
  by simp

lemma in_time_prod [in_time_intros]: "(\<And>x y. in_time (f x y)) \<Longrightarrow> in_time (case z of (x, y) \<Rightarrow> f x y)"
  by (cases z) simp

lemma in_time_Let [in_time_intros]: "in_time (f x) \<Longrightarrow> in_time (Let x f)"
  by simp

lemma in_time_forM [in_time_intros]: "(\<And>x. in_time (f x)) \<Longrightarrow> in_time (forM xs f)"
  by (induction xs) (auto intro: in_time_bind)

lemma in_time_ops [simp, in_time_intros]:
  "in_time (read32 r off)" "in_time (read8 r off)" "in_time (write32 r off v)" "in_time (write8 r off b)"
  "in_time (print m args)" "in_time now" "in_time (sleep d)" "in_time gosched"
  by (auto simp: io_defs split: resp.split intro!: in_time_Op)

lemma in_time_panics [simp, in_time_intros]:
  "in_time index_panic" "in_time slice_panic" "in_time nil_deref"
  by (simp_all add: index_panic_def slice_panic_def nil_deref_def)

section \<open>Loops with a deadline\<close>

text \<open>
  \<open>wait n p\<close> is the loop with \<open>n\<close> turns left, in a state \<open>p\<close> of its own.
\<close>

locale waiting =
  fixes wait :: "nat \<Rightarrow> 'p \<Rightarrow> 'a io" and limit :: int and gap :: int
  assumes turn: "runs (wait (Suc n) p) tr (Failed OutOfFuel) \<Longrightarrow> clocked t tr \<Longrightarrow>
      \<exists>p' t' tr'. runs (wait n p') tr' (Failed OutOfFuel) \<and> clocked t' tr' \<and> t + gap \<le> t' \<and> t' \<le> limit"
begin

lemma turns: "runs (wait n p) tr (Failed OutOfFuel) \<Longrightarrow> clocked t tr \<Longrightarrow> n = 0 \<or> t + gap * int n \<le> limit"
proof (induction n arbitrary: p tr t)
  case (Suc n)
  from turn [OF Suc.prems] obtain p' t' tr' where
    n: "runs (wait n p') tr' (Failed OutOfFuel)" "clocked t' tr'" "t + gap \<le> t'" "t' \<le> limit" by blast
  then have "n = 0 \<or> t' + gap * int n \<le> limit" by (intro Suc.IH)
  then show ?case using n(3,4) by (auto simp: algebra_simps)
qed simp

lemma enough: "clocked t tr \<Longrightarrow> runs (wait n p) tr out \<Longrightarrow> 0 < n \<Longrightarrow> limit < t + gap * int n \<Longrightarrow> out \<noteq> Failed OutOfFuel"
  using turns by fastforce

end

text \<open>A wait that begins by reading the clock and whose limit is \<open>d\<close> later.\<close>

lemma in_time_wait:
  assumes "\<And>t. waiting (w t) (t + d) gap" "\<And>t. in_time (pre t)" "\<And>t x y. in_time (post t x y)"
    and "0 < n" "d < gap * int n"
  shows "in_time (bind now (\<lambda>t. bind (pre t) (\<lambda>x. bind (w t n x) (post t x))))"
proof (rule in_timeI)
  fix t tr
  assume c: "clocked t tr" and "runs (bind now (\<lambda>t. bind (pre t) (\<lambda>x. bind (w t n x) (post t x)))) tr (Failed OutOfFuel)"
  then obtain u tr' where u: "clocked u tr'"
    "runs (bind (pre u) (\<lambda>x. bind (w u n x) (post u x))) tr' (Failed OutOfFuel)" by auto
  have over: False if "clocked u tr2" "runs (bind (w u n x) (post u x)) tr2 (Failed OutOfFuel)" for x tr2
    using that(2)
  proof (cases rule: runs_bindE)
    case (ok tr3 tr4 y)
    then show ?thesis using clocked_append [of u tr3 tr4] that(1) in_timeD [OF assms(3)] by blast
  next
    case (fail e)
    then show ?thesis using waiting.enough [OF assms(1) that(1) fail(1) assms(4)] assms(5) by simp
  qed
  from u(2) show False
  proof (cases rule: runs_bindE)
    case (ok tr1 tr2 x)
    then show False using over [of tr2 x] clocked_append u(1) by blast
  next
    case (fail e)
    then show False using in_timeD [OF assms(2) u(1)] by blast
  qed
qed

end
