(* ===== verification/AstCore.thy ===== *)
theory AstCore
  imports Regs P2A Waiting
begin

text \<open>
  The BMC handle and its control operations (ast/ast.go): stopping the BMC's processor with
  its watchdogs and host channels, restarting it through watchdog 1, the set of enabled I2C
  buses and their register blocks, the SPI controller report.

  A handle holds the regions mapped by \<open>New\<close>; every operation is a program over them.
\<close>

section \<open>Addresses: ast/ast\_defs.go\<close>

definition SCU_ADDR :: int where "SCU_ADDR = 0x1E6E2000"
definition WDT_ADDR :: int where "WDT_ADDR = 0x1E785000"
definition I2C_ADDR :: int where "I2C_ADDR = 0x1E78A000"
definition LPC_ADDR :: int where "LPC_ADDR = 0x1E789000"
definition FMC_ADDR :: int where "FMC_ADDR = 0x1E620000"
definition MAC0_ADDR :: int where "MAC0_ADDR = 0x1E660000"
definition MAC1_ADDR :: int where "MAC1_ADDR = 0x1E680000"
definition FMC_CE0CTL :: int where "FMC_CE0CTL = 0x10"
definition FMC_MEM :: int where "FMC_MEM = 0x20000000"
definition DRAM_ADDR :: int where "DRAM_ADDR = 0x80000000"
definition SCU_REVID :: int where "SCU_REVID = 0x7c"

section \<open>The handle\<close>

record AstHandle =
  scu :: region
  I2c :: region
  wdt :: region
  lpc :: region
  dram :: "region option"
  mac :: "region list"
  Family :: int
  ThisIsMe :: bool

record AstPrevState =
  rst70State :: u32
  wdt2Prev :: u32

definition AstFamily :: "region \<Rightarrow> int io" where
  "AstFamily r =
     bind (read32 r 0x4) (\<lambda>id0.
       bind (if drop_bit 24 id0 \<noteq> 0x05 then read32 r SCU_REVID else Ret id0) (\<lambda>astId.
         let id = astId AND NOT 0x0f0000
         in if id = 0x02000303 then Ret 24
            else if id = 0x04000303 then Ret 25
            else if id = 0x05000303 then Ret 26
            else Fail (Fatal ''Don't know how to reset chip with id: 0x%08x'' [AW astId])))"

section \<open>I2C buses\<close>

definition I2cEnabledSet :: "AstHandle \<Rightarrow> u32 io" where
  "I2cEnabledSet a =
     (if Family a = 26 then Ret (push_bit 3 1 + push_bit 2 1)
      else bind (read32 (scu a) 0x90) (\<lambda>scu90.
        let i2cEnabled = drop_bit 14 (scu90 AND 0xfff0000)
        in if 25 \<le> Family a
           then bind (read32 (scu a) 0xA4) (\<lambda>scuA4.
             Ret (i2cEnabled OR (drop_bit 14 (scuA4 AND 0x8000) + drop_bit 13 (scuA4 AND 0x2000))))
           else Ret (i2cEnabled OR 3)))"

definition I2cBase :: "AstHandle \<Rightarrow> int \<Rightarrow> int" where
  "I2cBase a i =
     (let off = (if 26 \<le> Family a then 0x80 else 0x40)
      in if 7 \<le> i \<and> Family a \<le> 25 then (i - 7) * off + 0x300
         else i * off + off)"

section \<open>Watchdogs\<close>

definition WDTn :: "AstHandle \<Rightarrow> int \<Rightarrow> int \<Rightarrow> u32 \<Rightarrow> unit io" where
  "WDTn a i off val =
     (if \<not> (1 \<le> i \<and> i \<le> 3) then Fail (Fatal ''Invalid WDT:%d'' [AI i])
      else let inc = (if 26 \<le> Family a then 0x40 else 0x20)
           in write32 (wdt a) (inc * (i - 1) + off) val)"

definition WDTctl :: "AstHandle \<Rightarrow> int \<Rightarrow> u32 \<Rightarrow> unit io" where
  "WDTctl a i val = WDTn a i 0xc val"

section \<open>Stopping\<close>

text \<open>The body of the loop over the 14 buses.\<close>

definition stop_bus :: "AstHandle \<Rightarrow> u32 \<Rightarrow> nat \<Rightarrow> unit io" where
  "stop_bus a i2cEnabled i =
     (let base = I2cBase a (int i)
      in if i2cEnabled AND push_bit i 1 \<noteq> 0
         then bind (read32 (I2c a) (base + 0)) (\<lambda>ctl.
           whenM (ctl \<noteq> 0)
             (seq (write32 (I2c a) (base + 0) 0)
               (seq (write32 (I2c a) (base + 0x14) 0)
                 (seq (read32 (I2c a) (base + 0x14)) (Ret ())))))
         else Ret ())"

definition stop_watchdogs :: "AstHandle \<Rightarrow> unit io" where
  "stop_watchdogs a =
     seq (WDTctl a 1 0) (seq (WDTctl a 2 0) (whenM (25 \<le> Family a) (WDTctl a 3 0)))"

definition stop_cpu :: "AstHandle \<Rightarrow> u32 io" where
  "stop_cpu a =
     (if 26 \<le> Family a
      then bind (read32 (scu a) 0x500) (\<lambda>st. seq (write32 (scu a) 0x500 (st OR 1)) (Ret st))
      else bind (read32 (scu a) 0x70) (\<lambda>st. seq (write32 (scu a) 0x70 (st OR 3)) (Ret st)))"

definition clear_watchdogs :: "AstHandle \<Rightarrow> unit io" where
  "clear_watchdogs a =
     seq (WDTctl a 1 0) (seq (WDTctl a 2 0) (seq (WDTn a 2 0x14 1)
       (seq (read32 (scu a) SCU_REVID)
         (whenM (25 \<le> Family a) (seq (WDTctl a 3 0) (WDTn a 3 0x14 1))))))"

definition stop_lpc :: "AstHandle \<Rightarrow> unit io" where
  "stop_lpc a =
     bind (read32 (lpc a) 0) (\<lambda>v. seq (write32 (lpc a) 0 (v AND NOT 0xec))
       (bind (read32 (lpc a) 0x10) (\<lambda>v. write32 (lpc a) 0x10 (v AND NOT 0x5))))"

definition AstStop :: "AstHandle \<Rightarrow> AstPrevState io" where
  "AstStop a =
     (if ThisIsMe a then Fail (Fatal ''Cannot execute op requiring ast soc stop on myself'' [])
      else seq (print ''Stopping AST'' [])
        (seq (write32 (scu a) 0 0x1688a8a8)
        (seq (read32 (scu a) 0x70)
        (bind (if Family a \<le> 25 then read32 (wdt a) 0x2c else Ret 0) (\<lambda>wdt2.
         seq (stop_watchdogs a)
        (bind (stop_cpu a) (\<lambda>rst70.
         seq (clear_watchdogs a)
        (bind (I2cEnabledSet a) (\<lambda>i2cEnabled.
         seq (forM [0..<14] (stop_bus a i2cEnabled))
        (seq (stop_lpc a)
         (Ret \<lparr>rst70State = rst70, wdt2Prev = wdt2\<rparr>)))))))))))"

section \<open>Restarting\<close>

definition restart_cpu :: "AstHandle \<Rightarrow> AstPrevState \<Rightarrow> unit io" where
  "restart_cpu a prev =
     (if Family a = 25
      then seq (write32 (scu a) 0x7c 0x3001) (write32 (scu a) 0x70 0x1000)
      else if Family a = 24 then write32 (scu a) 0x70 (rst70State prev)
      else if Family a = 26
      then seq (print ''scu500 := 0x%x'' [AW (rst70State prev)])
        (seq (write32 (scu a) 0x500 (rst70State prev)) (write32 (scu a) 0x504 1))
      else Ret ())"

definition reset_mask :: "config \<Rightarrow> u32 \<Rightarrow> u32" where
  "reset_mask cfg m = (if LpcReset cfg then m OR 0x00002000 else m)"

definition set_masks :: "config \<Rightarrow> AstHandle \<Rightarrow> unit io" where
  "set_masks cfg a =
     (if Family a = 25
      then seq (read32 (wdt a) 0x1c)
        (seq (print ''ResetMask=0x%08x'' [AW (reset_mask cfg 0x033fdff3)])
          (write32 (wdt a) 0x1c (reset_mask cfg 0x033fdff3)))
      else if Family a = 26
      then seq (read32 (wdt a) 0x1c)
        (seq (print ''ResetMask=0x%08x'' [AW (reset_mask cfg 0x030f1ff1)])
          (seq (write32 (wdt a) 0x1c (reset_mask cfg 0x030f1ff1))
            (write32 (wdt a) 0x20 0x03ffff1)))
      else Ret ())"

definition AstRestart :: "config \<Rightarrow> AstHandle \<Rightarrow> AstPrevState \<Rightarrow> unit io" where
  "AstRestart cfg a prev =
     seq (print ''Restarting AST'' [])
    (seq (write32 (scu a) 0 0x1688a8a8)
    (seq (restart_cpu a prev)
    (seq (set_masks cfg a)
    (seq (whenM (Family a \<le> 25) (WDTctl a 2 (wdt2Prev prev)))
    (seq (WDTn a 1 0x4 0x10)
    (seq (if SocReset cfg then write32 (wdt a) 0xc 0x33 else write32 (wdt a) 0xc 0x13)
      (WDTn a 1 0x8 0x4755)))))))"

definition AstReset :: "config \<Rightarrow> AstHandle \<Rightarrow> unit io" where
  "AstReset cfg a =
     bind (AstStop a) (\<lambda>prev.
       AstRestart cfg a
         (if rst70State prev AND 3 \<noteq> 2
          then prev\<lparr>rst70State := (rst70State prev AND NOT 3) OR 2\<rparr> else prev))"

definition AstResume :: "config \<Rightarrow> AstHandle \<Rightarrow> unit io" where
  "AstResume cfg a =
     bind (read32 (scu a) 0x70) (\<lambda>v.
       AstRestart cfg a \<lparr>rst70State = (v AND NOT 3) OR 2, wdt2Prev = 0x10\<rparr>)"

section \<open>Watching a bus\<close>

text \<open>
  \<open>AstI2c3Speed\<close> never returns; \<open>n\<close> is the number of turns of its loop that are run, after
  which it is out of fuel.
\<close>

fun AstI2c3Speed :: "nat \<Rightarrow> AstHandle \<Rightarrow> unit io" where
  "AstI2c3Speed 0 a = Fail OutOfFuel"
| "AstI2c3Speed (Suc n) a =
     bind (read32 (I2c a) 0x104) (\<lambda>ctl104.
       seq (if ctl104 AND 0xf = 5
            then let new = (ctl104 AND NOT 0xf) OR 0xb
                 in seq (write32 (I2c a) 0x104 new)
                   (print ''switch i2c[0x104] from 0x%#08x to 0x%#08x'' [AW ctl104, AW new])
            else Ret ())
         (seq gosched (AstI2c3Speed n a)))"

definition i2c3Enable :: u32 where "i2c3Enable = 0x20000"

text \<open>Times are nanoseconds. \<open>scu90\<close> is the last value read, 0 before the first turn.\<close>

fun disable_loop :: "nat \<Rightarrow> AstHandle \<Rightarrow> int \<Rightarrow> u32 \<Rightarrow> u32 io" where
  "disable_loop 0 a expire scu90 = Fail OutOfFuel"
| "disable_loop (Suc n) a expire scu90 =
     bind now (\<lambda>t. if expire < t then Ret scu90
       else bind (read32 (scu a) 0x90) (\<lambda>scu90.
         seq (if scu90 AND i2c3Enable = i2c3Enable
              then let new = scu90 AND NOT i2c3Enable
                   in seq (write32 (scu a) 0x90 new)
                     (print ''switch scu[0x90] from 0x%#08x to 0x%#08x'' [AW scu90, AW new])
              else Ret ())
           (seq (sleep 100000) (disable_loop n a expire scu90))))"

definition AstI2c3Disable :: "config \<Rightarrow> AstHandle \<Rightarrow> unit io" where
  "AstI2c3Disable cfg a =
     bind now (\<lambda>t0.
       bind (disable_loop (fuel cfg) a (t0 + 120000000000) 0) (\<lambda>scu90.
         if scu90 AND i2c3Enable \<noteq> 0 then print ''PMbus not disabled'' []
         else print ''PMbus is now disabled'' []))"

section \<open>Identification\<close>

text \<open>\<open>AstInfo\<close> after its mapping of the SCU.\<close>

definition chip_step :: "bool \<Rightarrow> u32 \<Rightarrow> u32" where
  "chip_step ast2600 chip =
     (let step = drop_bit 16 chip AND 0xff
      in if \<not> ast2600 then (if step = 3 then 2 else if step = 2 then 99 else step) else step)"

definition chip_name :: "u32 \<Rightarrow> string" where
  "chip_name chip =
     (if chip = 0x04000303 then ''2500'' else if chip = 0x02000303 then ''2400''
      else if chip = 0x04000103 then ''2510'' else if chip = 0x04000203 then ''2520''
      else if chip = 0x04000403 then ''2530'' else if chip = 0x05000303 then ''2600''
      else ''-unknown-'')"

definition AstInfo_of :: "region \<Rightarrow> (string \<times> int) io" where
  "AstInfo_of r =
     bind (read32 r 4) (\<lambda>id0.
       let ast2600 = (drop_bit 24 id0 = 0x05)
       in bind (if \<not> ast2600 then read32 r SCU_REVID else read32 r 0x14) (\<lambda>id.
         seq (print ''ast silicon rev id:0x%08x'' [AW id])
           (Ret (chip_name (id AND NOT 0xff0000), uint (chip_step ast2600 id)))))"

section \<open>The SPI controller\<close>

text \<open>Go's shifts by 32 or more give 0, as these do.\<close>

definition bit1 :: "u32 \<Rightarrow> u8 \<Rightarrow> u32" where
  "bit1 val pos = drop_bit (unat pos) val AND 1"

definition bits :: "u32 \<Rightarrow> u8 \<Rightarrow> u8 \<Rightarrow> u32" where
  "bits val pos num = drop_bit (unat pos) val AND (push_bit (unat num) 1 - 1)"

definition show_reg :: "region \<Rightarrow> Reg \<Rightarrow> unit io" where
  "show_reg spi r =
     bind (read32 spi (Off r)) (\<lambda>val.
       seq (forM (Fields r) (\<lambda>f.
             print ''%s.%s: 0x%x'' [AS (rName r), AS (fName f), AW (bits val (FirstBit f) (NumBits f))]))
         (whenM (Fields r = []) (print ''%s: 0x%x'' [AS (rName r), AW val])))"

text \<open>\<open>SpiInfo\<close> after its mapping of the controller.\<close>

definition SpiInfo_of :: "AstHandle \<Rightarrow> region \<Rightarrow> unit io" where
  "SpiInfo_of a spi =
     (if Family a \<noteq> 25 \<and> Family a \<noteq> 26 then print ''Only accept AST2[56]00'' []
      else bind (read32 spi 0) (\<lambda>fmc0. bind (read32 spi 0xa0) (\<lambda>fmcA0.
        seq (print ''spi0=0x%x, writable=%d filter=%d'' [AW fmc0, AW (bit1 fmc0 16), AW (bit1 fmcA0 0)])
       (bind (read32 spi 0xA0) (\<lambda>en.
        seq (print ''Enables=0x%x'' [AW en])
          (if fmc0 AND 3 \<noteq> 2 then Fail (Fatal ''FMC/CE0 !'' [])
           else bind (read32 spi 4) (\<lambda>fmc4.
             seq (print ''div2timings=%d addr_bytes=%d'' [AW (bit1 fmc4 8), AW (3 + bit1 fmc4 0)])
            (bind (read32 spi 0x10) (\<lambda>fmc10.
             seq (print ''iomode=0x%x cmd=0x%x'' [AW (bits fmc10 28 3), AW (bits fmc10 16 8)])
               (case spiRegs of Inl e \<Rightarrow> Fail e | Inr rs \<Rightarrow> forM rs (show_reg spi)))))))))))"

section \<open>Stop and restart as the SoC sees them\<close>

text \<open>
  What the writes ask of the chip: the SCU ignores writes until its key has been written to
  register 0; the boot strap (SCU70, or SCU500 on the AST2600) is plain on the AST2400 and
  set by writing ones, cleared by writing ones to SCU7C or SCU504, on the later chips; bit 0
  of a watchdog's control register arms it.
\<close>

record soc =
  unlocked :: bool
  strap :: u32
  armed :: "int \<Rightarrow> bool"
  reload :: "int \<Rightarrow> u32"
  kicked :: "int \<Rightarrow> bool"

definition scu_write :: "int \<Rightarrow> int \<Rightarrow> u32 \<Rightarrow> soc \<Rightarrow> soc" where
  "scu_write fam off v s =
     (if off = 0 then s\<lparr>unlocked := (v = 0x1688a8a8)\<rparr>
      else if \<not> unlocked s then s
      else if fam = 24 \<and> off = 0x70 then s\<lparr>strap := v\<rparr>
      else if fam = 25 \<and> off = 0x70 \<or> fam = 26 \<and> off = 0x500 then s\<lparr>strap := strap s OR v\<rparr>
      else if fam = 25 \<and> off = 0x7c \<or> fam = 26 \<and> off = 0x504 then s\<lparr>strap := strap s AND NOT v\<rparr>
      else s)"

definition wdt_write :: "int \<Rightarrow> int \<Rightarrow> u32 \<Rightarrow> soc \<Rightarrow> soc" where
  "wdt_write fam off v s =
     (let inc = (if fam = 26 then 0x40 else 0x20); n = off div inc + 1; reg = off mod inc
      in if reg = 0xc then s\<lparr>armed := (armed s)(n := v AND 1 = 1)\<rparr>
         else if reg = 0x4 then s\<lparr>reload := (reload s)(n := v)\<rparr>
         else if reg = 0x8 then s\<lparr>kicked := (kicked s)(n := v = 0x4755)\<rparr>
         else s)"

fun soc_step :: "AstHandle \<Rightarrow> soc monitor" where
  "soc_step a (Wr32 r off v) x s =
     (if r = scu a then scu_write (Family a) off v s
      else if r = wdt a then wdt_write (Family a) off v s else s)"
| "soc_step a q x s = s"

definition held :: "int \<Rightarrow> soc \<Rightarrow> bool" where
  "held fam s = (if fam = 26 then strap s AND 1 = 1 else strap s AND 3 = 3)"

definition disarmed :: "int \<Rightarrow> soc \<Rightarrow> bool" where
  "disarmed fam s \<longleftrightarrow> \<not> armed s 1 \<and> \<not> armed s 2 \<and> (25 \<le> fam \<longrightarrow> \<not> armed s 3)"

text \<open>No watchdog can fire while the processor is held.\<close>

definition soc_ok :: "AstHandle \<Rightarrow> soc \<Rightarrow> bool" where
  "soc_ok a s \<longleftrightarrow> (held (Family a) s \<longrightarrow> disarmed (Family a) s)"

definition handle_ok :: "AstHandle \<Rightarrow> bool" where
  "handle_ok a \<longleftrightarrow> Family a \<in> {24, 25, 26} \<and> distinct [scu a, I2c a, wdt a, lpc a]"

lemma and_3_or:
  "(x OR 3) AND 3 = (3 :: u32)" "(x OR (y OR 3)) AND 3 = (3 :: u32)"
  "(x OR 1) AND 1 = (1 :: u32)" "(x OR (y OR 1)) AND 1 = (1 :: u32)"
  by (simp_all add: bit.conj_disj_distrib2 bit_eq_iff bit_simps)

lemma soc_I2c [simp]: "handle_ok a \<Longrightarrow> soc_step a (Wr32 (I2c a) off v) x s = s"
  by (auto simp: handle_ok_def)

lemma soc_lpc [simp]: "handle_ok a \<Longrightarrow> soc_step a (Wr32 (lpc a) off v) x s = s"
  by (auto simp: handle_ok_def)

lemma soc_scu [simp]: "soc_step a (Wr32 (scu a) off v) x s = scu_write (Family a) off v s"
  by simp

lemma soc_wdt [simp]: "handle_ok a \<Longrightarrow> soc_step a (Wr32 (wdt a) off v) x s = wdt_write (Family a) off v s"
  by (auto simp: handle_ok_def)

declare soc_step.simps(1) [simp del]

lemma wp_WDTn [simp]:
  assumes "handle_ok a" "1 \<le> i" "i \<le> 3" "0 \<le> off" "off < 0x20"
  shows "wp (soc_step a) ok (WDTn a i off v) Q s \<longleftrightarrow>
    (let s' = (if off = 0xc then s\<lparr>armed := (armed s)(i := v AND 1 = 1)\<rparr>
       else if off = 0x4 then s\<lparr>reload := (reload s)(i := v)\<rparr>
       else if off = 0x8 then s\<lparr>kicked := (kicked s)(i := v = 0x4755)\<rparr> else s)
     in ok s' \<and> Q () s')"
proof -
  define inc :: int where "inc = (if Family a = 26 then 0x40 else 0x20)"
  have inc: "(if 26 \<le> Family a then 0x40 else 0x20) = inc" "off < inc"
    using assms by (auto simp: handle_ok_def inc_def)
  have d: "(inc * (i - 1) + off) div inc + 1 = i" "(inc * (i - 1) + off) mod inc = off"
    using assms(4) inc(2) by simp_all
  have "wdt_write (Family a) (inc * (i - 1) + off) v s =
    (if off = 0xc then s\<lparr>armed := (armed s)(i := v AND 1 = 1)\<rparr>
     else if off = 0x4 then s\<lparr>reload := (reload s)(i := v)\<rparr>
     else if off = 0x8 then s\<lparr>kicked := (kicked s)(i := v = 0x4755)\<rparr> else s)"
    unfolding wdt_write_def inc_def [symmetric] Let_def d by simp
  then show ?thesis
    unfolding WDTn_def inc Let_def using assms(1,2,3) by simp
qed

lemma wp_stop_bus:
  assumes "handle_ok a" "ok s"
  shows "wp (soc_step a) ok (stop_bus a en i) (\<lambda>_ s'. s' = s) s"
  using assms by (simp add: stop_bus_def Let_def wp_bind)

lemma wp_stop:
  assumes "handle_ok a" "\<not> held (Family a) s"
  shows "wp (soc_step a) (soc_ok a) (AstStop a)
    (\<lambda>_ s'. unlocked s' \<and> held (Family a) s' \<and> disarmed (Family a) s'
       \<and> (Family a = 25 \<longrightarrow> strap s' AND 3 = 3)) s"
proof -
  have buses: "wp (soc_step a) (soc_ok a) (forM [0..<14] (stop_bus a en)) Q s'"
    if "soc_ok a s'" "Q () s'" for en Q s'
    using that by (intro wp_forM [where I = "\<lambda>t. t = s'"]) (auto intro: wp_stop_bus assms(1))
  have f: "Family a = 24 \<or> Family a = 25 \<or> Family a = 26"
    using assms(1) by (auto simp: handle_ok_def)
  then show ?thesis
    using assms
    by (elim disjE)
      (simp_all add: AstStop_def stop_watchdogs_def stop_cpu_def clear_watchdogs_def WDTctl_def
        stop_lpc_def wp_bind I2cEnabledSet_def scu_write_def soc_ok_def held_def disarmed_def
        and_3_or Let_def,
       (intro impI allI buses; simp add: scu_write_def soc_ok_def held_def disarmed_def
        and_3_or wp_bind)+)
qed

lemma three_and_one: "(3 :: u32) AND 1 = 1"
  by simp

lemma wp_restart:
  assumes "handle_ok a" "soc_ok a s" "rst70State prev AND 3 = 2"
  shows "wp (soc_step a) (soc_ok a) (AstRestart cfg a prev)
    (\<lambda>_ s'. \<not> held (Family a) s' \<and> armed s' 1 \<and> reload s' 1 = 0x10 \<and> kicked s' 1) s"
proof -
  have f: "Family a = 24 \<or> Family a = 25 \<or> Family a = 26"
    using assms(1) by (auto simp: handle_ok_def)
  have b: "(x AND NOT 0x3001) AND 3 \<noteq> (3 :: u32)" "(x OR 0x1000) AND 3 = x AND (3 :: u32)"
     "(x AND NOT 1) AND 1 \<noteq> (1 :: u32)" for x
  proof -
    have "(x AND NOT 0x3001) AND 3 = x AND 2" by (simp add: and.assoc)
    moreover have "(x AND 2) AND 1 = 0" by (simp add: and.assoc)
    ultimately show "(x AND NOT 0x3001) AND 3 \<noteq> (3 :: u32)"
      by (metis (no_types, lifting) three_and_one zero_neq_one)
  qed (simp_all add: bit.conj_disj_distrib2 and.assoc)
  have "rst70State prev AND 1 = (rst70State prev AND 3) AND 1" by (simp add: and.assoc)
  then have r: "(x OR rst70State prev) AND 1 = x AND 1" for x
    using assms(3) by (simp add: bit.conj_disj_distrib2)
  show ?thesis
    using f assms
    by (elim disjE)
      (simp_all add: r b [simplified] AstRestart_def restart_cpu_def set_masks_def WDTctl_def wp_bind
        scu_write_def wdt_write_def soc_ok_def held_def disarmed_def Let_def b)
qed


lemma wp_reset:
  assumes "handle_ok a" "\<not> held (Family a) s"
  shows "wp (soc_step a) (soc_ok a) (AstReset cfg a)
    (\<lambda>_ s'. \<not> held (Family a) s' \<and> armed s' 1 \<and> reload s' 1 = 0x10 \<and> kicked s' 1) s"
  unfolding AstReset_def
proof (rule wp_bindI [OF wp_stop [OF assms]])
  fix prev :: AstPrevState and s'
  assume s': "unlocked s' \<and> held (Family a) s' \<and> disarmed (Family a) s'
    \<and> (Family a = 25 \<longrightarrow> strap s' AND 3 = 3)"
  let ?p = "if rst70State prev AND 3 \<noteq> 2 then prev\<lparr>rst70State := (rst70State prev AND NOT 3) OR 2\<rparr>
    else prev"
  have "((x AND NOT 3) OR 2) AND 3 = (2 :: u32)" for x
    by (simp add: bit.conj_disj_distrib2 and.assoc)
  then have "rst70State ?p AND 3 = 2" by simp
  then show "wp (soc_step a) (soc_ok a) (AstRestart cfg a ?p)
    (\<lambda>_ s'. \<not> held (Family a) s' \<and> armed s' 1 \<and> reload s' 1 = 0x10 \<and> kicked s' 1) s'"
    using s' by (intro wp_restart assms) (simp_all add: soc_ok_def)
qed

text \<open>
  Property C2: resetting the BMC. At every moment of the sequence, also when it is cut short,
  a processor that is held has its watchdogs disarmed, so none of them can restart it behind
  the program's back; when the sequence is complete, the processor is released and watchdog 1
  has been armed, loaded with 0x10 and started, which is what performs the reset.
\<close>

theorem AstReset_order:
  assumes "handle_ok a" "\<not> held (Family a) s" "runs (AstReset cfg a) tr out"
  shows "(\<forall>n. let s' = track (soc_step a) (take n tr) s
              in held (Family a) s' \<longrightarrow> disarmed (Family a) s') \<and>
    (\<forall>x. out = Done x \<longrightarrow> (let s' = track (soc_step a) tr s
              in \<not> held (Family a) s' \<and> armed s' 1 \<and> reload s' 1 = 0x10 \<and> kicked s' 1))"
proof -
  have "soc_ok a s" using assms(2) by (simp add: soc_ok_def)
  from wp_track [OF wp_reset [OF assms(1,2)] this assms(3)] show ?thesis
    by (simp add: soc_ok_def Let_def)
qed

text \<open>
  Property C7: stopping the BMC from another machine leaves its processor held, every watchdog
  of its family disarmed, and the SCU unlocked; no prefix of the sequence holds the processor
  with a watchdog armed. Run on the BMC itself it stops before any register is touched.
\<close>

theorem AstStop_stops:
  assumes "handle_ok a" "\<not> held (Family a) s" "runs (AstStop a) tr out"
  shows "(ThisIsMe a \<longrightarrow> tr = [] \<and> (\<exists>m. out = Failed (Fatal m []))) \<and>
    (\<forall>n. let s' = track (soc_step a) (take n tr) s
          in held (Family a) s' \<longrightarrow> disarmed (Family a) s') \<and>
    (\<forall>prev. out = Done prev \<longrightarrow> (let s' = track (soc_step a) tr s
          in held (Family a) s' \<and> disarmed (Family a) s' \<and> unlocked s'))"
proof -
  have "soc_ok a s" using assms(2) by (simp add: soc_ok_def)
  from wp_track [OF wp_stop [OF assms(1,2)] this assms(3)] assms(3) show ?thesis
    by (auto simp: soc_ok_def Let_def AstStop_def)
qed

section \<open>Buses and their register blocks\<close>

definition scu90_set :: "u32 \<Rightarrow> u32" where
  "scu90_set v = drop_bit 14 (v AND 0xfff0000)"

definition scuA4_set :: "u32 \<Rightarrow> u32" where
  "scuA4_set v = drop_bit 14 (v AND 0x8000) + drop_bit 13 (v AND 0x2000)"

lemmas I2cEnabledSet_alt = I2cEnabledSet_def [folded scu90_set_def scuA4_set_def, unfolded Let_def]

lemma bit_scu90: "bit (scu90_set v) i \<longleftrightarrow> 2 \<le> i \<and> i \<le> 13 \<and> bit v (i + 14)"
proof -
  have m: "(0xfff0000 :: u32) = push_bit 16 (mask 12)" by (simp add: mask_eq_exp_minus_1)
  show ?thesis unfolding scu90_set_def m by (auto simp: bit_simps add.commute)
qed

lemma bit_scuA4:
  "bit (scuA4_set v) i
     \<longleftrightarrow> i = 1 \<and> bit v 15 \<or> i = 0 \<and> bit v 13"
proof -
  have m: "(0x8000 :: u32) = push_bit 15 (mask 1)" "(0x2000 :: u32) = push_bit 13 (mask 1)"
    by (simp_all add: mask_eq_exp_minus_1)
  have "drop_bit 14 (v AND 0x8000) + drop_bit 13 (v AND 0x2000)
      = drop_bit 14 (v AND 0x8000) OR drop_bit 13 (v AND 0x2000)"
    unfolding m by (rule disjunctive_add) (auto simp: bit_simps)
  then show ?thesis unfolding scuA4_set_def m by (auto simp: bit_simps)
qed

text \<open>The pins of bus \<open>i\<close> are enabled, in terms of the bits of SCU90 and SCUA4.\<close>

definition pins_enabled :: "int \<Rightarrow> u32 \<Rightarrow> u32 \<Rightarrow> nat \<Rightarrow> bool" where
  "pins_enabled fam scu90 scuA4 i =
     (if fam = 26 then i = 2 \<or> i = 3
      else if 2 \<le> i then i \<le> 13 \<and> bit scu90 (i + 14)
      else if 25 \<le> fam then (if i = 1 then bit scuA4 15 else bit scuA4 13)
      else True)"

text \<open>
  The set of enabled buses has exactly the bits the chip's pin registers say,
  bus by bus, all of them below the 14 buses the stop sequence visits.
\<close>

lemma I2cEnabledSet_bits:
  assumes "runs (I2cEnabledSet a) tr (Done v)"
  shows "\<exists>scu90 scuA4. set tr \<subseteq> {(Rd32 (scu a) 0x90, RU32 scu90), (Rd32 (scu a) 0xA4, RU32 scuA4)}
    \<and> (\<forall>i. bit v i \<longleftrightarrow> i < 14 \<and> pins_enabled (Family a) scu90 scuA4 i)"
proof -
  have two: "bit (2 :: u32) i \<longleftrightarrow> i = 1" "bit (3 :: u32) i \<longleftrightarrow> i = 0 \<or> i = 1"
    "bit (12 :: u32) i \<longleftrightarrow> i = 2 \<or> i = 3" for i
  proof -
    have m: "(2 :: u32) = push_bit 1 (mask 1)" "(3 :: u32) = mask 2" "(12 :: u32) = push_bit 2 (mask 2)"
      by (simp_all add: mask_eq_exp_minus_1)
    show "bit (2 :: u32) i \<longleftrightarrow> i = 1" unfolding m by (auto simp: bit_simps)
    show "bit (3 :: u32) i \<longleftrightarrow> i = 0 \<or> i = 1" unfolding m by (auto simp: bit_simps)
    show "bit (12 :: u32) i \<longleftrightarrow> i = 2 \<or> i = 3" unfolding m by (auto simp: bit_simps)
  qed
  consider "Family a = 26" | "25 \<le> Family a" "Family a \<noteq> 26" | "Family a < 25"
    by linarith
  then show ?thesis
  proof cases
    case 1
    then have "tr = []" "v = 12" using assms by (simp_all add: I2cEnabledSet_alt)
    then show ?thesis using 1 by (auto simp: pins_enabled_def two simp del: bit_numeral_word_iff)
  next
    case 2
    then obtain x y where "tr = [(Rd32 (scu a) 0x90, RU32 x), (Rd32 (scu a) 0xA4, RU32 y)]"
        "v = scu90_set x OR scuA4_set y"
      using assms by (auto simp: I2cEnabledSet_alt)
    then show ?thesis
      using 2 by (intro exI [of _ x] exI [of _ y]) (auto simp: pins_enabled_def bit_or_iff bit_scu90 bit_scuA4)
  next
    case 3
    then obtain x where "tr = [(Rd32 (scu a) 0x90, RU32 x)]" "v = scu90_set x OR 3"
      using assms by (auto simp: I2cEnabledSet_alt)
    then show ?thesis
      using 3 by (intro exI [of _ x]) (auto simp: pins_enabled_def bit_or_iff bit_scu90 two simp del: bit_numeral_word_iff)
  qed
qed

text \<open>
  The register blocks of the 14 buses are inside the 4096 bytes of the I2C
  controller, start after its global registers and do not overlap.
\<close>

lemma I2cBase_disjoint:
  assumes "0 \<le> i" "i < j" "j < 14"
  shows "0x40 \<le> I2cBase a i \<and> I2cBase a i + 0x40 \<le> 4096 \<and>
    (I2cBase a i + 0x40 \<le> I2cBase a j \<or> I2cBase a j + 0x40 \<le> I2cBase a i)"
  using assms by (auto simp: I2cBase_def Let_def)

section \<open>Chip identification\<close>

definition name_of_family :: "int \<Rightarrow> string" where
  "name_of_family f = (if f = 24 then ''2400'' else if f = 25 then ''2500'' else ''2600'')"

lemma masked_id:
  assumes "x AND NOT 0x0f0000 = (y :: u32)" "y AND NOT 0xff0000 = y"
  shows "x AND NOT 0xff0000 = y"
proof -
  have "NOT 0xff0000 = (NOT 0x0f0000 AND NOT 0xff0000 :: u32)" by simp
  then show ?thesis using assms by (metis and.assoc)
qed

lemma AstFamily_cases:
  assumes "runs (AstFamily r) tr (Done fam)"
  obtains (first) id0 where "tr = [(Rd32 r 4, RU32 id0)]" "drop_bit 24 id0 = 5"
      "fam = 24 \<and> id0 AND NOT 0x0f0000 = 0x02000303 \<or> fam = 25 \<and> id0 AND NOT 0x0f0000 = 0x04000303
       \<or> fam = 26 \<and> id0 AND NOT 0x0f0000 = 0x05000303"
    | (second) id0 rev where "tr = [(Rd32 r 4, RU32 id0), (Rd32 r SCU_REVID, RU32 rev)]"
      "drop_bit 24 id0 \<noteq> 5"
      "fam = 24 \<and> rev AND NOT 0x0f0000 = 0x02000303 \<or> fam = 25 \<and> rev AND NOT 0x0f0000 = 0x04000303
       \<or> fam = 26 \<and> rev AND NOT 0x0f0000 = 0x05000303"
  using assms by (auto simp: AstFamily_def Let_def simp del: bit.conj_cancel_left split: if_splits)

lemma AstInfo_cases:
  assumes "runs (AstInfo_of r) tr (Done (name, step))"
  obtains (old) id0 rev where "(Rd32 r 4, RU32 id0) \<in> set tr" "drop_bit 24 id0 \<noteq> 5"
      "(Rd32 r SCU_REVID, RU32 rev) \<in> set tr" "name = chip_name (rev AND NOT 0xff0000)"
    | (new) id0 rev where "(Rd32 r 4, RU32 id0) \<in> set tr" "drop_bit 24 id0 = 5"
      "(Rd32 r 0x14, RU32 rev) \<in> set tr" "name = chip_name (rev AND NOT 0xff0000)"
  using assms by (auto simp: AstInfo_of_def Let_def SCU_REVID_def split: if_splits)

lemma family_name:
  assumes "fam = 24 \<and> x AND NOT 0x0f0000 = 0x02000303 \<or> fam = 25 \<and> x AND NOT 0x0f0000 = 0x04000303
       \<or> fam = 26 \<and> x AND NOT 0x0f0000 = (0x05000303 :: u32)"
  shows "chip_name (x AND NOT 0xff0000) = name_of_family fam"
  using assms masked_id [of x "0x02000303"] masked_id [of x "0x04000303"] masked_id [of x "0x05000303"]
  by (auto simp: chip_name_def name_of_family_def)

lemma top_byte:
  assumes "x AND NOT 0x0f0000 = (y :: u32)"
  shows "drop_bit 24 x = drop_bit 24 y"
proof -
  have "drop_bit 24 y = drop_bit 24 x AND drop_bit 24 (NOT 0x0f0000)"
    using assms by (metis drop_bit_and)
  also have "drop_bit 24 (NOT 0x0f0000) = (mask 8 :: u32)" by (simp add: mask_eq_exp_minus_1)
  also have "drop_bit 24 x AND mask 8 = drop_bit 24 x"
    by (rule bit_eqI) (auto simp: bit_simps dest: bit_imp_le_length)
  finally show ?thesis ..
qed

text \<open>
  On the same silicon \<open>AstFamily\<close> and \<open>AstInfo\<close> agree: a chip accepted for one of
  the three families is reported under that family's name, unless it announces itself as an
  AST2600 in its first register, where \<open>AstInfo\<close> goes by the second one.
\<close>

lemma family_matches_info:
  assumes "runs (AstFamily r) tr (Done fam)" "runs (AstInfo_of r) tr' (Done (name, step))"
    and same: "\<forall>q x x'. (q, x) \<in> set tr \<and> (q, x') \<in> set tr' \<longrightarrow> x = x'"
  shows "name = name_of_family fam \<or>
    (fam = 26 \<and> (\<exists>rev. (Rd32 r 0x14, RU32 rev) \<in> set tr' \<and> name = chip_name (rev AND NOT 0xff0000)))"
  using assms(1)
proof (cases rule: AstFamily_cases)
  case (first id0)
  then have five: "drop_bit 24 id0 = 5" "fam = 26"
    using top_byte [of id0 "0x02000303"] top_byte [of id0 "0x04000303"] by auto
  from assms(2) show ?thesis
  proof (cases rule: AstInfo_cases)
    case (old id1 rev)
    then have "id1 = id0"
      using same [rule_format, of "Rd32 r 4" "RU32 id0" "RU32 id1"] first(1) by simp
    then show ?thesis using old(2) first(2) by simp
  next
    case (new id1 rev)
    then show ?thesis using five by blast
  qed
next
  case (second id0 rev)
  from assms(2) show ?thesis
  proof (cases rule: AstInfo_cases)
    case (old id1 rev')
    then have "rev' = rev"
      using same [rule_format, of "Rd32 r SCU_REVID" "RU32 rev" "RU32 rev'"] second(1) by simp
    then show ?thesis using old family_name [OF second(3)] by simp
  next
    case (new id1 rev')
    then have "id1 = id0"
      using same [rule_format, of "Rd32 r 4" "RU32 id0" "RU32 id1"] second(1) by simp
    then show ?thesis using new(2) second(2) by simp
  qed
qed

section \<open>Waiting for the PMbus\<close>

lemma disable_turn:
  assumes "runs (disable_loop (Suc n) a expire v) tr out"
  obtains (over) t where "expire < t" "tr = [(Now, RInt t)]" "out = Done v"
    | (turn) t w tr1 tr2 where "t \<le> expire" "\<And>u. clocked u (tr1 @ tr2) \<Longrightarrow> clocked (u + 100000) tr2"
      "tr = (Now, RInt t) # (Rd32 (scu a) 0x90, RU32 w) # tr1 @ tr2"
      "tr1 = (if w AND i2c3Enable = i2c3Enable
         then [(Wr32 (scu a) 0x90 (w AND NOT i2c3Enable), RUnit),
           (Print ''switch scu[0x90] from 0x%#08x to 0x%#08x'' [AW w, AW (w AND NOT i2c3Enable)], RUnit)]
         else []) @ [(Sleep 100000, RUnit)]"
      "runs (disable_loop n a expire w) tr2 out"
proof -
  obtain t tr' where t: "tr = (Now, RInt t) # tr'"
      "runs (if expire < t then Ret v
       else bind (read32 (scu a) 0x90) (\<lambda>scu90.
         seq (if scu90 AND i2c3Enable = i2c3Enable
              then let new = scu90 AND NOT i2c3Enable
                   in seq (write32 (scu a) 0x90 new)
                     (print ''switch scu[0x90] from 0x%#08x to 0x%#08x'' [AW scu90, AW new])
              else Ret ())
           (seq (sleep 100000) (disable_loop n a expire scu90)))) tr' out"
    using assms by auto
  show thesis
  proof (cases "expire < t")
    case True
    then show thesis using t over [of t] by simp
  next
    case False
    then obtain w tr'' where w: "tr' = (Rd32 (scu a) 0x90, RU32 w) # tr''"
        "runs (seq (if w AND i2c3Enable = i2c3Enable
              then let new = w AND NOT i2c3Enable
                   in seq (write32 (scu a) 0x90 new)
                     (print ''switch scu[0x90] from 0x%#08x to 0x%#08x'' [AW w, AW new])
              else Ret ()) (seq (sleep 100000) (disable_loop n a expire w))) tr'' out"
      using t(2) by auto
    show thesis
    proof (cases "w AND i2c3Enable = i2c3Enable")
      case True
      let ?tr1 = "[(Wr32 (scu a) 0x90 (w AND NOT i2c3Enable), RUnit),
          (Print ''switch scu[0x90] from 0x%#08x to 0x%#08x'' [AW w, AW (w AND NOT i2c3Enable)], RUnit),
          (Sleep 100000, RUnit)]"
      from True obtain tr2 where "tr'' = ?tr1 @ tr2"
          "runs (disable_loop n a expire w) tr2 out"
        using w(2) by (auto simp: Let_def)
      then show thesis using t(1) w(1) False True by (intro turn [of t ?tr1 tr2 w]) simp_all
    next
      case no: False
      then obtain tr2 where "tr'' = [(Sleep 100000, RUnit)] @ tr2" "runs (disable_loop n a expire w) tr2 out"
        using w(2) by auto
      then show thesis using t(1) w(1) False no by (intro turn [of t "[(Sleep 100000, RUnit)]" tr2 w]) simp_all
    qed
  qed
qed

interpretation disable: waiting "\<lambda>n. disable_loop n a expire" "expire + 100000" 100001 for a expire
proof
  fix n v tr t
  assume "runs (disable_loop (Suc n) a expire v) tr (Failed OutOfFuel)" "clocked t tr"
  then show "\<exists>v' t' tr'. runs (disable_loop n a expire v') tr' (Failed OutOfFuel) \<and> clocked t' tr' \<and>
      t + 100001 \<le> t' \<and> t' \<le> expire + 100000"
  proof (cases rule: disable_turn)
    case (turn u w tr1 tr2)
    with \<open>clocked t tr\<close> have "clocked (u + 100000) tr2" "t < u" by (simp_all add: tick_def on_time_def)
    then show ?thesis using turn by (intro exI [of _ w] exI [of _ "u + 100000"] exI [of _ tr2]) simp
  qed simp
qed

text \<open>
  A turn of the loop at time \<open>t\<close>: the register is read, and if its bit 17 is set, written back at
  once with that bit cleared and all the others as they were read.
\<close>

definition poll_turn :: "region \<Rightarrow> int \<Rightarrow> u32 \<Rightarrow> event list" where
  "poll_turn r t w =
     [(Now, RInt t), (Rd32 r 0x90, RU32 w)] @
     (if bit w 17
      then [(Wr32 r 0x90 (unset_bit 17 w), RUnit),
        (Print ''switch scu[0x90] from 0x%#08x to 0x%#08x'' [AW w, AW (unset_bit 17 w)], RUnit)]
      else []) @
     [(Sleep 100000, RUnit)]"

lemma enable_bit: "w AND i2c3Enable = (if bit w 17 then i2c3Enable else 0)" "i2c3Enable \<noteq> 0"
  "w AND NOT i2c3Enable = unset_bit 17 w"
proof -
  have e: "i2c3Enable = 2 ^ 17" by (simp add: i2c3Enable_def)
  have b: "bit i2c3Enable n \<longleftrightarrow> n = 17" for n
    unfolding e bit_exp_iff by auto
  show "w AND i2c3Enable = (if bit w 17 then i2c3Enable else 0)"
    by (rule bit_word_eqI) (auto simp: bit_and_iff b)
  show "w AND NOT i2c3Enable = unset_bit 17 w"
    by (rule bit_word_eqI) (auto simp: bit_and_iff bit_not_iff bit_unset_bit_iff b)
qed (simp add: i2c3Enable_def)

lemma disable_loop_trace:
  assumes "runs (disable_loop n a expire v) tr (Done v')"
  shows "\<exists>ps t1. tr = concat (map (\<lambda>(t, w). poll_turn (scu a) t w) ps) @ [(Now, RInt t1)] \<and>
     (\<forall>(t, w) \<in> set ps. t \<le> expire) \<and> expire < t1 \<and> v' = (if ps = [] then v else snd (last ps))"
  using assms
proof (induction n arbitrary: v tr)
  case (Suc n)
  from Suc.prems show ?case
  proof (cases rule: disable_turn)
    case (over t)
    then show ?thesis by (intro exI [of _ "[]"] exI [of _ t]) simp
  next
    case (turn t w tr1 tr2)
    from Suc.IH [OF turn(5)] obtain ps t1 where ps: "tr2 = concat (map (\<lambda>(t, w). poll_turn (scu a) t w) ps) @ [(Now, RInt t1)]"
      "\<forall>(t, w) \<in> set ps. t \<le> expire" "expire < t1" "v' = (if ps = [] then w else snd (last ps))" by blast
    have "tr = poll_turn (scu a) t w @ tr2"
      using turn(3,4) by (simp add: poll_turn_def enable_bit)
    then show ?thesis using ps turn(1) by (intro exI [of _ "(t, w) # ps"] exI [of _ t1]) auto
  qed
qed simp

lemma disable_loop_fails: "runs (disable_loop n a expire v) tr (Failed e) \<Longrightarrow> e = OutOfFuel"
proof (induction n arbitrary: v tr)
  case (Suc n)
  from Suc.prems show ?case by (cases rule: disable_turn) (auto dest: Suc.IH)
qed simp

text \<open>
  Property C37: on any clock that moves on, disabling the PMbus returns: 1200001 turns outlast the
  two minutes. It polls the register until the two minutes are over, not less; it writes only
  right after a read with the enable bit set, the value just read with that bit cleared and nothing
  else changed; and it does so after every such read. The message tells the last value read.
\<close>

theorem AstI2c3Disable_returns:
  assumes "runs (AstI2c3Disable cfg a) tr out" "clocked t tr" "1200001 \<le> fuel cfg"
  shows "out = Done () \<and> (\<exists>t0 ps t1.
     tr = (Now, RInt t0) # concat (map (\<lambda>(t, w). poll_turn (scu a) t w) ps) @
       [(Now, RInt t1),
        (Print (if ps \<noteq> [] \<and> bit (snd (last ps)) 17 then ''PMbus not disabled'' else ''PMbus is now disabled'') [], RUnit)] \<and>
     (\<forall>(t, w) \<in> set ps. t \<le> t0 + 120000000000) \<and> t0 + 120000000000 < t1)"
proof -
  obtain t0 tr' where tr: "tr = (Now, RInt t0) # tr'"
      "runs (bind (disable_loop (fuel cfg) a (t0 + 120000000000) 0) (\<lambda>scu90.
         if scu90 AND i2c3Enable \<noteq> 0 then print ''PMbus not disabled'' []
         else print ''PMbus is now disabled'' [])) tr' out"
    using assms(1) by (auto simp: AstI2c3Disable_def)
  from tr(2) show ?thesis
  proof (cases rule: runs_bindE)
    case (ok tr1 tr2 v)
    from disable_loop_trace [OF ok(1)] obtain ps t1 where
      ps: "tr1 = concat (map (\<lambda>(t, w). poll_turn (scu a) t w) ps) @ [(Now, RInt t1)]"
        "\<forall>(t, w) \<in> set ps. t \<le> t0 + 120000000000" "t0 + 120000000000 < t1" "v = (if ps = [] then 0 else snd (last ps))"
      by blast
    have "out = Done ()" and "tr2 = [(Print (if ps \<noteq> [] \<and> bit (snd (last ps)) 17 then ''PMbus not disabled''
        else ''PMbus is now disabled'') [], RUnit)]"
      using ok(2) ps(4) by (auto simp: enable_bit split: if_splits)
    then show ?thesis
      using ps tr(1) ok(3) by (intro conjI exI [of _ t0] exI [of _ ps] exI [of _ t1]) auto
  next
    case (fail e)
    have "clocked t0 tr'" using assms(2) tr(1) by simp
    from disable.enough [OF this fail(1)] disable_loop_fails [OF fail(1)] assms(3) show ?thesis by simp
  qed
qed

end
