(* ===== verification/AstBridge.thy ===== *)
theory AstBridge
  imports AstCore
begin

text \<open>
  The composition of the BMC operations with the PCI bridge: the handle \<open>New\<close> builds on a host,
  and the proof that the stop and restart sequences stay where the bridge is faithful.
\<close>

section \<open>The handle of a host\<close>

text \<open>
  The regions \<open>New\<close> maps when the program runs on the host: each 4096 bytes of the BMC's bus,
  reached through the bridge.
\<close>

definition host_handle :: "int \<Rightarrow> AstHandle" where
  "host_handle fam = \<lparr>scu = AstMem [] SCU_ADDR 4096, I2c = AstMem [] I2C_ADDR 4096,
     wdt = AstMem [] WDT_ADDR 4096, lpc = AstMem [] LPC_ADDR 4096, dram = None,
     mac = [AstMem [] MAC0_ADDR 4096, AstMem [] MAC1_ADDR 4096], Family = fam, ThisIsMe = False\<rparr>"

lemma host_handle_sel [simp]:
  "scu (host_handle fam) = AstMem [] SCU_ADDR 4096" "I2c (host_handle fam) = AstMem [] I2C_ADDR 4096"
  "wdt (host_handle fam) = AstMem [] WDT_ADDR 4096" "lpc (host_handle fam) = AstMem [] LPC_ADDR 4096"
  "Family (host_handle fam) = fam" "ThisIsMe (host_handle fam) = False"
  "mac (host_handle fam) = [AstMem [] MAC0_ADDR 4096, AstMem [] MAC1_ADDR 4096]"
  by (simp_all add: host_handle_def)

lemmas addr_defs = SCU_ADDR_def I2C_ADDR_def WDT_ADDR_def LPC_ADDR_def MAC0_ADDR_def MAC1_ADDR_def
  FMC_ADDR_def FMC_MEM_def

lemma host_handle_ok: "fam \<in> {24, 25, 26} \<Longrightarrow> handle_ok (host_handle fam)"
  by (simp add: handle_ok_def addr_defs)

text \<open>An access to a mapped block of the BMC at a word inside it; no access crosses the block.\<close>

definition block_word :: "region \<Rightarrow> int \<Rightarrow> bool" where
  "block_word r off = (case r of
       AstMem n st sz \<Rightarrow> st \<in> {SCU_ADDR, I2C_ADDR, WDT_ADDR, LPC_ADDR, FMC_ADDR, MAC0_ADDR, MAC1_ADDR}
         \<and> sz = 4096 \<and> 0 \<le> off \<and> off \<le> 4092
     | _ \<Rightarrow> False)"

definition in_block :: "op \<Rightarrow> bool" where
  "in_block q = (case q of
       Rd32 r off \<Rightarrow> block_word r off
     | Wr32 r off v \<Rightarrow> block_word r off
     | Print f a \<Rightarrow> True | Now \<Rightarrow> True | Gosched \<Rightarrow> True | Sleep d \<Rightarrow> True
     | _ \<Rightarrow> False)"

lemma in_block_simps [simp]:
  "in_block (Rd32 r off) = block_word r off" "in_block (Wr32 r off v) = block_word r off"
  "in_block (Print f a)" "in_block Now" "in_block Gosched" "in_block (Sleep d)"
  by (simp_all add: in_block_def)

lemma block_word_AstMem [simp]:
  "block_word (AstMem n st sz) off \<longleftrightarrow>
     st \<in> {SCU_ADDR, I2C_ADDR, WDT_ADDR, LPC_ADDR, FMC_ADDR, MAC0_ADDR, MAC1_ADDR}
     \<and> sz = 4096 \<and> 0 \<le> off \<and> off \<le> 4092"
  by (simp add: block_word_def)

lemma block_mod:
  assumes "0 \<le> (off::int)" "off \<le> 4092" "0 \<le> lo" "lo \<le> 0xA000"
  shows "(off + (lo + hi * 0x10000)) mod 0x10000 \<le> 0xfffc"
proof -
  have "(off + (lo + hi * 0x10000)) mod 0x10000 = off + lo"
    unfolding add.assoc [symmetric] using assms by simp
  then show ?thesis using assms by simp
qed

lemma block_address:
  assumes "st \<in> {SCU_ADDR, I2C_ADDR, WDT_ADDR, LPC_ADDR, FMC_ADDR, MAC0_ADDR, MAC1_ADDR}"
  shows "\<exists>lo hi. st = lo + hi * 0x10000 \<and> 0 \<le> lo \<and> lo \<le> 0xA000 \<and> 1 \<le> hi \<and> hi \<le> (0x2000 :: int)"
proof -
  have "st mod 0x10000 \<le> 0xA000 \<and> 1 \<le> st div 0x10000 \<and> st div 0x10000 \<le> 0x2000"
    using assms by (elim insertE) (simp_all add: addr_defs)
  moreover have "st = st mod 0x10000 + st div 0x10000 * 0x10000" by simp
  moreover have "0 \<le> st mod 0x10000" by simp
  ultimately show ?thesis by blast
qed

lemma block_word_ahb:
  assumes "block_word r off"
  shows "ahb_ok (Rd32 r off) \<and> ahb_ok (Wr32 r off v)"
proof -
  obtain n st where r: "r = AstMem n st 4096" "0 \<le> off" "off \<le> 4092"
      "st \<in> {SCU_ADDR, I2C_ADDR, WDT_ADDR, LPC_ADDR, FMC_ADDR, MAC0_ADDR, MAC1_ADDR}"
    using assms unfolding block_word_def by (cases r) simp_all
  obtain lo hi where st: "st = lo + hi * 0x10000" "0 \<le> lo" "lo \<le> 0xA000" "1 \<le> hi" "hi \<le> 0x2000"
    using block_address [OF r(4)] by blast
  have "0x10000 \<le> off + st" "off + st < 2 ^ 32" "(off + st) mod 0x10000 \<le> 0xfffc"
    using st r(2,3) block_mod [OF r(2,3) st(2,3), of hi] by simp_all
  then show ?thesis using r(1,3) by simp
qed

lemma in_block_ahb: "in_block q \<Longrightarrow> ahb_ok q"
  by (cases q) (simp_all add: in_block_def block_word_ahb)

lemma safe_WDTn: "0 \<le> off \<Longrightarrow> off < 0x20 \<Longrightarrow> safe in_block (WDTn (host_handle fam) i off v)"
  by (auto simp: WDTn_def io_defs Let_def)

lemma safe_stop_bus: "i < 14 \<Longrightarrow> safe in_block (stop_bus (host_handle fam) en i)"
  by (auto simp: stop_bus_def I2cBase_def io_defs Let_def)

lemma safe_block [simp]:
  "safe in_block (read32 (AstMem n st sz) off) = in_block (Rd32 (AstMem n st sz) off)"
  "safe in_block (write32 (AstMem n st sz) off v) = in_block (Wr32 (AstMem n st sz) off v)"
  "safe in_block (print f a)"
  by (auto simp: io_defs)

lemma safe_stop_parts:
  "safe in_block (stop_watchdogs (host_handle fam))" "safe in_block (stop_cpu (host_handle fam))"
  "safe in_block (clear_watchdogs (host_handle fam))" "safe in_block (stop_lpc (host_handle fam))"
  "safe in_block (I2cEnabledSet (host_handle fam))"
  unfolding stop_watchdogs_def stop_cpu_def clear_watchdogs_def WDTctl_def stop_lpc_def
    I2cEnabledSet_def Let_def
  by (auto intro!: safe_bindI safe_WDTn simp: SCU_REVID_def)

lemma safe_AstStop: "safe in_block (AstStop (host_handle fam))"
  unfolding AstStop_def
  by (auto intro!: safe_bindI safe_stop_parts safe_forM safe_stop_bus simp del: bind.simps)

lemma safe_restart_parts:
  "safe in_block (restart_cpu (host_handle fam) prev)" "safe in_block (set_masks cfg (host_handle fam))"
  unfolding restart_cpu_def set_masks_def by (auto intro!: safe_bindI)

lemma safe_AstRestart: "safe in_block (AstRestart cfg (host_handle fam) prev)"
  unfolding AstRestart_def WDTctl_def
  by (auto intro!: safe_bindI safe_WDTn safe_restart_parts simp del: bind.simps)

lemma safe_AstReset: "safe ahb_ok (AstReset cfg (host_handle fam))"
  unfolding AstReset_def
  by (rule safe_mono [OF _ in_block_ahb], rule safe_bindI, rule safe_AstStop, rule safe_AstRestart)

text \<open>
  Property C8: resetting the BMC from the host through the PCI bridge has, for every state of
  the BMC, the outcome and leaves the BMC in the state that the same reset has on its own bus:
  all of it stays inside the mapped blocks, at words the window reaches.
\<close>

theorem AstReset_bridged:
  assumes "p2a_bridge h b bus en sel dev" "bus_answers bus" "\<not> NoWrite cfg"
    and "exec h (elab (ast_method cfg) (AstReset cfg (host_handle fam)) (p2aGlob\<lparr>bar1 := Some b\<rparr>)) s
      = (out, s')"
    and "exec (flat bus) (AstReset cfg (host_handle fam)) (dev s) = (out', d')"
  shows "same_outcome b out out' \<and> dev s' = d'"
  using assms bridge_refines [OF assms(1-3) safe_AstReset assms(4,5)] by blast

section \<open>Witnesses\<close>

text \<open>A chip that runs with its watchdogs armed.\<close>

definition running :: soc where
  "running = \<lparr>unlocked = False, strap = 0, armed = (\<lambda>_. True), reload = (\<lambda>_. 0), kicked = (\<lambda>_. True)\<rparr>"

lemma zeros_buses: "exec zeros (forM xs (stop_bus a 0)) s = (Done (), s)"
  by (induction xs) (simp_all add: exec_bind stop_bus_def Let_def)

lemma zeros_stop:
  "exec zeros (AstStop (host_handle 25)) s = (Done \<lparr>rst70State = 0, wdt2Prev = 0\<rparr>, s)"
  by (simp add: AstStop_def stop_watchdogs_def stop_cpu_def clear_watchdogs_def stop_lpc_def
      WDTctl_def WDTn_def I2cEnabledSet_def exec_bind zeros_buses Let_def)

lemma zeros_reset: "exec zeros (AstReset plain_config (host_handle 25)) s = (Done (), s)"
  by (simp add: AstReset_def exec_bind zeros_stop AstRestart_def restart_cpu_def set_masks_def
      WDTctl_def WDTn_def)

theorem AstReset_order_witness:
  "\<exists>tr. runs (AstReset plain_config (host_handle 25)) tr (Done ()) \<and>
    (let s' = track (soc_step (host_handle 25)) tr running
     in \<not> held 25 s' \<and> armed s' 1 \<and> reload s' 1 = 0x10 \<and> kicked s' 1)"
proof -
  obtain tr where tr: "runs (AstReset plain_config (host_handle 25)) tr (Done ())"
    using exec_done_runs [OF zeros_reset] by blast
  have "\<not> held (Family (host_handle 25)) running" by (simp add: held_def running_def)
  from AstReset_order [OF host_handle_ok this tr] tr show ?thesis by auto
qed

theorem AstStop_stops_witness:
  "\<exists>tr. runs (AstStop (host_handle 25)) tr (Done \<lparr>rst70State = 0, wdt2Prev = 0\<rparr>) \<and>
    (let s' = track (soc_step (host_handle 25)) tr running
     in held 25 s' \<and> disarmed 25 s' \<and> unlocked s')"
proof -
  obtain tr where tr: "runs (AstStop (host_handle 25)) tr (Done \<lparr>rst70State = 0, wdt2Prev = 0\<rparr>)"
    using exec_done_runs [OF zeros_stop] by blast
  have "\<not> held (Family (host_handle 25)) running" by (simp add: held_def running_def)
  from AstStop_stops [OF host_handle_ok this tr] tr show ?thesis by auto
qed

theorem AstReset_bridged_witness:
  "same_outcome (AstMem [] 0 0)
     (fst (exec word_bridge (elab (ast_method plain_config) (AstReset plain_config (host_handle 25))
        (p2aGlob\<lparr>bar1 := Some (AstMem [] 0 0)\<rparr>)) (False, 0, \<lambda>_. 0)))
     (fst (exec (flat word_bus) (AstReset plain_config (host_handle 25)) (\<lambda>_. 0)))"
proof -
  have "bus_answers word_bus" by (auto simp: bus_answers_def word_bus_def)
  moreover have "\<not> NoWrite plain_config" by (simp add: plain_config_def)
  ultimately show ?thesis
    using AstReset_bridged [OF word_bridge_ok _ _ prod.collapse [symmetric] prod.collapse [symmetric],
        where cfg = plain_config and fam = 25 and b = "AstMem [] 0 0" and s = "(False, 0, \<lambda>_. 0)"]
    by simp
qed

text \<open>A run with one turn, in which the bus is found enabled.\<close>

definition disabling_run :: "event list" where
  "disabling_run =
     (let r = AstMem [] SCU_ADDR 4096
      in [(Now, RInt 1), (Now, RInt 2), (Rd32 r 0x90, RU32 0x20001), (Wr32 r 0x90 1, RUnit),
          (Print ''switch scu[0x90] from 0x%#08x to 0x%#08x'' [AW (0x20001 :: u32), AW (1 :: u32)], RUnit),
          (Sleep 100000, RUnit), (Now, RInt 120000000002), (Print ''PMbus not disabled'' [], RUnit)])"

theorem AstI2c3Disable_returns_witness:
  "runs (AstI2c3Disable (plain_config\<lparr>fuel := 1200001\<rparr>) (host_handle 25)) disabling_run (Done ()) \<and>
   clocked 0 disabling_run \<and>
   (\<exists>t0 ps t1. disabling_run = (Now, RInt t0) # concat (map (\<lambda>(t, w). poll_turn (AstMem [] SCU_ADDR 4096) t w) ps) @
      [(Now, RInt t1), (Print ''PMbus not disabled'' [], RUnit)] \<and> t0 + 120000000000 < t1)"
proof -
  have n: "(1200001 :: nat) = Suc (Suc 1199999)" by simp
  then have "disable_loop 1200001 a e v = disable_loop (Suc (Suc 1199999)) a e v" for a e v by metis
  then have r: "runs (AstI2c3Disable (plain_config\<lparr>fuel := 1200001\<rparr>) (host_handle 25)) disabling_run (Done ())"
    by (simp add: AstI2c3Disable_def disabling_run_def i2c3Enable_def host_handle_def Let_def del: Suc_numeral)
  have c: "clocked 0 disabling_run" by (simp add: disabling_run_def Let_def tick_def on_time_def)
  have "scu (host_handle 25) = AstMem [] SCU_ADDR 4096" by (simp add: host_handle_def)
  with AstI2c3Disable_returns [OF r c] obtain t0 ps t1 where
    "disabling_run = (Now, RInt t0) # concat (map (\<lambda>(t, w). poll_turn (AstMem [] SCU_ADDR 4096) t w) ps) @
      [(Now, RInt t1), (Print (if ps \<noteq> [] \<and> bit (snd (last ps)) 17 then ''PMbus not disabled''
        else ''PMbus is now disabled'') [], RUnit)]" "t0 + 120000000000 < t1" by auto
  moreover from arg_cong [OF this(1), of last] have "last disabling_run = (Print (if ps \<noteq> [] \<and> bit (snd (last ps)) 17
      then ''PMbus not disabled'' else ''PMbus is now disabled'') [], RUnit)" by (simp split del: if_split)
  moreover have "last disabling_run = (Print ''PMbus not disabled'' [], RUnit)"
    by (simp add: disabling_run_def Let_def)
  ultimately have "ps \<noteq> [] \<and> bit (snd (last ps)) 17" by (auto split: if_splits)
  then show ?thesis using r c \<open>disabling_run = _\<close> \<open>t0 + 120000000000 < t1\<close> by auto
qed

end
