(* ===== verification/Spi.thy ===== *)
theory Spi
  imports AstCore
begin

text \<open>
  The BMC's SPI flash (ast/spi.go): transactions in the controller's user mode, commands with
  3- and 4-byte addresses, the flash database, erasing and page programming.

  \<open>spi_step\<close> reads the bus off a run: the chip-select window between the two writes of the
  CE0 control register, the bytes shifted out and in. \<open>flash_xfer\<close> is what the flash does with
  a transaction. The theorems say that each call is one well-formed transaction and that
  \<open>Write\<close> programs exactly the requested bytes.
\<close>

section \<open>The data\<close>

record spiChip =
  chipName :: string
  Size :: int
  EraseSize :: int
  op4b :: bool
  mx3b4b :: bool

record Fmc =
  mem :: region
  reg :: region
  ce0CtlSlow :: u32
  ce0CtlFast :: u32
  spi_id :: u32
  Chip :: spiChip
  read_op :: u8
  program_op :: u8
  erase_op :: u8

definition FREAD :: u8 where "FREAD = 0x0b"
definition FREAD4B :: u8 where "FREAD4B = 0x0c"
definition PPROGRAM :: u8 where "PPROGRAM = 0x02"
definition PPROGRAM4B :: u8 where "PPROGRAM4B = 0x12"
definition ERASE :: u8 where "ERASE = 0xd8"
definition ERASE4B :: u8 where "ERASE4B = 0xdc"
definition BRRD :: u8 where "BRRD = 0x16"
definition STATUS :: u8 where "STATUS = 0x05"
definition RDCR :: u8 where "RDCR = 0x15"
definition RFSR :: u8 where "RFSR = 0x70"

lemmas spi_ops = FREAD_def FREAD4B_def PPROGRAM_def PPROGRAM4B_def ERASE_def ERASE4B_def
  BRRD_def STATUS_def RDCR_def RFSR_def

definition spiDb :: "u32 \<Rightarrow> spiChip option" where
  "spiDb = map_of
    [(0xc22019, \<lparr>chipName = ''mx25l25635f'', Size = 32 * 1024 * 1024, EraseSize = 64 * 1024, op4b = True, mx3b4b = True\<rparr>),
     (0xef4019, \<lparr>chipName = ''w25q256'', Size = 32 * 1024 * 1024, EraseSize = 64 * 1024, op4b = True, mx3b4b = False\<rparr>),
     (0x20ba20, \<lparr>chipName = ''n25q512a'', Size = 64 * 1024 * 1024, EraseSize = 64 * 1024, op4b = True, mx3b4b = True\<rparr>),
     (0xc2201a, \<lparr>chipName = ''mx66l51235l'', Size = 64 * 1024 * 1024, EraseSize = 64 * 1024, op4b = True, mx3b4b = True\<rparr>),
     (0x010220, \<lparr>chipName = ''s25fl512s'', Size = 64 * 1024 * 1024, EraseSize = 256 * 1024, op4b = True, mx3b4b = False\<rparr>)]"

section \<open>Transactions\<close>

definition Sel :: "Fmc \<Rightarrow> u8 \<Rightarrow> u32" where
  "Sel f cmd = (if cmd = FREAD \<or> cmd = FREAD4B then ce0CtlFast f else ce0CtlSlow f)"

text \<open>The two loops over \<open>out\<close>, and the loop that fills the buffer of \<open>inSize\<close> bytes.\<close>

function send_words :: "region \<Rightarrow> u8 list \<Rightarrow> unit io" where
  "send_words m bs =
     (if bs = [] then Ret ()
      else case get32 bs of
          None \<Rightarrow> index_panic
        | Some w \<Rightarrow> seq (write32 m 0 w) (send_words m (drop 4 bs)))"
  by auto
termination by (relation "measure (\<lambda>(m, bs). length bs)") auto

function recv_words :: "region \<Rightarrow> int \<Rightarrow> int \<Rightarrow> u8 list \<Rightarrow> u8 list io" where
  "recv_words m inSize x buf =
     (if x < inSize
      then bind (read32 m x) (\<lambda>val.
        if inSize - x < 4 then index_panic
        else recv_words m inSize (x + 4) (buf @ put32 val))
      else Ret buf)"
  by auto
termination by (relation "measure (\<lambda>(m, inSize, x, buf). nat (inSize - x))") auto

declare send_words.simps [simp del] recv_words.simps [simp del]

definition spiXfer :: "Fmc \<Rightarrow> u8 list \<Rightarrow> int \<Rightarrow> u8 list io" where
  "spiXfer f out inSize =
     (if inSize < 0 then Fail (Panic ''makeslice: len out of range'')
      else case out of
          [] \<Rightarrow> index_panic
        | cmd # _ \<Rightarrow>
            seq (write32 (reg f) FMC_CE0CTL (Sel f cmd OR 0x0003))
              (let firstBytes = length out mod 4
               in seq (forM (take firstBytes out) (\<lambda>b. write8 (mem f) 0 b))
                 (seq (send_words (mem f) (drop firstBytes out))
                   (bind (recv_words (mem f) inSize 0 []) (\<lambda>buf.
                     seq (write32 (reg f) FMC_CE0CTL (Sel f cmd OR 0x0007)) (Ret buf))))))"

definition spiXferAddr :: "config \<Rightarrow> Fmc \<Rightarrow> u8 \<Rightarrow> u32 \<Rightarrow> u8 list \<Rightarrow> int \<Rightarrow> u8 list io" where
  "spiXferAddr cfg f cmd off extra inSize =
     (if SpiMode cfg = 4 \<or> cmd = FREAD4B \<or> cmd = PPROGRAM4B \<or> cmd = ERASE4B
      then spiXfer f (cmd # put32be off @ extra) inSize
      else if SpiMode cfg = 3 \<and> (cmd = FREAD \<or> cmd = PPROGRAM \<or> cmd = ERASE)
      then if off AND NOT 0xffffff \<noteq> 0
           then Fail (Fatal ''spiXferAddr3B (cmd=%#x, offset=%#x)'' [AW cmd, AW off])
           else spiXfer f (cmd # tl (put32be off) @ extra) inSize
      else Fail (Fatal ''SpiXferAddr(cmd=%#x, offset=%#x): Unknown addr size (mode=%d)''
             [AW cmd, AW off, AI (SpiMode cfg)]))"

definition SpiRead :: "config \<Rightarrow> Fmc \<Rightarrow> int \<Rightarrow> int \<Rightarrow> u8 list io" where
  "SpiRead cfg f off n = spiXferAddr cfg f (read_op f) (word_of_int off) [0] n"

text \<open>The first byte of an answer.\<close>

definition first_byte :: "u8 list \<Rightarrow> u8 io" where
  "first_byte buf = (case buf of b # _ \<Rightarrow> Ret b | [] \<Rightarrow> index_panic)"

definition spiStatus :: "Fmc \<Rightarrow> u8 io" where
  "spiStatus f = bind (spiXfer f [STATUS] 4) first_byte"

definition spi4B :: "Fmc \<Rightarrow> unit io" where
  "spi4B f =
     (if mx3b4b (Chip f) then seq (spiXfer f [0xB7] 0) (Ret ())
      else if spi_id f = 0x010220 then seq (spiXfer f [0x17, 0x80] 0) (Ret ())
      else Fail (Fatal ''don't know how to set spimode=4B on %#x'' [AW (spi_id f)]))"

definition spi3B :: "Fmc \<Rightarrow> unit io" where
  "spi3B f =
     (if mx3b4b (Chip f) then seq (spiXfer f [0xE9] 0) (Ret ())
      else if spi_id f = 0x010220 then seq (spiXfer f [0x17, 0x00] 0) (Ret ())
      else Fail (Fatal ''don't know how to set spimode=3B on %#x'' [AW (spi_id f)]))"

definition spiId :: "Fmc \<Rightarrow> u32 io" where
  "spiId f = bind (spiXfer f [0x9f] 4) (\<lambda>buf.
     case buf of
       a # b # c # _ \<Rightarrow> Ret (push_bit 16 (ucast a) + push_bit 8 (ucast b) + ucast c)
     | _ \<Rightarrow> index_panic)"

section \<open>Waiting, erasing, programming\<close>

text \<open>
  The loop declares its own \<open>s\<close>, so what \<open>spiWait\<close> returns is the outer one, 0. Times are
  nanoseconds; \<open>n\<close> bounds the turns.
\<close>

fun wait_loop :: "nat \<Rightarrow> Fmc \<Rightarrow> int \<Rightarrow> u8 \<Rightarrow> unit io" where
  "wait_loop 0 f expire s = Fail OutOfFuel"
| "wait_loop (Suc n) f expire s =
     (if s AND 1 \<noteq> 0
      then seq (sleep 10000)
        (bind now (\<lambda>t.
          if expire < t
          then Fail (Fatal ''timeout waiting for operation to finish, stat = 0x%02x'' [AW s])
          else bind (spiStatus f) (\<lambda>s'. wait_loop n f expire s')))
      else Ret ())"

definition spiWait :: "config \<Rightarrow> Fmc \<Rightarrow> u8 io" where
  "spiWait cfg f =
     bind now (\<lambda>t0.
       bind (spiStatus f) (\<lambda>s.
         seq (wait_loop (fuel cfg) f (t0 + 10000000000) s) (Ret 0)))"

definition writeEnable :: "Fmc \<Rightarrow> unit io" where
  "writeEnable f = seq (spiXfer f [0x6] 0) (Ret ())"

definition writeDisable :: "Fmc \<Rightarrow> unit io" where
  "writeDisable f = seq (spiXfer f [0x4] 0) (Ret ())"

definition EraseBlock :: "config \<Rightarrow> Fmc \<Rightarrow> int \<Rightarrow> unit io" where
  "EraseBlock cfg f off =
     seq (writeEnable f)
       (seq (spiXferAddr cfg f (erase_op f) (word_of_int off) [] 0)
         (bind (spiWait cfg f) (\<lambda>status.
           if status \<noteq> 0
           then Fail (Fatal ''While erasing sector 0x%x:  status = 0x%02x'' [AI off, AW status])
           else Ret ())))"

text \<open>The length of the next page program.\<close>

definition chunk :: "int \<Rightarrow> u8 list \<Rightarrow> nat" where
  "chunk off buf = min (nat (256 - (off AND 0xff))) (length buf)"

lemma and_ff: "(x::int) AND 0xff = x mod 256"
  using take_bit_eq_mask [of 8 x] by (simp add: take_bit_eq_mod mask_eq_exp_minus_1)

lemma chunk_pos: "buf \<noteq> [] \<Longrightarrow> 0 < chunk off buf"
  by (simp add: chunk_def and_ff)

function Write :: "config \<Rightarrow> Fmc \<Rightarrow> int \<Rightarrow> u8 list \<Rightarrow> unit io" where
  "Write cfg f off buf =
     (if buf = [] then Ret ()
      else seq (writeEnable f)
        (seq (spiXferAddr cfg f (program_op f) (word_of_int off) (take (chunk off buf) buf) 0)
          (bind (spiWait cfg f) (\<lambda>status.
            if status \<noteq> 0
            then Fail (Fatal ''While Page Programming 0x%x:  status = 0x%02x'' [AI off, AW status])
            else Write cfg f (i64 (off + int (chunk off buf))) (drop (chunk off buf) buf)))))"
  by auto
termination
  by (relation "measure (\<lambda>(cfg, f, off, buf). length buf)") (auto simp: chunk_pos)

declare Write.simps [simp del]

section \<open>Setting up\<close>

definition is4B :: "Fmc \<Rightarrow> bool io" where
  "is4B f =
     (if spi_id f = 0x20ba20
      then bind (bind (spiXfer f [RFSR] 4) first_byte) (\<lambda>b. Ret (b AND 0x01 \<noteq> 0))
      else if spi_id f = 0x010220
      then bind (bind (spiXfer f [BRRD] 4) first_byte) (\<lambda>b. Ret (b AND 0x80 \<noteq> 0))
      else if spi_id f = 0xef4019
      then bind (bind (spiXfer f [RDCR] 4) first_byte) (\<lambda>b. Ret (b AND 0x1 \<noteq> 0))
      else if mx3b4b (Chip f)
      then bind (bind (spiXfer f [RDCR] 4) first_byte) (\<lambda>b. Ret (b AND 0x20 \<noteq> 0))
      else Fail (Fatal ''is4B: Unknown chip id: %#x'' [AW (spi_id f)]))"

text \<open>The handle before the chip is known: the zero value of the remaining fields.\<close>

definition fmc_start :: "region \<Rightarrow> region \<Rightarrow> Fmc" where
  "fmc_start r m = \<lparr>mem = m, reg = r, ce0CtlSlow = 0x300, ce0CtlFast = 0x600, spi_id = 0,
     Chip = \<lparr>chipName = [], Size = 0, EraseSize = 0, op4b = False, mx3b4b = False\<rparr>,
     read_op = 0, program_op = 0, erase_op = 0\<rparr>"

definition set_mode :: "config \<Rightarrow> Fmc \<Rightarrow> unit io" where
  "set_mode cfg f =
     (if SpiMode cfg = 0 then Ret ()
      else if SpiMode cfg = 4 then seq (spi4B f) (write32 (reg f) 0x04 0x701)
      else if SpiMode cfg = 3 then seq (spi3B f) (write32 (reg f) 0x04 0x700)
      else Fail (Fatal ''Unknown spiMode:%d'' [AI (SpiMode cfg)]))"

definition check_mode :: "Fmc \<Rightarrow> unit io" where
  "check_mode f =
     bind (read32 (reg f) 0x04) (\<lambda>v.
       let astIs4B = (v AND 1 \<noteq> 0)
       in bind (is4B f) (\<lambda>b.
         if astIs4B \<noteq> b
         then bind (is4B f) (\<lambda>b'.
           Fail (Fatal ''astIs4B(%v) != fmc.is4B(%v)'' [AI (of_bool astIs4B), AI (of_bool b')]))
         else Ret ()))"

definition set_ops :: "Fmc \<Rightarrow> Fmc" where
  "set_ops f = (if op4b (Chip f)
     then f\<lparr>read_op := FREAD4B, program_op := PPROGRAM4B, erase_op := ERASE4B\<rparr>
     else f\<lparr>read_op := FREAD, program_op := PPROGRAM, erase_op := ERASE\<rparr>)"

text \<open>\<open>FmcNew\<close> after \<open>AstStop\<close> and the two mappings.\<close>

definition FmcInit :: "config \<Rightarrow> region \<Rightarrow> region \<Rightarrow> Fmc io" where
  "FmcInit cfg r m =
     bind (spiId (fmc_start r m)) (\<lambda>i.
       case spiDb i of
         None \<Rightarrow> Fail (Fatal ''SpiId:0x%06x unknown!!'' [AW i])
       | Some chip \<Rightarrow>
           (let f = (fmc_start r m)\<lparr>spi_id := i, Chip := chip\<rparr>
            in bind (spiStatus f) (\<lambda>st.
              let stat = st AND NOT 0x40
              in if stat AND NOT 2 \<noteq> 0
                 then Fail (Fatal ''SpiStatus:0x%02x (spiid==0x%06x)'' [AW stat, AW i])
                 else seq (whenM (stat AND 2 \<noteq> 0) (writeDisable f))
                   (seq (set_mode cfg f)
                     (seq (check_mode f) (Ret (set_ops f)))))))"

section \<open>The bus, read off a run\<close>

text \<open>
  A transaction is what happens between the write of the control register that selects the
  chip in user mode (low bits 011) and the one that deselects it (111): the bytes shifted out
  through the memory window, and the bytes read through it.
\<close>

type_synonym xfer = "u8 list \<times> u8 list"

record spi_bus =
  selected :: bool
  sent :: "u8 list"
  got :: "u8 list"
  xfers :: "xfer list"

definition ctl_write :: "u32 \<Rightarrow> spi_bus \<Rightarrow> spi_bus" where
  "ctl_write v s =
     (if v AND 7 = 3 then s\<lparr>selected := True, sent := [], got := []\<rparr>
      else if v AND 7 = 7 \<and> selected s
      then s\<lparr>selected := False, sent := [], got := [], xfers := xfers s @ [(sent s, got s)]\<rparr>
      else s)"

definition spi_step :: "Fmc \<Rightarrow> spi_bus monitor" where
  "spi_step f q x s = (case q of
       Wr32 r off v \<Rightarrow>
         if r = reg f \<and> off = FMC_CE0CTL then ctl_write v s
         else if r = mem f then s\<lparr>sent := sent s @ put32 v\<rparr> else s
     | Wr8 r off b \<Rightarrow> if r = mem f then s\<lparr>sent := sent s @ [b]\<rparr> else s
     | Rd32 r off \<Rightarrow> (case x of
           RU32 v \<Rightarrow> if r = mem f then s\<lparr>got := got s @ put32 v\<rparr> else s
         | _ \<Rightarrow> s)
     | _ \<Rightarrow> s)"

definition fmc_ok :: "Fmc \<Rightarrow> bool" where
  "fmc_ok f \<longleftrightarrow> reg f \<noteq> mem f \<and> ce0CtlSlow f AND 7 = 0 \<and> ce0CtlFast f AND 7 = 0"

definition idle :: "xfer list \<Rightarrow> spi_bus" where
  "idle l = \<lparr>selected = False, sent = [], got = [], xfers = l\<rparr>"

text \<open>The steps of the operations \<open>spiXfer\<close> makes.\<close>

lemma spi_step_simps:
  "spi_step f (Wr32 (reg f) FMC_CE0CTL v) x s = ctl_write v s"
  "fmc_ok f \<Longrightarrow> spi_step f (Wr32 (mem f) off v) x s = s\<lparr>sent := sent s @ put32 v\<rparr>"
  "spi_step f (Wr8 (mem f) off b) x s = s\<lparr>sent := sent s @ [b]\<rparr>"
  "spi_step f (Rd32 (mem f) off) (RU32 v) s = s\<lparr>got := got s @ put32 v\<rparr>"
  "spi_step f Now x s = s" "spi_step f (Sleep d) x s = s" "spi_step f (Print m a) x s = s"
  by (auto simp: spi_step_def fmc_ok_def)

lemma Sel_low: "fmc_ok f \<Longrightarrow> Sel f cmd AND 7 = 0"
  by (simp add: Sel_def fmc_ok_def)

lemma ctl_low:
  assumes "fmc_ok f"
  shows "(Sel f cmd OR 3) AND 7 = 3" "(Sel f cmd OR 7) AND 7 = 7"
  using Sel_low [OF assms, of cmd] by (simp_all add: bit.conj_disj_distrib2)

lemma wp_send_bytes:
  assumes "fmc_ok f"
  shows "wp (spi_step f) (\<lambda>_. True) (forM bs (\<lambda>b. write8 (mem f) 0 b)) Q s
    = Q () (s\<lparr>sent := sent s @ bs\<rparr>)"
  by (induction bs arbitrary: s) (simp_all add: wp_bind spi_step_simps)

lemma wp_send_words:
  assumes "fmc_ok f" "length bs mod 4 = 0"
  shows "wp (spi_step f) (\<lambda>_. True) (send_words (mem f) bs) Q s = Q () (s\<lparr>sent := sent s @ bs\<rparr>)"
  using assms(2)
proof (induction "mem f" bs arbitrary: s rule: send_words.induct)
  case (1 bs)
  show ?case
  proof (cases "bs = []")
    case True
    then show ?thesis by (simp add: send_words.simps)
  next
    case False
    then have len: "4 \<le> length bs" using 1(2) by (cases bs rule: get32.cases) auto
    then obtain w where w: "get32 bs = Some w" using le32.dec_total by fastforce
    have split: "put32 w @ drop 4 bs = bs" using le32.enc_dec [OF w] by simp
    have "length (drop 4 bs) mod 4 = 0" using 1(2) len by (simp add: mod_if)
    from 1(1) [OF False w this]
    have IH: "wp (spi_step f) (\<lambda>_. True) (send_words (mem f) (drop 4 bs)) Q t
        = Q () (t\<lparr>sent := sent t @ drop 4 bs\<rparr>)" for t .
    have "(sent s @ put32 w) @ drop 4 bs = sent s @ bs" using split by simp
    then show ?thesis
      using False w assms(1)
      by (subst send_words.simps) (simp add: wp_bind spi_step_simps IH)
  qed
qed

lemma wp_recv_words:
  assumes "(n - x) mod 4 = 0" "int (length buf) = x"
    and "\<And>bs. x \<le> n \<Longrightarrow> int (length bs) = n - x \<Longrightarrow> Q (buf @ bs) (s\<lparr>got := got s @ bs\<rparr>)"
    and "x \<le> n"
  shows "wp (spi_step f) (\<lambda>_. True) (recv_words (mem f) n x buf) Q s"
  using assms
proof (induction "mem f" n x buf arbitrary: s rule: recv_words.induct)
  case (1 n x buf)
  show ?case
  proof (cases "x < n")
    case False
    then show ?thesis using "1.prems" by (subst recv_words.simps) simp
  next
    case True
    have m: "(n - (x + 4)) mod 4 = 0" using "1.prems"(1) by presburger
    have le: "\<not> n - x < 4" "x + 4 \<le> n" using "1.prems"(1) True by presburger+
    have "wp (spi_step f) (\<lambda>_. True) (recv_words (mem f) n (x + 4) (buf @ put32 v)) Q
        (s\<lparr>got := got s @ put32 v\<rparr>)" for v
    proof (rule "1.hyps" [OF True le(1) m])
      show "int (length (buf @ put32 v)) = x + 4" using "1.prems"(2) by (simp add: le32.length_enc)
      fix bs :: "u8 list"
      assume "int (length bs) = n - (x + 4)"
      then show "Q ((buf @ put32 v) @ bs) (s\<lparr>got := got s @ put32 v, got := got (s\<lparr>got := got s @ put32 v\<rparr>) @ bs\<rparr>)"
        using "1.prems"(3) [of "put32 v @ bs"] True by (simp add: le32.length_enc)
    qed (rule le)
    then show ?thesis
      using True le by (subst recv_words.simps) (simp add: wp_bind spi_step_simps)
  qed
qed

lemma wp_spiXfer:
  assumes "fmc_ok f" "out \<noteq> []" "0 \<le> n" "n mod 4 = 0"
    and "\<And>bs. int (length bs) = n \<Longrightarrow> Q bs (idle (l @ [(out, bs)]))"
  shows "wp (spi_step f) (\<lambda>_. True) (spiXfer f out n) Q (idle l)"
proof -
  obtain cmd rest where out: "out = cmd # rest" using assms(2) by (cases out) auto
  let ?k = "length out mod 4"
  have m: "length (drop ?k out) mod 4 = 0" by (simp add: mod_diff_eq minus_mod_eq_div_mult)
  have "take ?k out @ drop ?k out = out" by (rule append_take_drop_id)
  then show ?thesis
    using assms(3,4) m unfolding spiXfer_def out
    by (auto simp: wp_bind spi_step_simps wp_send_bytes assms(1) wp_send_words ctl_low ctl_write_def
        Let_def idle_def out
        intro!: wp_recv_words assms(5) [unfolded out idle_def])
qed

text \<open>
  A call of \<open>spiXfer\<close> that returns is one transaction on the bus: the chip is
  selected, exactly the bytes of \<open>out\<close> are shifted out in order, \<open>inSize\<close> bytes are shifted in
  and returned in order, and the chip is deselected.
\<close>

lemma spiXfer_transaction:
  assumes "fmc_ok f" "out \<noteq> []" "0 \<le> n" "n mod 4 = 0" "runs (spiXfer f out n) tr (Done buf)"
  shows "track (spi_step f) tr (idle l) = idle (l @ [(out, buf)]) \<and> int (length buf) = n"
proof -
  have "wp (spi_step f) (\<lambda>_. True) (spiXfer f out n)
      (\<lambda>buf s. s = idle (l @ [(out, buf)]) \<and> int (length buf) = n) (idle l)"
    by (rule wp_spiXfer) (use assms in simp_all)
  from wp_track [OF this _ assms(5)] show ?thesis by simp
qed

text \<open>The read loop never returns when the size is not a whole number of words.\<close>

lemma recv_words_unaligned:
  assumes "n mod 4 \<noteq> 0" "0 \<le> x" "x mod 4 = 0" "x \<le> n" "runs (recv_words m n x buf) tr (Done b)"
  shows False
  using assms
proof (induction m n x buf arbitrary: tr rule: recv_words.induct)
  case (1 m n x buf)
  have "x < n" using "1.prems" by (cases "x = n") auto
  then obtain v tr' where v: "\<not> n - x < 4" "runs (recv_words m n (x + 4) (buf @ put32 v)) tr' (Done b)"
    using "1.prems"(5) by (subst (asm) recv_words.simps) (auto simp: index_panic_def split: if_splits)
  have le: "0 \<le> x + 4" "(x + 4) mod 4 = 0" "x + 4 \<le> n" using v(1) "1.prems"(2,3) by auto
  show False by (rule "1.IH" [OF \<open>x < n\<close> v(1) "1.prems"(1) le v(2)])
qed

lemma spiXfer_fails:
  assumes "n mod 4 \<noteq> 0" "runs (spiXfer f out n) tr (Done b)"
  shows False
proof -
  have "0 \<le> n" using assms(2) by (auto simp: spiXfer_def split: if_splits)
  then show False
    using assms(2) recv_words_unaligned [OF assms(1), of 0]
    by (auto simp: spiXfer_def runs_bind [of "forM _ _"] runs_bind [of "send_words _ _"]
        runs_bind [of "recv_words _ _ _ _"] index_panic_def Let_def split: list.splits)
qed

text \<open>
  How the loops end: the sending loops return, the read loop returns when the size is a whole
  number of words, and stops at the slice of its last word otherwise.
\<close>

lemma send_bytes_returns: "runs (forM bs (\<lambda>b. write8 m 0 b)) tr res \<Longrightarrow> res = Done ()"
  by (induction bs arbitrary: tr) auto

lemma send_words_returns:
  assumes "length bs mod 4 = 0" "runs (send_words m bs) tr res"
  shows "res = Done ()"
  using assms
proof (induction m bs arbitrary: tr rule: send_words.induct)
  case (1 m bs)
  show ?case
  proof (cases "bs = []")
    case True
    then show ?thesis using 1(3) by (simp add: send_words.simps)
  next
    case False
    then have len: "4 \<le> length bs" using 1(2) by (cases bs rule: get32.cases) auto
    then obtain w where w: "get32 bs = Some w" using le32.dec_total by fastforce
    then obtain tr' where r: "runs (send_words m (drop 4 bs)) tr' res"
      using 1(3) False by (subst (asm) send_words.simps) auto
    have "length (drop 4 bs) mod 4 = 0" using 1(2) len by (simp add: mod_if)
    then show ?thesis by (rule 1(1) [OF False w _ r])
  qed
qed

lemma recv_words_returns:
  assumes "(n - x) mod 4 = 0" "runs (recv_words m n x buf) tr res"
  shows "\<exists>bs. res = Done bs"
  using assms
proof (induction m n x buf arbitrary: tr rule: recv_words.induct)
  case (1 m n x buf)
  show ?case
  proof (cases "x < n")
    case False
    then show ?thesis using "1.prems"(2) by (subst (asm) recv_words.simps) simp
  next
    case True
    have le: "\<not> n - x < 4" "(n - (x + 4)) mod 4 = 0" using True "1.prems"(1) by presburger+
    obtain v tr' where "runs (recv_words m n (x + 4) (buf @ put32 v)) tr' res"
      using "1.prems"(2) True le(1) by (subst (asm) recv_words.simps) auto
    then show ?thesis by (rule "1.IH" [OF True le])
  qed
qed

lemma recv_words_partial:
  assumes "n mod 4 \<noteq> 0" "x mod 4 = 0" "x \<le> n" "runs (recv_words (mem f) n x buf) tr res"
  shows "res = Failed (Panic ''index out of range'') \<and>
    (\<exists>bs. track (spi_step f) tr s = s\<lparr>got := got s @ bs\<rparr> \<and> int (length bs) = 4 * ((n - x) div 4 + 1))"
  using assms
proof (induction "mem f" n x buf arbitrary: tr s rule: recv_words.induct)
  case (1 n x buf)
  have "x < n" using "1.prems"(1-3) by (cases "x = n") auto
  then obtain v tr' where tr: "tr = (Rd32 (mem f) x, RU32 v) # tr'"
      "runs (if n - x < 4 then index_panic else recv_words (mem f) n (x + 4) (buf @ put32 v)) tr' res"
    using "1.prems"(4) by (subst (asm) recv_words.simps) auto
  show ?case
  proof (cases "n - x < 4")
    case True
    then show ?thesis
      using tr \<open>x < n\<close>
      by (auto simp: index_panic_def spi_step_simps le32.length_enc div_pos_pos_trivial intro!: exI [of _ "put32 v"])
  next
    case False
    have le: "(x + 4) mod 4 = 0" "x + 4 \<le> n" using False "1.prems"(2) by auto
    have "runs (recv_words (mem f) n (x + 4) (buf @ put32 v)) tr' res" using tr(2) False by simp
    from "1.hyps" [OF \<open>x < n\<close> False "1.prems"(1) le this, of "s\<lparr>got := got s @ put32 v\<rparr>"]
    obtain bs where bs: "res = Failed (Panic ''index out of range'')"
        "track (spi_step f) tr' (s\<lparr>got := got s @ put32 v\<rparr>) = s\<lparr>got := (got s @ put32 v) @ bs\<rparr>"
        "int (length bs) = 4 * ((n - (x + 4)) div 4 + 1)"
      by auto
    have "(n - x) div 4 = (n - (x + 4)) div 4 + 1" by presburger
    then show ?thesis
      using tr(1) bs by (auto simp: spi_step_simps le32.length_enc intro!: exI [of _ "put32 v @ bs"])
  qed
qed

lemma spiXfer_returns:
  assumes "out \<noteq> []" "0 \<le> n" "n mod 4 = 0" "runs (spiXfer f out n) tr res"
  shows "\<exists>buf. res = Done buf"
proof -
  obtain cmd rest where out: "out = cmd # rest" using assms(1) by (cases out) auto
  have m: "length (drop (length out mod 4) out) mod 4 = 0" by (simp add: minus_mod_eq_mult_div)
  show ?thesis
    using assms(4) recv_words_returns [of n 0 "mem f" "[]"] send_words_returns [OF m [unfolded out]] assms(2,3)
    unfolding spiXfer_def out
    by (auto simp: runs_bind [of "forM _ _"] runs_bind [of "send_words _ _"] Let_def
        runs_bind [of "recv_words _ _ _ _"] dest: send_bytes_returns)
qed

text \<open>
  Property C29: reading a number of bytes that is not a multiple of 4 stops the program with the
  panic of the last word's slice, on every run. By then the chip has been selected, all of
  \<open>out\<close> has been shifted out and the words up to and including the one that does not fit have
  been shifted in, and the chip stays selected: no transaction is completed.
\<close>

theorem spiXfer_unaligned:
  assumes "fmc_ok f" "out \<noteq> []" "0 \<le> n" "n mod 4 \<noteq> 0" "runs (spiXfer f out n) tr res"
  shows "res = Failed (Panic ''index out of range'') \<and>
    (\<exists>bs. track (spi_step f) tr (idle l) = \<lparr>selected = True, sent = out, got = bs, xfers = l\<rparr>
      \<and> int (length bs) = 4 * (n div 4 + 1))"
proof -
  obtain cmd rest where out: "out = cmd # rest" using assms(2) by (cases out) auto
  let ?k = "length out mod 4"
  let ?a = "forM (take ?k out) (\<lambda>b. write8 (mem f) 0 b)" and ?b = "send_words (mem f) (drop ?k out)"
  have m: "length (drop ?k out) mod 4 = 0" by (simp add: minus_mod_eq_mult_div)
  let ?s = "(idle l)\<lparr>selected := True\<rparr>"
  obtain tr0 where tr0: "tr = (Wr32 (reg f) FMC_CE0CTL (Sel f cmd OR 3), RUnit) # tr0"
      "runs (seq ?a (seq ?b (bind (recv_words (mem f) n 0 []) (\<lambda>buf.
         seq (write32 (reg f) FMC_CE0CTL (Sel f cmd OR 7)) (Ret buf))))) tr0 res"
    using assms(3,5) by (auto simp: spiXfer_def out Let_def)
  from tr0(2) obtain t1 t2 where t1: "tr0 = t1 @ t2" "runs ?a t1 (Done ())"
      "runs (seq ?b (bind (recv_words (mem f) n 0 []) (\<lambda>buf.
         seq (write32 (reg f) FMC_CE0CTL (Sel f cmd OR 7)) (Ret buf)))) t2 res"
    by (rule runs_bindE) (auto dest: send_bytes_returns)
  from t1(3) obtain t3 t4 where t3: "t2 = t3 @ t4" "runs ?b t3 (Done ())"
      "runs (bind (recv_words (mem f) n 0 []) (\<lambda>buf.
         seq (write32 (reg f) FMC_CE0CTL (Sel f cmd OR 7)) (Ret buf))) t4 res"
    by (rule runs_bindE) (auto dest: send_words_returns [OF m])
  have "wp (spi_step f) (\<lambda>_. True) ?a (\<lambda>_ s. s = ?s\<lparr>sent := take ?k out\<rparr>) ?s"
    by (simp add: wp_send_bytes [OF assms(1)] idle_def)
  from wp_track [OF this _ t1(2)]
  have k1: "track (spi_step f) t1 ?s = ?s\<lparr>sent := take ?k out\<rparr>" by simp
  have "wp (spi_step f) (\<lambda>_. True) ?b (\<lambda>_ s. s = ?s\<lparr>sent := out\<rparr>) (?s\<lparr>sent := take ?k out\<rparr>)"
    by (simp add: wp_send_words [OF assms(1) m] idle_def)
  from wp_track [OF this _ t3(2)]
  have k2: "track (spi_step f) t3 (?s\<lparr>sent := take ?k out\<rparr>) = ?s\<lparr>sent := out\<rparr>" by simp
  have r: "runs (recv_words (mem f) n 0 []) t4 res"
    using t3(3) by (rule runs_bindE) (use recv_words_partial [OF assms(4) _ assms(3)] in fastforce)+
  have "track (spi_step f) tr (idle l) = track (spi_step f) t4 (?s\<lparr>sent := out\<rparr>)"
    using k1 k2 by (simp add: tr0(1) t1(1) t3(1) spi_step_simps ctl_write_def ctl_low [OF assms(1)] idle_def)
  then show ?thesis
    using recv_words_partial [OF assms(4) _ assms(3) r, of "?s\<lparr>sent := out\<rparr>"] by (auto simp: idle_def)
qed

section \<open>Commands with addresses\<close>

text \<open>The address bytes of a command, padded to four.\<close>

definition address_of :: "u8 list \<Rightarrow> u32 option" where
  "address_of bs = get32be (replicate (4 - length bs) 0 @ bs)"

lemma address_4: "address_of (put32be off) = Some off" "length (put32be off) = 4"
  using be32.dec_enc_id [of off] be32.length_enc [of off] by (simp_all add: address_of_def)

lemma address_3:
  assumes "off AND NOT 0xffffff = 0"
  shows "address_of (tl (put32be off)) = Some off" "length (tl (put32be off)) = 3"
proof -
  have m: "(0xffffff :: u32) = mask 24" by (simp add: mask_eq_exp_minus_1)
  have "drop_bit 24 off = 0"
  proof (rule bit_eqI)
    fix i
    have "\<not> bit (off AND NOT 0xffffff) (i + 24)" using assms by simp
    then show "bit (drop_bit 24 off) i \<longleftrightarrow> bit (0 :: u32) i"
      unfolding m by (auto simp: bit_simps add.commute dest: bit_imp_le_length)
  qed
  then have "put32be off = 0 # tl (put32be off)" by (simp add: put32be_def)
  moreover show l: "length (tl (put32be off)) = 3" by (simp add: put32be_def)
  ultimately show "address_of (tl (put32be off)) = Some off"
    using be32.dec_enc_id [of off] by (simp add: address_of_def)
qed

definition four_byte :: "config \<Rightarrow> u8 \<Rightarrow> bool" where
  "four_byte cfg cmd \<longleftrightarrow> SpiMode cfg = 4 \<or> cmd \<in> {FREAD4B, PPROGRAM4B, ERASE4B}"

lemma wp_spiXferAddr:
  assumes "fmc_ok f" "0 \<le> n" "n mod 4 = 0"
    and "\<And>addr bs. int (length bs) = n \<Longrightarrow> address_of addr = Some off
      \<Longrightarrow> length addr = (if four_byte cfg cmd then 4 else 3)
      \<Longrightarrow> Q bs (idle (l @ [(cmd # addr @ extra, bs)]))"
  shows "wp (spi_step f) (\<lambda>_. True) (spiXferAddr cfg f cmd off extra n) Q (idle l)"
proof -
  note x = wp_spiXfer [OF assms(1) list.distinct(2) assms(2,3)]
  have "wp (spi_step f) (\<lambda>_. True) (spiXfer f (cmd # put32be off @ extra) n) Q (idle l)"
    if "four_byte cfg cmd"
    by (rule x, rule assms(4)) (use that address_4 in simp_all)
  moreover have "wp (spi_step f) (\<lambda>_. True) (spiXfer f (cmd # tl (put32be off) @ extra) n) Q (idle l)"
    if "\<not> four_byte cfg cmd" "off AND NOT 0xffffff = 0"
    by (rule x, rule assms(4)) (use that address_3 in simp_all)
  ultimately show ?thesis
    unfolding spiXferAddr_def four_byte_def by auto
qed

lemma spiXferAddr_ok:
  assumes "fmc_ok f" "0 \<le> n" "n mod 4 = 0" "runs (spiXferAddr cfg f cmd off extra n) tr (Done buf)"
  shows "\<exists>addr. track (spi_step f) tr (idle l) = idle (l @ [(cmd # addr @ extra, buf)])
    \<and> address_of addr = Some off \<and> length addr = (if four_byte cfg cmd then 4 else 3)
    \<and> int (length buf) = n"
proof -
  have "wp (spi_step f) (\<lambda>_. True) (spiXferAddr cfg f cmd off extra n)
    (\<lambda>buf s. \<exists>addr. s = idle (l @ [(cmd # addr @ extra, buf)])
      \<and> address_of addr = Some off \<and> length addr = (if four_byte cfg cmd then 4 else 3)
      \<and> int (length buf) = n) (idle l)"
    by (rule wp_spiXferAddr) (use assms in auto)
  from wp_track [OF this _ assms(4)] show ?thesis by simp
qed

lemma fits_24: "(off :: u32) AND NOT 0xffffff = 0 \<longleftrightarrow> off < 0x1000000"
proof -
  have m: "(0xffffff :: u32) = mask 24" by (simp add: mask_eq_exp_minus_1)
  have "off AND NOT 0xffffff = 0 \<longleftrightarrow> take_bit 24 off = off"
  proof
    assume "off AND NOT 0xffffff = 0"
    then have "off = off AND mask 24 OR 0" unfolding m by (metis bit.conj_disj_distrib bit.disj_cancel_right and.right_neutral)
    then show "take_bit 24 off = off" by (simp add: take_bit_eq_mask)
  next
    assume "take_bit 24 off = off"
    then have "off = off AND mask 24" by (simp add: take_bit_eq_mask)
    then have "off AND NOT (mask 24) = (off AND mask 24) AND NOT (mask 24)" by simp
    then show "off AND NOT 0xffffff = 0" unfolding m by (simp add: and.assoc)
  qed
  also have "\<dots> \<longleftrightarrow> off < 2 ^ 24"
  proof
    assume t: "take_bit 24 off = off"
    have "take_bit 24 (uint off) < 2 ^ 24" by (rule take_bit_int_less_exp)
    then have "uint (take_bit 24 off) < 2 ^ 24" by (simp only: unsigned_take_bit_eq)
    then show "off < 2 ^ 24" unfolding t by (simp add: word_less_alt)
  next
    assume "off < 2 ^ 24"
    then have "take_bit 24 (uint off) = uint off" by (intro take_bit_int_eq_self) (simp_all add: word_less_alt)
    then have "uint (take_bit 24 off) = uint off" by (simp only: unsigned_take_bit_eq)
    then show "take_bit 24 off = off" by (rule word_uint_eqI)
  qed
  finally show ?thesis by simp
qed

text \<open>
  Property C25: what becomes of a command with an address. In 4-byte mode, and for a 4-byte
  command in any mode, it is one transaction: the command byte, the address in big-endian order on
  four bytes, the data. A read, program or erase command in 3-byte mode whose address fits 24 bits
  is one transaction with the address on three bytes. In both cases the chip decodes the requested
  address and the call returns the bytes shifted in. Any other command, and a 3-byte command whose
  address does not fit, is refused with a message before the chip is touched.
\<close>

theorem spiXferAddr_frame:
  assumes "fmc_ok f" "0 \<le> n" "n mod 4 = 0" "runs (spiXferAddr cfg f cmd off extra n) tr res"
  shows "let sends = (\<lambda>k. \<exists>addr buf. res = Done buf \<and> int (length buf) = n
        \<and> length addr = k \<and> address_of addr = Some off
        \<and> track (spi_step f) tr (idle l) = idle (l @ [(cmd # addr @ extra, buf)]))
    in if SpiMode cfg = 4 \<or> cmd \<in> {0x0c, 0x12, 0xdc} then sends 4
       else if SpiMode cfg = 3 \<and> cmd \<in> {0x0b, 0x02, 0xd8} \<and> off < 0x1000000 then sends 3
       else tr = [] \<and> (\<exists>msg args. res = Failed (Fatal msg args))"
proof -
  have four: "four_byte cfg cmd \<longleftrightarrow> SpiMode cfg = 4 \<or> cmd \<in> {0x0c, 0x12, 0xdc}"
    by (simp add: four_byte_def spi_ops)
  let ?small = "SpiMode cfg = 3 \<and> cmd \<in> {0x0b, 0x02, 0xd8} \<and> off < 0x1000000"
  define sends where "sends = (\<lambda>k :: nat. \<exists>addr buf. res = Done buf \<and> int (length buf) = n
      \<and> length addr = k \<and> address_of addr = Some off
      \<and> track (spi_step f) tr (idle l) = idle (l @ [(cmd # addr @ extra, buf)]))"
  have "sends (if four_byte cfg cmd then 4 else 3)" if ok: "four_byte cfg cmd \<or> ?small"
  proof -
    obtain buf where buf: "res = Done buf"
      using assms(4) ok spiXfer_returns [OF _ assms(2,3), of "cmd # _" f tr res]
      unfolding spiXferAddr_def fits_24 four by (auto simp: spi_ops split: if_splits)
    then show ?thesis
      using spiXferAddr_ok [OF assms(1-3), of cfg cmd off extra tr buf l] assms(4)
      unfolding sends_def by blast
  qed
  moreover have "tr = [] \<and> (\<exists>msg args. res = Failed (Fatal msg args))"
    if "\<not> four_byte cfg cmd" "\<not> ?small"
    using assms(4) that unfolding spiXferAddr_def fits_24 four by (auto simp: spi_ops split: if_splits)
  ultimately show ?thesis
    unfolding Let_def four [symmetric] sends_def [symmetric] by (cases "four_byte cfg cmd"; cases ?small) simp_all
qed

section \<open>Waiting\<close>

definition polls :: "xfer list \<Rightarrow> bool" where
  "polls ts \<longleftrightarrow> list_all (\<lambda>t. fst t = [STATUS]) ts"

lemma wp_spiStatus:
  assumes "fmc_ok f" "\<And>b bs. Q b (idle (l @ [([STATUS], b # bs)]))"
  shows "wp (spi_step f) (\<lambda>_. True) (spiStatus f) Q (idle l)"
  unfolding spiStatus_def wp_bind
proof (rule wp_spiXfer)
  fix bs :: "u8 list"
  assume "int (length bs) = 4"
  then show "wp (spi_step f) (\<lambda>_. True) (first_byte bs) Q (idle (l @ [([STATUS], bs)]))"
    using assms(2) by (cases bs) (simp_all add: first_byte_def)
qed (use assms(1) in simp_all)

lemma wp_wait_loop:
  assumes "fmc_ok f" "\<And>ts. polls ts \<Longrightarrow> Q () (idle (l @ ts))"
  shows "wp (spi_step f) (\<lambda>_. True) (wait_loop n f e s) Q (idle l)"
  using assms(2)
proof (induction n arbitrary: s l)
  case (Suc n)
  have "Q () (idle l)" using Suc.prems [of "[]"] by (simp add: polls_def)
  moreover have "wp (spi_step f) (\<lambda>_. True) (wait_loop n f e b) Q (idle (l @ [([STATUS], b # bs)]))" for b bs
    by (rule Suc.IH) (use Suc.prems [of "([STATUS], b # bs) # _"] in \<open>simp add: polls_def\<close>)
  ultimately show ?case
    by (auto simp: wp_bind spi_step_simps intro!: wp_spiStatus assms(1))
qed simp

lemma wp_spiWait:
  assumes "fmc_ok f" "\<And>ts. polls ts \<Longrightarrow> Q 0 (idle (l @ ts))"
  shows "wp (spi_step f) (\<lambda>_. True) (spiWait cfg f) Q (idle l)"
proof -
  have "wp (spi_step f) (\<lambda>_. True) (wait_loop (fuel cfg) f e b)
      (\<lambda>x. wp (spi_step f) (\<lambda>_. True) (Ret 0) Q) (idle (l @ [([STATUS], b # bs)]))" for e b bs
    by (rule wp_wait_loop) (use assms assms(2) [of "([STATUS], b # bs) # _"] in \<open>simp_all add: polls_def\<close>)
  then show ?thesis
    unfolding spiWait_def by (auto simp: wp_bind spi_step_simps intro!: wp_spiStatus assms(1))
qed

section \<open>What the flash does\<close>

text \<open>
  A NOR flash with 4-byte commands: write enable and disable, page program (which clears bits,
  wraps around inside its 256-byte page and needs write enable), block erase of \<open>es\<close> bytes.
  Other transactions do not change it.
\<close>

record flash =
  wel :: bool
  cells :: "int \<Rightarrow> u8"

definition program_page :: "int \<Rightarrow> u8 list \<Rightarrow> (int \<Rightarrow> u8) \<Rightarrow> int \<Rightarrow> u8" where
  "program_page a ds c = (\<lambda>x.
     if x div 256 = a div 256 \<and> (x - a) mod 256 < int (length ds)
     then c x AND ds ! nat ((x - a) mod 256) else c x)"

definition erase_block :: "int \<Rightarrow> int \<Rightarrow> (int \<Rightarrow> u8) \<Rightarrow> int \<Rightarrow> u8" where
  "erase_block es a c = (\<lambda>x. if x div es = a div es then 0xff else c x)"

definition flash_cmd :: "int \<Rightarrow> u8 \<Rightarrow> u32 \<Rightarrow> u8 list \<Rightarrow> flash \<Rightarrow> flash" where
  "flash_cmd es c a ds s =
     (if \<not> wel s then s
      else if c = PPROGRAM4B then \<lparr>wel = False, cells = program_page (uint a) ds (cells s)\<rparr>
      else if c = ERASE4B then \<lparr>wel = False, cells = erase_block es (uint a) (cells s)\<rparr>
      else s)"

definition flash_xfer :: "int \<Rightarrow> xfer \<Rightarrow> flash \<Rightarrow> flash" where
  "flash_xfer es t s = (case fst t of
       [] \<Rightarrow> s
     | c # bs \<Rightarrow>
         if c = 0x06 then s\<lparr>wel := True\<rparr>
         else if c = 0x04 then s\<lparr>wel := False\<rparr>
         else (case get32be bs of Some a \<Rightarrow> flash_cmd es c a (drop 4 bs) s | None \<Rightarrow> s))"

definition flash_run :: "int \<Rightarrow> xfer list \<Rightarrow> flash \<Rightarrow> flash" where
  "flash_run es ts s = fold (flash_xfer es) ts s"

lemma flash_run_simps [simp]:
  "flash_run es [] s = s"
  "flash_run es (t # ts) s = flash_run es ts (flash_xfer es t s)"
  "flash_run es (ts @ us) s = flash_run es us (flash_run es ts s)"
  by (simp_all add: flash_run_def)

lemma flash_polls: "polls ts \<Longrightarrow> flash_run es ts s = s"
proof (induction ts arbitrary: s)
  case (Cons t ts)
  then have "flash_xfer es t s = s" by (simp add: flash_xfer_def polls_def STATUS_def)
  then show ?case using Cons by (simp add: polls_def)
qed simp

lemma flash_enable: "flash_xfer es ([0x06], bs) s = s\<lparr>wel := True\<rparr>"
  by (simp add: flash_xfer_def)

lemma flash_address:
  assumes "address_of addr = Some a" "length addr = 4" "c \<noteq> 0x06" "c \<noteq> 0x04"
  shows "flash_xfer es (c # addr @ ds, bs) s = flash_cmd es c a ds s"
proof -
  obtain w where "get32be addr = Some w" "w = a" using assms(1,2) by (auto simp: address_of_def)
  then have "get32be (addr @ ds) = Some a"
    using be32.enc_dec [of addr a] be32.dec_enc [of a ds] assms(2) by simp
  then show ?thesis using assms by (simp add: flash_xfer_def)
qed

text \<open>Programming a chunk of erased bytes that ends with its page stores them.\<close>

lemma program_erased:
  assumes "0 \<le> a" "int (length ds) \<le> 256 - a mod 256"
    and "\<And>x. a \<le> x \<Longrightarrow> x < a + int (length ds) \<Longrightarrow> c x = 0xff"
  shows "program_page a ds c = put_bytes c a ds"
proof
  fix x
  have eq: "x div 256 = a div 256 \<and> (x - a) mod 256 < int (length ds)
      \<longleftrightarrow> a \<le> x \<and> x < a + int (length ds)" (is "?l \<longleftrightarrow> ?r")
  proof
    assume l: ?l
    have x: "x = 256 * (a div 256) + x mod 256" "a = 256 * (a div 256) + a mod 256"
      using l by (metis mult_div_mod_eq)+
    have "a \<le> x"
    proof (rule ccontr)
      assume "\<not> a \<le> x"
      then have "(x - a + 256) mod 256 = x - a + 256"
        using x by (intro mod_pos_pos_trivial) (use pos_mod_bound [of 256 a] pos_mod_sign [of 256 x] in linarith)+
      then have "(x - a) mod 256 = x - a + 256" by simp
      moreover have "0 \<le> x mod 256" by simp
      ultimately show False using l assms(2) x by linarith
    qed
    moreover have "(x - a) mod 256 = x - a"
      using x \<open>a \<le> x\<close> by (intro mod_pos_pos_trivial) (use pos_mod_bound [of 256 x] pos_mod_sign [of 256 a] in linarith)+
    ultimately show ?r using l by linarith
  next
    assume r: ?r
    then have "x = 256 * (a div 256) + (a mod 256 + (x - a))"
      by (simp add: algebra_simps)
    moreover have "0 \<le> a mod 256 + (x - a)" "a mod 256 + (x - a) < 256"
      using r assms(2) pos_mod_sign [of 256 a] by linarith+
    ultimately have "x div 256 = a div 256"
      by (metis add.commute add.right_neutral div_mult_self4 div_pos_pos_trivial zero_neq_numeral)
    moreover have "(x - a) mod 256 = x - a"
      using r assms(2) pos_mod_sign [of 256 a] by (intro mod_pos_pos_trivial) linarith+
    ultimately show ?l using r by simp
  qed
  have "c x AND d = d" if ?r for d
  proof -
    have "c x = - 1" using assms(3) [of x] that by simp
    then show ?thesis by simp
  qed
  moreover have "(x - a) mod 256 = x - a" if ?r
    using that assms(2) pos_mod_sign [of 256 a] by (intro mod_pos_pos_trivial) linarith+
  ultimately show "program_page a ds c x = put_bytes c a ds x"
    unfolding program_page_def put_bytes_def eq by (cases "a \<le> x \<and> x < a + int (length ds)") auto
qed

section \<open>Programming and erasing\<close>

lemma wp_writeEnable:
  assumes "fmc_ok f" "Q () (idle (l @ [([0x06], [])]))"
  shows "wp (spi_step f) (\<lambda>_. True) (writeEnable f) Q (idle l)"
  unfolding writeEnable_def wp_bind by (rule wp_spiXfer) (use assms in simp_all)

text \<open>
  One command with write enable: the transactions of write enable, the command, the polls. Both
  erasing and programming are this, followed by the test of the status.
\<close>

lemma wp_command:
  assumes "fmc_ok f" "c \<in> {PPROGRAM4B, ERASE4B}"
    and "\<And>ts. (\<And>s. flash_run es ts s = flash_cmd es c a ds (s\<lparr>wel := True\<rparr>)) \<Longrightarrow>
      wp (spi_step f) (\<lambda>_. True) (k 0) Q (idle (l @ ts))"
  shows "wp (spi_step f) (\<lambda>_. True)
    (seq (writeEnable f) (seq (spiXferAddr cfg f c a ds 0) (bind (spiWait cfg f) k))) Q (idle l)"
  unfolding wp_bind
proof (rule wp_writeEnable [OF assms(1)], rule wp_spiXferAddr [OF assms(1)])
  fix addr bs :: "u8 list"
  assume addr: "address_of addr = Some a" "length addr = (if four_byte cfg c then 4 else 3)"
    and bs: "int (length bs) = 0"
  have four: "length addr = 4" "c \<noteq> 0x06" "c \<noteq> 0x04"
    using assms(2) addr(2) by (auto simp: four_byte_def spi_ops)
  show "wp (spi_step f) (\<lambda>_. True) (spiWait cfg f) (\<lambda>x. wp (spi_step f) (\<lambda>_. True) (k x) Q)
      (idle ((l @ [([0x06], [])]) @ [(c # addr @ ds, bs)]))"
  proof (rule wp_spiWait [OF assms(1)])
    fix ts
    assume "polls ts"
    then have "flash_run es (([0x06], []) # (c # addr @ ds, bs) # ts) s = flash_cmd es c a ds (s\<lparr>wel := True\<rparr>)"
      for s
      using flash_address [OF addr(1) four, of es ds bs] by (simp add: flash_enable flash_polls)
    from assms(3) [OF this]
    show "wp (spi_step f) (\<lambda>_. True) (k 0) Q (idle (((l @ [([0x06], [])]) @ [(c # addr @ ds, bs)]) @ ts))"
      by simp
  qed
qed simp_all

definition erased :: "(int \<Rightarrow> u8) \<Rightarrow> int \<Rightarrow> nat \<Rightarrow> bool" where
  "erased c a n \<longleftrightarrow> (\<forall>x. a \<le> x \<and> x < a + int n \<longrightarrow> c x = 0xff)"

definition programmed :: "int \<Rightarrow> int \<Rightarrow> u8 list \<Rightarrow> xfer list \<Rightarrow> bool" where
  "programmed es off buf ts \<longleftrightarrow>
     (\<forall>s. erased (cells s) off (length buf) \<longrightarrow> cells (flash_run es ts s) = put_bytes (cells s) off buf)"

lemma programmed_step:
  assumes "0 \<le> off" "off + int (length c) \<le> 2 ^ 32" "c \<noteq> []" "int (length c) \<le> 256 - off mod 256"
    and run: "\<And>s. flash_run es ts s = flash_cmd es PPROGRAM4B (word_of_int off) c (s\<lparr>wel := True\<rparr>)"
    and rest: "programmed es (off + int (length c)) buf us"
  shows "programmed es off (c @ buf) (ts @ us)"
  unfolding programmed_def
proof (intro allI impI)
  fix s :: flash
  assume er: "erased (cells s) off (length (c @ buf))"
  have "off < 2 ^ 32" using assms(2,3) by (cases c) auto
  then have "uint (word_of_int off :: u32) = off" using assms(1) by (simp add: uint_word_of_int)
  then have "cells (flash_run es ts s) = program_page off c (cells s)"
    by (simp add: run flash_cmd_def)
  also have "\<dots> = put_bytes (cells s) off c"
    using er by (intro program_erased assms(1,4)) (simp add: erased_def)
  finally have 1: "cells (flash_run es ts s) = put_bytes (cells s) off c" .
  then have "erased (cells (flash_run es ts s)) (off + int (length c)) (length buf)"
    using er assms(1) by (auto simp: erased_def put_bytes_def)
  then show "cells (flash_run es (ts @ us) s) = put_bytes (cells s) off (c @ buf)"
    using rest 1 by (simp add: programmed_def put_bytes_append)
qed

lemma wp_Write:
  assumes "fmc_ok f" "program_op f = PPROGRAM4B" "0 \<le> off" "off + int (length buf) \<le> 2 ^ 32"
  shows "wp (spi_step f) (\<lambda>_. True) (Write cfg f off buf)
    (\<lambda>_ s. \<exists>ts. s = idle (l @ ts) \<and> programmed es off buf ts) (idle l)"
  using assms
proof (induction cfg f off buf arbitrary: l rule: Write.induct)
  case (1 cfg f off buf)
  show ?case
  proof (cases "buf = []")
    case True
    then have "programmed es off buf []"
      by (auto simp: programmed_def put_bytes_def fun_eq_iff)
    then show ?thesis using True by (subst Write.simps) (auto intro: exI [of _ "[]"])
  next
    case False
    let ?n = "chunk off buf"
    have n: "0 < ?n" "?n \<le> length buf" "int ?n \<le> 256 - off mod 256"
      using chunk_pos [OF False, of off] by (simp_all add: chunk_def and_ff)
    have off: "i64 (off + int ?n) = off + int ?n" "off + int ?n \<le> 2 ^ 32"
      using "1.prems"(3,4) n(2) by simp_all
    have c: "take ?n buf \<noteq> []" "int (length (take ?n buf)) = int ?n" using n False by auto
    show ?thesis
      unfolding Write.simps [of cfg f off buf] if_not_P [OF False] "1.prems"(2)
    proof (rule wp_command [OF "1.prems"(1)])
      fix ts
      assume ts: "\<And>s. flash_run es ts s = flash_cmd es PPROGRAM4B (word_of_int off) (take ?n buf) (s\<lparr>wel := True\<rparr>)"
      have "wp (spi_step f) (\<lambda>_. True) (Write cfg f (off + int ?n) (drop ?n buf))
          (\<lambda>_ s. \<exists>us. s = idle ((l @ ts) @ us) \<and> programmed es (off + int ?n) (drop ?n buf) us) (idle (l @ ts))"
        using "1.IH" [OF False, of 0 "l @ ts"] "1.prems" n(2) off by simp
      moreover have "programmed es off buf (ts @ us)" if "programmed es (off + int ?n) (drop ?n buf) us" for us
        using programmed_step [OF "1.prems"(3) _ c(1) _ ts, of "drop ?n buf" us] that off(2) n c(2) by simp
      ultimately show "wp (spi_step f) (\<lambda>_. True)
          (if (0 :: u8) \<noteq> 0 then Fail (Fatal ''While Page Programming 0x%x:  status = 0x%02x'' [AI off, AW (0 :: u8)])
           else Write cfg f (i64 (off + int ?n)) (drop ?n buf))
          (\<lambda>_ s. \<exists>ts. s = idle (l @ ts) \<and> programmed es off buf ts) (idle (l @ ts))"
        unfolding off(1) by (auto elim!: wp_mono)
    qed simp
  qed
qed

text \<open>
  Property C21: programming a buffer at an address of the flash whose bytes are erased stores
  exactly those bytes there and changes nothing else, however the range lies across the pages:
  no page program wraps around inside its page, and each is enabled and waited for.
\<close>

theorem Write_programs:
  assumes "fmc_ok f" "program_op f = PPROGRAM4B" "0 \<le> off" "off + int (length buf) \<le> 2 ^ 32"
    and "erased (cells s) off (length buf)" "runs (Write cfg f off buf) tr (Done ())"
  shows "\<exists>ts. track (spi_step f) tr (idle l) = idle (l @ ts)
    \<and> cells (flash_run es ts s) = put_bytes (cells s) off buf"
  using wp_track [OF wp_Write [OF assms(1-4), where l = l and es = es and cfg = cfg] _ assms(6)] assms(5)
  by (auto simp: programmed_def)

text \<open>
  Property C26: erasing a block sets every byte of the erase block the address lies in, and no
  other.
\<close>

theorem EraseBlock_erases:
  assumes "fmc_ok f" "erase_op f = ERASE4B" "0 \<le> off" "off < 2 ^ 32"
    and "runs (EraseBlock cfg f off) tr (Done ())"
  shows "\<exists>ts. track (spi_step f) tr (idle l) = idle (l @ ts)
    \<and> cells (flash_run es ts s) = erase_block es off (cells s)"
proof -
  have "wp (spi_step f) (\<lambda>_. True) (EraseBlock cfg f off)
    (\<lambda>_ s'. \<exists>ts. s' = idle (l @ ts) \<and> cells (flash_run es ts s) = erase_block es off (cells s)) (idle l)"
    unfolding EraseBlock_def assms(2)
  proof (rule wp_command [OF assms(1)])
    fix ts
    assume "\<And>s. flash_run es ts s = flash_cmd es ERASE4B (word_of_int off) [] (s\<lparr>wel := True\<rparr>)"
    moreover have "uint (word_of_int off :: u32) = off" using assms(3,4) by (simp add: uint_word_of_int)
    ultimately have "cells (flash_run es ts s) = erase_block es off (cells s)"
      by (simp add: flash_cmd_def spi_ops)
    then show "wp (spi_step f) (\<lambda>_. True)
        (if (0 :: u8) \<noteq> 0 then Fail (Fatal ''While erasing sector 0x%x:  status = 0x%02x'' [AI off, AW (0 :: u8)])
         else Ret ())
        (\<lambda>_ s'. \<exists>ts. s' = idle (l @ ts) \<and> cells (flash_run es ts s) = erase_block es off (cells s))
        (idle (l @ ts))"
      by auto
  qed simp
  from wp_track [OF this _ assms(5)] show ?thesis by simp
qed

section \<open>Waits end\<close>

lemma in_time_send_words [in_time_intros]: "in_time (send_words m bs)"
  by (induction m bs rule: send_words.induct)
    (subst send_words.simps, auto split: option.split intro!: in_time_intros)

lemma in_time_recv_words [in_time_intros]: "in_time (recv_words m n x buf)"
  by (induction m n x buf rule: recv_words.induct)
    (subst recv_words.simps, auto intro!: in_time_intros)

lemma in_time_spiXfer [in_time_intros]: "in_time (spiXfer f out n)"
  unfolding spiXfer_def by (auto split: list.split simp: Let_def intro!: in_time_intros)

lemma in_time_spiXferAddr [in_time_intros]: "in_time (spiXferAddr cfg f cmd off extra n)"
  unfolding spiXferAddr_def by (intro in_time_intros)

lemma in_time_SpiRead [in_time_intros]: "in_time (SpiRead cfg f off n)"
  unfolding SpiRead_def by (rule in_time_spiXferAddr)

lemma in_time_first_byte [in_time_intros]: "in_time (first_byte bs)"
  unfolding first_byte_def by (auto split: list.split)

lemma in_time_spiStatus [in_time_intros]: "in_time (spiStatus f)"
  unfolding spiStatus_def by (intro in_time_intros)

lemma in_time_writeEnable [in_time_intros]: "in_time (writeEnable f)"
  unfolding writeEnable_def by (intro in_time_intros)

text \<open>A turn sleeps for 10 microseconds, and the status is read again only before the deadline.\<close>

interpretation flash_wait: waiting "\<lambda>n. wait_loop n f expire" expire 10000 for f expire
proof
  fix n s tr t
  assume r: "runs (wait_loop (Suc n) f expire s) tr (Failed OutOfFuel)" and c: "clocked t tr"
  then obtain u tr' where u: "tr = (Sleep 10000, RUnit) # (Now, RInt u) # tr'" "u \<le> expire"
    "runs (bind (spiStatus f) (\<lambda>s. wait_loop n f expire s)) tr' (Failed OutOfFuel)"
    by (auto split: if_splits)
  have c': "t + 10000 \<le> u" "clocked u tr'" using c u(1) by simp_all
  from u(3) show "\<exists>s' t' tr'. runs (wait_loop n f expire s') tr' (Failed OutOfFuel) \<and> clocked t' tr' \<and>
      t + 10000 \<le> t' \<and> t' \<le> expire"
  proof (cases rule: runs_bindE)
    case (ok tr1 tr2 x)
    then have "clocked u tr2" using clocked_append c'(2) by blast
    then show ?thesis using c'(1) u(2) ok(2) by blast
  next
    case (fail e)
    then show ?thesis using in_timeD [OF in_time_spiStatus c'(2)] by blast
  qed
qed

lemma in_time_spiWait [in_time_intros]: "1000001 \<le> fuel cfg \<Longrightarrow> in_time (spiWait cfg f)"
  unfolding spiWait_def
  by (rule in_time_wait [where gap = 10000]) (auto intro: flash_wait.waiting_axioms in_time_spiStatus)

lemma in_time_EraseBlock [in_time_intros]: "1000001 \<le> fuel cfg \<Longrightarrow> in_time (EraseBlock cfg f off)"
  unfolding EraseBlock_def by (intro in_time_intros) 

lemma in_time_Write [in_time_intros]: "1000001 \<le> fuel cfg \<Longrightarrow> in_time (Write cfg f off buf)"
proof (induction cfg f off buf rule: Write.induct)
  case (1 cfg f off buf)
  show ?case
  proof (cases "buf = []")
    case False
    show ?thesis
      by (subst Write.simps) (intro in_time_intros "1.IH" False "1.prems" | simp)+
  qed (simp add: Write.simps)
qed

section \<open>The status, and the set-up\<close>

text \<open>The busy bit of the last status read in a run of the wait, if there was one.\<close>

lemma wait_loop_idle:
  assumes "runs (wait_loop n f e s) tr (Done ())"
  shows "s AND 1 = 0 \<or> (\<exists>tr1 tr2 b. tr = tr1 @ tr2 \<and> b AND 1 = 0 \<and> runs (spiStatus f) tr2 (Done b))"
  using assms
proof (induction n arbitrary: s tr)
  case (Suc n)
  show ?case
  proof (cases "s AND 1 = 0")
    case False
    then obtain t tr0 where "tr = (Sleep 10000, RUnit) # (Now, RInt t) # tr0"
        "runs (bind (spiStatus f) (wait_loop n f e)) tr0 (Done ())"
      using Suc.prems by (auto split: if_splits)
    then obtain tr1 tr2 b where b: "tr = ((Sleep 10000, RUnit) # (Now, RInt t) # tr1) @ tr2"
        "runs (spiStatus f) tr1 (Done b)" "runs (wait_loop n f e b) tr2 (Done ())"
      by (auto elim!: runs_bindE)
    from Suc.IH [OF b(3)] show ?thesis
    proof
      assume z: "b AND 1 = 0"
      then have "tr2 = []" using b(3) by (cases n) simp_all
      then show ?thesis using b z by (metis append.right_neutral append_Cons append_Nil)
    next
      assume "\<exists>tr1 tr2' b. tr2 = tr1 @ tr2' \<and> b AND 1 = 0 \<and> runs (spiStatus f) tr2' (Done b)"
      then show ?thesis using b(1) by (metis append_assoc)
    qed
  qed simp
qed simp

text \<open>
  When \<open>spiWait\<close> returns, the last status it read had the busy bit clear; but what
  it returns is 0 whatever that status was, so its callers' tests of the status never see an
  erase or program error.
\<close>

lemma spiWait_drops_status:
  assumes "runs (spiWait cfg f) tr (Done v)"
  shows "v = 0 \<and> (\<exists>tr1 tr2 b. tr = tr1 @ tr2 \<and> b AND 1 = 0 \<and> runs (spiStatus f) tr2 (Done b))"
proof -
  obtain t0 tr1 tr2 s where r: "tr = (Now, RInt t0) # tr1 @ tr2" "runs (spiStatus f) tr1 (Done s)"
      "runs (wait_loop (fuel cfg) f (t0 + 10000000000) s) tr2 (Done ())" "v = 0"
    using assms by (auto simp: spiWait_def elim!: runs_bindE)
  from wait_loop_idle [OF r(3)] show ?thesis
  proof
    assume z: "s AND 1 = 0"
    then have "tr2 = []" using r(3) by (cases "fuel cfg") simp_all
    then show ?thesis using r z by (metis append.right_neutral append_Cons append_Nil)
  next
    assume "\<exists>tr1 tr2' b. tr2 = tr1 @ tr2' \<and> b AND 1 = 0 \<and> runs (spiStatus f) tr2' (Done b)"
    then show ?thesis using r(1,4) by (metis append_Cons append_assoc)
  qed
qed

lemma spiDb_chip:
  assumes "spiDb i = Some chip"
  shows "op4b chip \<and> EraseSize chip \<in> {0x10000, 0x40000} \<and> EraseSize chip dvd Size chip
    \<and> Size chip \<le> 64 * 1024 * 1024"
  using assms by (auto simp: spiDb_def split: if_splits)

lemma FmcInit_result:
  assumes "runs (FmcInit cfg r m) tr (Done f)"
  shows "\<exists>i chip. spiDb i = Some chip \<and> f = set_ops ((fmc_start r m)\<lparr>spi_id := i, Chip := chip\<rparr>)"
proof -
  obtain i chip where "spiDb i = Some chip" "f = set_ops ((fmc_start r m)\<lparr>spi_id := i, Chip := chip\<rparr>)"
    using assms by (auto simp: FmcInit_def Let_def elim!: runs_bindE split: option.splits if_splits)
  then show ?thesis by blast
qed

text \<open>The set-up, piece by piece: the transactions of each, and what was learned from them.\<close>

lemma spi_step_cong: "reg f = reg g \<Longrightarrow> mem f = mem g \<Longrightarrow> spi_step f = spi_step g"
  by (intro ext) (auto simp: spi_step_def split: op.split resp.split)

lemma spiId_run:
  assumes "fmc_ok f" "runs (spiId f) tr (Done i)"
  shows "\<exists>bs. track (spi_step f) tr (idle l) = idle (l @ [([0x9f], bs)]) \<and> length bs = 4
    \<and> i = 0x10000 * ucast (bs ! 0) + 0x100 * ucast (bs ! 1) + ucast (bs ! 2)"
proof -
  obtain bs where bs: "runs (spiXfer f [0x9f] 4) tr (Done bs)"
      "runs (case bs of a # b # c # _ \<Rightarrow> Ret (push_bit 16 (ucast a) + push_bit 8 (ucast b) + ucast c)
        | _ \<Rightarrow> index_panic) [] (Done i)"
    using assms(2) by (auto simp: spiId_def index_panic_def elim!: runs_bindE split: list.splits)
  from spiXfer_transaction [OF assms(1) _ _ _ bs(1), of l]
  have t: "track (spi_step f) tr (idle l) = idle (l @ [([0x9f], bs)])" "length bs = 4" by simp_all
  then obtain a b c d where "bs = [a, b, c, d]" by (auto simp: numeral_eq_Suc length_Suc_conv)
  then show ?thesis using bs(2) t by (auto simp: push_bit_eq_mult mult.commute)
qed

lemma first_byte_run:
  assumes "fmc_ok f" "runs (bind (spiXfer f [c] 4) first_byte) tr (Done b)"
  shows "\<exists>bs. track (spi_step f) tr (idle l) = idle (l @ [([c], b # bs)])"
proof -
  obtain bs where bs: "runs (spiXfer f [c] 4) tr (Done bs)" "runs (first_byte bs) [] (Done b)"
    using assms(2) by (auto simp: first_byte_def index_panic_def elim!: runs_bindE split: list.splits)
  from spiXfer_transaction [OF assms(1) _ _ _ bs(1), of l] bs(2) show ?thesis
    by (auto simp: first_byte_def index_panic_def split: list.splits)
qed

lemma command_run:
  assumes "fmc_ok f" "out \<noteq> []" "runs (seq (spiXfer f out 0) (Ret ())) tr (Done ())"
  shows "track (spi_step f) tr (idle l) = idle (l @ [(out, [])])"
proof -
  obtain bs where bs: "runs (spiXfer f out 0) tr (Done bs)" using assms(3) by (auto elim!: runs_bindE)
  from spiXfer_transaction [OF assms(1,2) _ _ bs, of l] show ?thesis by simp
qed

text \<open>
  The chips of the database, as their data sheets have them: the command that enters and leaves
  4-byte mode, and the register and mask that tell the mode.
\<close>

definition mode_command :: "u32 \<Rightarrow> bool \<Rightarrow> u8 list option" where
  "mode_command i four = (if i = 0x010220 then Some [0x17, if four then 0x80 else 0]
     else if i = 0xef4019 then None else Some [if four then 0xb7 else 0xe9])"

definition mode_query :: "u32 \<Rightarrow> u8 \<times> u8" where
  "mode_query i = (if i = 0x20ba20 then (0x70, 0x01) else if i = 0x010220 then (0x16, 0x80)
     else if i = 0xef4019 then (0x15, 0x01) else (0x15, 0x20))"

lemma spiDb_mx:
  assumes "spiDb i = Some chip"
  shows "mx3b4b chip \<longleftrightarrow> i \<noteq> 0x010220 \<and> i \<noteq> 0xef4019"
  using assms by (auto simp: spiDb_def split: if_splits)

lemma set_mode_run:
  assumes "fmc_ok f" "spiDb (spi_id f) = Some (Chip f)" "runs (set_mode cfg f) tr (Done ())"
  shows "if SpiMode cfg = 0 then tr = []
    else SpiMode cfg \<in> {3, 4} \<and> (\<exists>t c. tr = t @ [(Wr32 (reg f) 4 (if SpiMode cfg = 4 then 0x701 else 0x700), RUnit)]
      \<and> mode_command (spi_id f) (SpiMode cfg = 4) = Some c \<and> track (spi_step f) t (idle []) = idle [(c, [])])"
proof -
  have 4: "\<exists>c. mode_command (spi_id f) True = Some c \<and> track (spi_step f) t (idle []) = idle [(c, [])]"
    if "runs (spi4B f) t (Done ())" for t
    using that command_run [OF assms(1), of _ t "[]"] spiDb_mx [OF assms(2)]
    by (auto simp: spi4B_def mode_command_def split: if_splits)
  have 3: "\<exists>c. mode_command (spi_id f) False = Some c \<and> track (spi_step f) t (idle []) = idle [(c, [])]"
    if "runs (spi3B f) t (Done ())" for t
    using that command_run [OF assms(1), of _ t "[]"] spiDb_mx [OF assms(2)]
    by (auto simp: spi3B_def mode_command_def split: if_splits)
  show ?thesis
    using assms(3) 3 4 by (auto simp: set_mode_def elim!: runs_bindE split: if_splits)
qed

lemma is4B_run:
  assumes "fmc_ok f" "spiDb (spi_id f) = Some (Chip f)" "runs (is4B f) tr (Done b)"
  shows "\<exists>a bs. track (spi_step f) tr (idle []) = idle [([fst (mode_query (spi_id f))], a # bs)]
    \<and> (b \<longleftrightarrow> a AND snd (mode_query (spi_id f)) \<noteq> 0)"
proof -
  have q: "\<exists>a bs. track (spi_step f) tr (idle []) = idle [([c], a # bs)] \<and> (b \<longleftrightarrow> a AND k \<noteq> 0)"
    if run: "runs (bind (bind (spiXfer f [c] 4) first_byte) (\<lambda>x. Ret (x AND k \<noteq> 0))) tr (Done b)" for c k
  proof -
    obtain a where "runs (bind (spiXfer f [c] 4) first_byte) tr (Done a)" "b \<longleftrightarrow> a AND k \<noteq> 0"
      using run unfolding runs_bind [of "bind _ first_byte"] by auto
    then show ?thesis using first_byte_run [OF assms(1), of c tr a "[]"] by auto
  qed
  show ?thesis
    using assms(3) q spiDb_mx [OF assms(2)]
    unfolding is4B_def mode_query_def spi_ops by (simp split: if_splits)
qed

lemma check_mode_run:
  assumes "fmc_ok f" "spiDb (spi_id f) = Some (Chip f)" "runs (check_mode f) tr (Done ())"
  shows "\<exists>v t a bs. tr = (Rd32 (reg f) 4, RU32 v) # t
    \<and> track (spi_step f) t (idle []) = idle [([fst (mode_query (spi_id f))], a # bs)]
    \<and> (v AND 1 \<noteq> 0 \<longleftrightarrow> a AND snd (mode_query (spi_id f)) \<noteq> 0)"
proof -
  obtain v t where t: "tr = (Rd32 (reg f) 4, RU32 v) # t" "runs (is4B f) t (Done (v AND 1 \<noteq> 0))"
    using assms(3) by (auto simp: check_mode_def Let_def elim!: runs_bindE split: if_splits)
  from is4B_run [OF assms(1,2) t(2)] t(1) show ?thesis by blast
qed

text \<open>
  Property C27: what the set-up of the flash did when it returns. It read the identification of
  the chip, which is in the database, and the status, which had no bit but write enable (then it
  was disabled) and bit 6; with a mode asked for on the command line it sent the chip's own
  command for that mode and set the controller to it, without one it changed neither; and last it
  read the address mode from the controller and from the chip, and they agreed. The handle drives
  the chip with the 4-byte commands only, has the controller's control words, and its erase size
  divides the size of the chip, which fits the mapped window: the conditions under which reading,
  erasing and programming are correct.
\<close>

theorem FmcInit_ready:
  assumes "runs (FmcInit cfg r m) tr (Done f)" "r \<noteq> m"
  shows "fmc_ok f \<and> reg f = r \<and> mem f = m \<and> spiDb (spi_id f) = Some (Chip f)
    \<and> read_op f = FREAD4B \<and> program_op f = PPROGRAM4B \<and> erase_op f = ERASE4B
    \<and> EraseSize (Chip f) \<in> {0x10000, 0x40000} \<and> EraseSize (Chip f) dvd Size (Chip f)
    \<and> Size (Chip f) \<le> 64 * 1024 * 1024
    \<and> (\<exists>t1 t2 t3 v ident st sts a as. tr = t1 @ t2 @ (Rd32 r 4, RU32 v) # t3
      \<and> track (spi_step f) t1 (idle []) = idle ([([0x9f], ident), ([0x05], st # sts)]
          @ (if st AND 2 \<noteq> 0 then [([0x04], [])] else []))
      \<and> spi_id f = 0x10000 * ucast (ident ! 0) + 0x100 * ucast (ident ! 1) + ucast (ident ! 2)
      \<and> st AND NOT 0x42 = 0
      \<and> (if SpiMode cfg = 0 then t2 = []
         else SpiMode cfg \<in> {3, 4} \<and> (\<exists>t c. mode_command (spi_id f) (SpiMode cfg = 4) = Some c
           \<and> t2 = t @ [(Wr32 r 4 (if SpiMode cfg = 4 then 0x701 else 0x700), RUnit)]
           \<and> track (spi_step f) t (idle []) = idle [(c, [])]))
      \<and> track (spi_step f) t3 (idle []) = idle [([fst (mode_query (spi_id f))], a # as)]
      \<and> (v AND 1 \<noteq> 0 \<longleftrightarrow> a AND snd (mode_query (spi_id f)) \<noteq> 0))"
proof -
  let ?s = "fmc_start r m"
  have ok0: "fmc_ok ?s" using assms(2) by (simp add: fmc_ok_def fmc_start_def)
  obtain i chip t1 tr1 where c: "spiDb i = Some chip" "tr = t1 @ tr1" "runs (spiId ?s) t1 (Done i)"
      and 1: "runs (bind (spiStatus (?s\<lparr>spi_id := i, Chip := chip\<rparr>)) (\<lambda>st. let stat = st AND NOT 0x40
        in if stat AND NOT 2 \<noteq> 0 then Fail (Fatal ''SpiStatus:0x%02x (spiid==0x%06x)'' [AW stat, AW i])
           else seq (whenM (stat AND 2 \<noteq> 0) (writeDisable (?s\<lparr>spi_id := i, Chip := chip\<rparr>)))
             (seq (set_mode cfg (?s\<lparr>spi_id := i, Chip := chip\<rparr>))
               (seq (check_mode (?s\<lparr>spi_id := i, Chip := chip\<rparr>)) (Ret (set_ops (?s\<lparr>spi_id := i, Chip := chip\<rparr>))))))) tr1 (Done f)"
    using assms(1) unfolding FmcInit_def by (auto simp: Let_def elim!: runs_bindE [of "spiId _"] split: option.splits)
  define g where "g = ?s\<lparr>spi_id := i, Chip := chip\<rparr>"
  have g: "fmc_ok g" "spiDb (spi_id g) = Some (Chip g)" "reg g = r" "mem g = m" "spi_id g = i"
    using ok0 c(1) by (simp_all add: g_def fmc_ok_def fmc_start_def)
  from 1 [folded g_def] obtain t2 tr2 st where 2: "tr1 = t2 @ tr2" "runs (spiStatus g) t2 (Done st)"
      "(st AND NOT 0x40) AND NOT 2 = 0" and r: "runs (seq (whenM ((st AND NOT 0x40) AND 2 \<noteq> 0) (writeDisable g))
        (seq (set_mode cfg g) (seq (check_mode g) (Ret (set_ops g))))) tr2 (Done f)"
    unfolding Let_def by (rule runs_bindE) (auto split: if_split_asm)
  from r obtain t3 tr3 where 3: "tr2 = t3 @ tr3"
      "runs (whenM ((st AND NOT 0x40) AND 2 \<noteq> 0) (writeDisable g)) t3 (Done ())"
      and r: "runs (seq (set_mode cfg g) (seq (check_mode g) (Ret (set_ops g)))) tr3 (Done f)"
    by (rule runs_bindE) auto
  from r obtain t4 t5 where 4: "tr3 = t4 @ t5" "runs (set_mode cfg g) t4 (Done ())"
      "runs (check_mode g) t5 (Done ())" "f = set_ops g"
    by (auto elim!: runs_bindE)
  have f: "spi_step f = spi_step g" "spi_step ?s = spi_step g" "spi_id f = i" "reg f = r" "mem f = m"
    by (rule spi_step_cong; simp add: 4 g_def set_ops_def fmc_start_def)+
      (simp_all add: 4 g_def set_ops_def fmc_start_def)
  obtain ident where ident: "track (spi_step g) t1 (idle []) = idle [([0x9f], ident)]"
      "i = 0x10000 * ucast (ident ! 0) + 0x100 * ucast (ident ! 1) + ucast (ident ! 2)"
    using spiId_run [OF ok0 c(3), of "[]"] unfolding f by auto
  obtain sts where sts: "track (spi_step g) t2 (idle [([0x9f], ident)]) = idle [([0x9f], ident), ([0x05], st # sts)]"
    using first_byte_run [OF g(1) 2(2) [unfolded spiStatus_def], of "[([0x9f], ident)]"] by (auto simp: spi_ops)
  have bit: "(st AND NOT 0x40) AND 2 = st AND 2" "(st AND NOT 0x40) AND NOT 2 = st AND NOT 0x42"
    by (simp_all add: and.assoc)
  have "track (spi_step g) (t1 @ t2 @ t3) (idle []) = idle ([([0x9f], ident), ([0x05], st # sts)]
      @ (if st AND 2 \<noteq> 0 then [([0x04], [])] else []))"
    using 3(2) command_run [OF g(1), of "[4]" t3 "[([0x9f], ident), ([0x05], st # sts)]"]
    unfolding bit by (auto simp: ident sts writeDisable_def)
  moreover obtain v t a as where "t5 = (Rd32 r 4, RU32 v) # t"
      "track (spi_step g) t (idle []) = idle [([fst (mode_query i)], a # as)]"
      "v AND 1 \<noteq> 0 \<longleftrightarrow> a AND snd (mode_query i) \<noteq> 0"
    using check_mode_run [OF g(1,2) 4(3)] g by auto
  moreover have "tr = (t1 @ t2 @ t3) @ t4 @ t5" using c(2) 2(1) 3(1) 4(1) by simp
  moreover have "st AND NOT 0x42 = 0" using 2(3) bit(2) by simp
  moreover note set_mode_run [OF g(1,2) 4(2), unfolded g] ident(2)
  ultimately have "\<exists>t1 t2 t3 v ident st sts a as. tr = t1 @ t2 @ (Rd32 r 4, RU32 v) # t3
      \<and> track (spi_step g) t1 (idle []) = idle ([([0x9f], ident), ([0x05], st # sts)]
          @ (if st AND 2 \<noteq> 0 then [([0x04], [])] else []))
      \<and> i = 0x10000 * ucast (ident ! 0) + 0x100 * ucast (ident ! 1) + ucast (ident ! 2)
      \<and> st AND NOT 0x42 = 0
      \<and> (if SpiMode cfg = 0 then t2 = []
         else SpiMode cfg \<in> {3, 4} \<and> (\<exists>t c. mode_command i (SpiMode cfg = 4) = Some c
           \<and> t2 = t @ [(Wr32 r 4 (if SpiMode cfg = 4 then 0x701 else 0x700), RUnit)]
           \<and> track (spi_step g) t (idle []) = idle [(c, [])]))
      \<and> track (spi_step g) t3 (idle []) = idle [([fst (mode_query i)], a # as)]
      \<and> (v AND 1 \<noteq> 0 \<longleftrightarrow> a AND snd (mode_query i) \<noteq> 0)"
    by (intro exI conjI; (assumption | blast)?) (auto split: if_splits)
  moreover have "fmc_ok f \<and> spiDb (spi_id f) = Some (Chip f)
    \<and> read_op f = FREAD4B \<and> program_op f = PPROGRAM4B \<and> erase_op f = ERASE4B
    \<and> EraseSize (Chip f) \<in> {0x10000, 0x40000} \<and> EraseSize (Chip f) dvd Size (Chip f)
    \<and> Size (Chip f) \<le> 64 * 1024 * 1024"
    using g spiDb_chip [OF c(1)] c(1) 4(4) by (auto simp: set_ops_def fmc_ok_def g_def)
  ultimately show ?thesis by (simp only: f simp_thms)
qed

section \<open>Witnesses\<close>

definition sample_fmc :: Fmc where
  "sample_fmc = set_ops ((fmc_start (AstMem [] FMC_ADDR 4096) (AstMem [] FMC_MEM 0x4000000))
     \<lparr>spi_id := 0xc22019, Chip := \<lparr>chipName = ''mx25l25635f'', Size = 0x2000000, EraseSize = 0x10000,
        op4b = True, mx3b4b = True\<rparr>\<rparr>)"

lemma sample_sel [simp]:
  "fmc_ok sample_fmc" "program_op sample_fmc = 0x12" "erase_op sample_fmc = 0xdc"
  "spi_id sample_fmc = 0xc22019"
  by (simp_all add: sample_fmc_def set_ops_def fmc_start_def fmc_ok_def spi_ops FMC_ADDR_def FMC_MEM_def)

lemma exec_zeros_bytes: "exec zeros (forM bs (write8 m 0)) s = (Done (), s)"
  by (induction bs) (simp_all add: exec_bind)

lemma exec_zeros_words: "length bs mod 4 = 0 \<Longrightarrow> exec zeros (send_words m bs) s = (Done (), s)"
proof (induction m bs rule: send_words.induct)
  case (1 m bs)
  show ?case
  proof (cases "bs = []")
    case True
    then show ?thesis by (simp add: send_words.simps)
  next
    case False
    then have "4 \<le> length bs" using 1(2) by (cases bs rule: get32.cases) auto
    then obtain w where "get32 bs = Some w" using le32.dec_total by fastforce
    moreover have "length (drop 4 bs) mod 4 = 0" using 1(2) \<open>4 \<le> length bs\<close> by (simp add: mod_if)
    ultimately show ?thesis using 1(1) False by (subst send_words.simps) (simp add: exec_bind)
  qed
qed

lemma exec_zeros_spiXfer:
  assumes "out \<noteq> []" "n = 0 \<or> n = 4"
  shows "exec zeros (spiXfer f out n) s = (Done (replicate (nat n) 0), s)"
proof -
  obtain cmd rest where out: "out = cmd # rest" using assms(1) by (cases out) auto
  have m: "length (drop (length out mod 4) out) mod 4 = 0" by (simp add: minus_mod_eq_div_mult)
  have z: "recv_words (mem f) 0 0 [] = Ret []" "recv_words (mem f) 4 4 bs = Ret bs" for bs
    by (subst recv_words.simps, simp)+
  have "put32 0 = replicate 4 0" by (simp add: put32_def numeral_eq_Suc)
  then have "exec zeros (recv_words (mem f) 4 0 []) s = (Done (replicate 4 0), s)"
    by (subst recv_words.simps) (simp add: exec_bind z)
  then show ?thesis
    using assms(2) m unfolding spiXfer_def out
    by (auto simp: exec_bind exec_zeros_bytes exec_zeros_words Let_def z)
qed

lemma exec_zeros_status [simp]: "exec zeros (spiStatus f) s = (Done 0, s)"
  by (simp add: spiStatus_def exec_bind exec_zeros_spiXfer first_byte_def numeral_eq_Suc)

lemma exec_zeros_command:
  "exec zeros (writeEnable f) s = (Done (), s)"
  "exec zeros (spiWait plain_config f) s = (Done 0, s)"
proof -
  have "exec zeros (wait_loop (Suc n) f e 0) s = (Done (), s)" for n e by simp
  then have "exec zeros (wait_loop (fuel plain_config) f e 0) s = (Done (), s)" for e
    by (simp add: plain_config_def numeral_eq_Suc)
  then show "exec zeros (spiWait plain_config f) s = (Done 0, s)"
    by (simp add: spiWait_def exec_bind)
qed (simp add: writeEnable_def exec_bind exec_zeros_spiXfer)

lemma zeros_Write:
  "exec zeros (Write plain_config sample_fmc 0xff [0xAB, 0xCD]) s = (Done (), s)"
  by (simp add: Write.simps chunk_def and_ff exec_bind exec_zeros_command spiXferAddr_def spi_ops
      exec_zeros_spiXfer)

theorem spiXfer_unaligned_witness:
  "\<exists>tr bs. runs (spiXfer sample_fmc [0x9f] 6) tr (Failed (Panic ''index out of range''))
    \<and> track (spi_step sample_fmc) tr (idle []) = \<lparr>selected = True, sent = [0x9f], got = bs, xfers = []\<rparr>
    \<and> length bs = 8"
proof -
  obtain tr res where r: "runs (spiXfer sample_fmc [0x9f] 6) tr res" using runs_exists by blast
  from spiXfer_unaligned [OF _ _ _ _ this, of "[]"] r show ?thesis by auto
qed

theorem spiXferAddr_frame_witness:
  "\<exists>tr addr. runs (spiXferAddr (plain_config\<lparr>SpiMode := 3\<rparr>) sample_fmc 0xd8 0x30000 [] 0) tr (Done [])
    \<and> track (spi_step sample_fmc) tr (idle []) = idle [(0xd8 # addr, [])]
    \<and> address_of addr = Some 0x30000 \<and> length addr = 3"
proof -
  obtain tr res where r: "runs (spiXferAddr (plain_config\<lparr>SpiMode := 3\<rparr>) sample_fmc 0xd8 0x30000 [] 0) tr res"
    using runs_exists by blast
  from spiXferAddr_frame [OF _ _ _ this, of "[]"] r show ?thesis by (auto simp: Let_def)
qed

theorem Write_programs_witness:
  "\<exists>tr ts. runs (Write plain_config sample_fmc 0xff [0xAB, 0xCD]) tr (Done ())
    \<and> track (spi_step sample_fmc) tr (idle []) = idle ts
    \<and> cells (flash_run 0x10000 ts \<lparr>wel = False, cells = \<lambda>_. 0xff\<rparr>) = put_bytes (\<lambda>_. 0xff) 0xff [0xAB, 0xCD]"
proof -
  obtain tr where tr: "runs (Write plain_config sample_fmc 0xff [0xAB, 0xCD]) tr (Done ())"
    using exec_done_runs [OF zeros_Write] by blast
  have "erased (cells \<lparr>wel = False, cells = \<lambda>_. 0xff\<rparr>) 0xff (length [0xAB, 0xCD :: u8])"
    by (simp add: erased_def)
  from Write_programs [OF _ _ _ _ this tr, of "[]" "0x10000"] tr show ?thesis
    by (auto simp: PPROGRAM4B_def)
qed

theorem EraseBlock_erases_witness:
  "\<exists>tr ts. runs (EraseBlock plain_config sample_fmc 0x30000) tr (Done ())
    \<and> track (spi_step sample_fmc) tr (idle []) = idle ts
    \<and> cells (flash_run 0x10000 ts \<lparr>wel = False, cells = \<lambda>_. 0\<rparr>) 0x3abcd = 0xff"
proof -
  have "exec zeros (EraseBlock plain_config sample_fmc 0x30000) () = (Done (), ())"
    by (simp add: EraseBlock_def exec_bind exec_zeros_command spiXferAddr_def exec_zeros_spiXfer spi_ops)
  from exec_done_runs [OF this] obtain tr
    where tr: "runs (EraseBlock plain_config sample_fmc 0x30000) tr (Done ())" ..
  obtain ts where ts: "track (spi_step sample_fmc) tr (idle []) = idle ts"
      "cells (flash_run 0x10000 ts \<lparr>wel = False, cells = \<lambda>_. 0\<rparr>) = erase_block 0x10000 0x30000 (\<lambda>_. 0)"
    using EraseBlock_erases [OF _ _ _ _ tr, of "[]" "0x10000" "\<lparr>wel = False, cells = \<lambda>_. 0\<rparr>"]
    by (auto simp: spi_ops)
  have "cells (flash_run 0x10000 ts \<lparr>wel = False, cells = \<lambda>_. 0\<rparr>) 0x3abcd = 0xff"
    unfolding ts(2) by (simp add: erase_block_def)
  then show ?thesis using tr ts(1) by blast
qed

text \<open>A flash of the database, in 3-byte mode, that answers the command it was sent last.\<close>

definition mx25 :: "u8 handler" where
  "mx25 q c = (case q of
       Wr8 r off b \<Rightarrow> (Inr RUnit, b)
     | Rd32 r off \<Rightarrow> (Inr (RU32 (if c = 0x9f then 0x001920c2 else 0)), c)
     | _ \<Rightarrow> (Inr RUnit, c))"

lemma mx25_ops:
  "exec mx25 (read32 r off) c = (Done (if c = 0x9f then 0x001920c2 else 0), c)"
  "exec mx25 (write8 r off b) c = (Done (), b)" "exec mx25 (write32 r off v) c = (Done (), c)"
  by (simp_all add: mx25_def io_defs)

lemma mx25_xfer:
  "exec mx25 (spiXfer f [b] 4) c = (Done (put32 (if b = 0x9f then 0x001920c2 else 0)), b)"
proof -
  have z: "recv_words (mem f) 4 4 bs = Ret bs" "send_words (mem f) [] = Ret ()" for bs
    by (subst recv_words.simps, simp) (subst send_words.simps, simp)
  have "exec mx25 (recv_words (mem f) 4 0 []) b = (Done (put32 (if b = 0x9f then 0x001920c2 else 0)), b)"
    by (subst recv_words.simps) (simp add: exec_bind z mx25_ops)
  then show ?thesis by (simp add: spiXfer_def exec_bind mx25_ops Let_def z)
qed

lemma mx25_command: "exec mx25 (spiXfer f [b] 0) c = (Done [], b)"
proof -
  have z: "recv_words (mem f) 0 0 [] = Ret []" "send_words (mem f) [] = Ret ()"
    by (subst recv_words.simps, simp) (subst send_words.simps, simp)
  show ?thesis by (simp add: spiXfer_def exec_bind mx25_ops Let_def z)
qed

lemma mx25_init_mode:
  "exec mx25 (FmcInit (plain_config\<lparr>SpiMode := 3\<rparr>) (AstMem [] FMC_ADDR 4096) (AstMem [] FMC_MEM 0x4000000)) 0
    = (Done sample_fmc, 0x15)"
  by (simp add: FmcInit_def spiId_def exec_bind mx25_xfer mx25_command spiStatus_def first_byte_def put32_def
      spi_ops spi3B_def spiDb_def Let_def set_mode_def check_mode_def is4B_def mx25_ops plain_config_def
      fmc_start_def sample_fmc_def)

theorem FmcInit_ready_witness:
  "fmc_ok sample_fmc \<and> spiDb (spi_id sample_fmc) = Some (Chip sample_fmc) \<and>
   program_op sample_fmc = PPROGRAM4B \<and>
   (\<exists>t1 t2 t3 v t. runs (FmcInit (plain_config\<lparr>SpiMode := 3\<rparr>) (AstMem [] FMC_ADDR 4096) (AstMem [] FMC_MEM 0x4000000))
       (t1 @ t2 @ (Rd32 (AstMem [] FMC_ADDR 4096) 4, RU32 v) # t3) (Done sample_fmc) \<and>
     t2 = t @ [(Wr32 (AstMem [] FMC_ADDR 4096) 4 0x700, RUnit)] \<and>
     track (spi_step sample_fmc) t (idle []) = idle [([0xe9], [])])"
proof -
  obtain tr where tr: "runs (FmcInit (plain_config\<lparr>SpiMode := 3\<rparr>) (AstMem [] FMC_ADDR 4096)
      (AstMem [] FMC_MEM 0x4000000)) tr (Done sample_fmc)"
    using exec_done_runs [OF mx25_init_mode] by blast
  from FmcInit_ready [OF this] tr show ?thesis by (fastforce simp: FMC_ADDR_def FMC_MEM_def mode_command_def)
qed

end
