(* ===== verification/I2cBus.thy ===== *)
theory I2cBus
  imports AstCore
begin

text \<open>
  The I2C master of the BMC (ast/i2c.go): one operation of the controller per byte, and \<open>Tx\<close>,
  the transfer the device drivers call. \<open>i2c_step\<close> reads the bus protocol off a run: the
  start and stop conditions, the bytes sent and received. The main theorem says which protocol
  a transfer produces, on success and when a byte is not acknowledged.
\<close>

section \<open>The bus\<close>

record i2cBus =
  im :: region
  base :: int
  bus :: int
  nbytes :: int
  starting :: bool

text \<open>
  An error of \<open>TxByte\<close>: the byte, its position and the status of the controller.
\<close>

type_synonym i2c_error = "u8 \<times> int \<times> u32"

text \<open>The loop of \<open>Wait\<close>; times are nanoseconds, \<open>n\<close> bounds the turns.\<close>

fun i2c_wait_loop :: "nat \<Rightarrow> i2cBus \<Rightarrow> string \<Rightarrow> int \<Rightarrow> u32 \<Rightarrow> unit io" where
  "i2c_wait_loop 0 i wop t cmd = Fail OutOfFuel"
| "i2c_wait_loop (Suc n) i wop t cmd =
     (if cmd AND 0x3ff \<noteq> 0
      then seq gosched
        (bind now (\<lambda>t1.
          if t + 1000000000 < t1
          then bind (read32 (im i) (base i + 0x10)) (\<lambda>sts.
            seq (write32 (im i) (base i + 0) 0)
              (Fail (Fatal ''Timeout on i2c bus during %s, cmd=0x%08x, sts=0x%08x''
                 [AS wop, AW cmd, AW sts])))
          else bind (read32 (im i) (base i + 0x14)) (\<lambda>cmd. i2c_wait_loop n i wop t cmd)))
      else Ret ())"

definition Wait :: "config \<Rightarrow> i2cBus \<Rightarrow> string \<Rightarrow> unit io" where
  "Wait cfg i wop =
     bind now (\<lambda>t.
       bind (read32 (im i) (base i + 0x14)) (\<lambda>cmd.
         seq (i2c_wait_loop (fuel cfg) i wop t cmd) (sleep 50000)))"

definition Start :: "config \<Rightarrow> i2cBus \<Rightarrow> bool \<Rightarrow> i2cBus io" where
  "Start cfg i repeat =
     bind (read32 (im i) (base i + 0x14)) (\<lambda>cmd.
       if \<not> (cmd = 0x0a060000 \<and> \<not> repeat) \<and> \<not> (cmd = 0x0c430000 \<and> repeat)
          \<and> \<not> (repeat \<and> \<not> ExtraCheck cfg)
       then Fail (Fatal ''%s: Start when non-idle: repeat=%t, st=0x%08x''
              [AI (bus i), AI (of_bool repeat), AW cmd])
       else seq (write32 (im i) (base i + 0x14) 1)
        (seq (Wait cfg i ''start'')
        (bind (read32 (im i) (base i + 0x10)) (\<lambda>sts.
          if sts \<noteq> 0 then Fail (Fatal ''Start: sts == 0x%08x'' [AW sts])
          else Ret (i\<lparr>starting := True\<rparr>)))))"

definition TxByte :: "config \<Rightarrow> i2cBus \<Rightarrow> u8 \<Rightarrow> (i2c_error option \<times> i2cBus) io" where
  "TxByte cfg i b =
     bind (read32 (im i) (base i + 0x14)) (\<lambda>cmd.
       if \<not> (cmd = 0x14410000 \<and> starting i) \<and> \<not> (cmd = 0x0c430000 \<and> \<not> starting i) \<and> ExtraCheck cfg
       then seq (sleep 100000)
        (bind (read32 (im i) (base i + 0x14)) (\<lambda>cmd2.
         bind (read32 (im i) (base i + 0x10)) (\<lambda>st.
          Fail (Fatal ''%s: TxByte-%d with cmd=0x%08x 0x%08x 0x%08x''
            [AI (bus i), AI (nbytes i), AW cmd, AW cmd2, AW st]))))
       else let i = i\<lparr>starting := False\<rparr>
        in seq (write32 (im i) (base i + 0x20) (ucast b))
          (seq (write32 (im i) (base i + 0x14) 2)
          (seq (Wait cfg i ''txbyte'')
          (bind (read32 (im i) (base i + 0x10)) (\<lambda>sts.
           seq (write32 (im i) (base i + 0x10) sts)
            (if sts AND 2 \<noteq> 0 then Ret (Some (b, nbytes i, sts), i)
             else if sts \<noteq> 1 then Fail (Fatal ''TxByte-%d: sts == 0x%08x'' [AI (nbytes i), AW sts])
             else Ret (None, i\<lparr>nbytes := i64 (nbytes i + 1)\<rparr>)))))))"

definition RxByte :: "config \<Rightarrow> i2cBus \<Rightarrow> bool \<Rightarrow> (u8 \<times> i2cBus) io" where
  "RxByte cfg i final =
     bind (read32 (im i) (base i + 0x14)) (\<lambda>cmd.
       if \<not> (cmd AND NOT 0x20000 = 0x0c410000) \<and> ExtraCheck cfg
       then seq (sleep 200000)
        (bind (read32 (im i) (base i + 0x14)) (\<lambda>cmd2.
         bind (read32 (im i) (base i + 0x10)) (\<lambda>st.
          Fail (Fatal ''%s: RxByte with cmd=0x%08x %08x %08x'' [AI (bus i), AW cmd, AW cmd2, AW st]))))
       else seq (if final then write32 (im i) (base i + 0x14) 0x18 else write32 (im i) (base i + 0x14) 8)
        (seq (Wait cfg i ''rxbyte'')
        (bind (read32 (im i) (base i + 0x10)) (\<lambda>sts.
         bind (read32 (im i) (base i + 0x20)) (\<lambda>b.
          if sts \<noteq> 0x4 then Fail (Fatal ''RxByte: sts == 0x%08x'' [AW sts])
          else seq (write32 (im i) (base i + 0x10) sts)
            (Ret (ucast (drop_bit 8 b), i\<lparr>nbytes := i64 (nbytes i + 1)\<rparr>)))))))"

definition Stop :: "config \<Rightarrow> i2cBus \<Rightarrow> unit io" where
  "Stop cfg i =
     bind (read32 (im i) (base i + 0x14)) (\<lambda>cmd.
       if \<not> (cmd AND NOT 0x20000 = 0x0c410000) \<and> ExtraCheck cfg
       then Fail (Fatal ''%s: Stop with st=0x%08x'' [AI (bus i), AW cmd])
       else seq (write32 (im i) (base i + 0x14) 0x20)
        (seq (Wait cfg i ''stop'')
        (bind (read32 (im i) (base i + 0x10)) (\<lambda>sts.
          if sts \<noteq> 0x10 then Fail (Fatal ''stop: sts == 0x%08x'' [AW sts])
          else write32 (im i) (base i + 0x10) sts))))"

section \<open>A transfer\<close>

text \<open>The loop over \<open>w\<close>, up to the first error, and the loop that fills \<open>r\<close>.\<close>

fun tx_bytes :: "config \<Rightarrow> i2cBus \<Rightarrow> u8 list \<Rightarrow> (i2c_error option \<times> i2cBus) io" where
  "tx_bytes cfg i [] = Ret (None, i)"
| "tx_bytes cfg i (b # bs) =
     bind (TxByte cfg i b) (\<lambda>(err, i). if err \<noteq> None then Ret (err, i) else tx_bytes cfg i bs)"

fun rx_bytes :: "config \<Rightarrow> i2cBus \<Rightarrow> nat \<Rightarrow> (u8 list \<times> i2cBus) io" where
  "rx_bytes cfg i 0 = Ret ([], i)"
| "rx_bytes cfg i (Suc n) =
     bind (RxByte cfg i (n = 0)) (\<lambda>(b, i).
       bind (rx_bytes cfg i n) (\<lambda>(bs, i). Ret (b # bs, i)))"

definition read_phase :: "config \<Rightarrow> i2cBus \<Rightarrow> u16 \<Rightarrow> bool \<Rightarrow> u8 list \<Rightarrow> (u8 list \<times> i2cBus) io" where
  "read_phase cfg i addr wrote r =
     (if r = [] then Ret (r, i)
      else bind (if wrote then Start cfg i True else Ret i) (\<lambda>i.
        bind (TxByte cfg i (ucast (addr * 2) + 1)) (\<lambda>(_, i).
          rx_bytes cfg i (length r))))"

text \<open>The slice \<open>r\<close> is an argument and, with its new contents, a result.\<close>

definition Tx :: "config \<Rightarrow> i2cBus \<Rightarrow> u16 \<Rightarrow> u8 list \<Rightarrow> u8 list \<Rightarrow> (i2c_error option \<times> u8 list \<times> i2cBus) io" where
  "Tx cfg i addr w r =
     seq (whenM (Verbose cfg) (print ''slave:0x%02x w=%02x r%d'' ([AW addr] @ map AW w @ [AI (int (length r))])))
    (bind (Start cfg (i\<lparr>nbytes := 0\<rparr>) False) (\<lambda>i.
     bind (if w \<noteq> [] then tx_bytes cfg i (ucast (addr * 2) # w) else Ret (None, i)) (\<lambda>(err, i).
       if err \<noteq> None then seq (Stop cfg i) (Ret (err, r, i))
       else bind (read_phase cfg i addr (w \<noteq> []) r) (\<lambda>(r, i).
         seq (Stop cfg i) (Ret (None, r, i))))))"

definition I2cDev :: "AstHandle \<Rightarrow> int \<Rightarrow> int \<Rightarrow> (i2cBus \<times> u16) io" where
  "I2cDev a busno slave =
     (let b = \<lparr>im = I2c a, base = I2cBase a busno, bus = busno, nbytes = 0, starting = False\<rparr>
      in bind (read32 (im b) (base b + 0x14)) (\<lambda>st.
         seq (whenM (st \<noteq> 0x0a060000)
           (seq (write32 (im b) (base b + 0x14) (push_bit 11 1))
             (seq (sleep 50000000) (seq (write32 (im b) (base b + 0) 0) (sleep 100000000)))))
        (seq (if 2 \<le> busno \<and> busno \<le> 13
              then let scuBit = push_bit (nat (busno + 16 - 2)) 1
                in bind (read32 (scu a) 0x90) (\<lambda>v.
                  whenM (v AND scuBit = 0)
                    (bind (read32 (scu a) 0x90) (\<lambda>v.
                      seq (write32 (scu a) 0x90 (v OR scuBit))
                        (print ''i2c %d pins were disabled, enabling...'' [AI busno]))))
              else Ret ())
        (bind (read32 (im b) (base b + 0x14)) (\<lambda>st.
          if st \<noteq> 0x0a060000
          then bind (read32 (im b) (base b + 0x14)) (\<lambda>st.
            Fail (Fatal ''Cannot initialize i2c, cmd = 0x%08x'' [AW st]))
          else seq (write32 (im b) (base b) 1) (Ret (b, word_of_int slave)))))))"

section \<open>The protocol\<close>

datatype i2c_event = START | TX u8 | RX bool | STOP

record i2c_line =
  latch :: u8
  i2c_log :: "i2c_event list"
  received :: "u8 list"

definition i2c_command :: "u32 \<Rightarrow> u8 \<Rightarrow> i2c_event list" where
  "i2c_command v d = (if v = 1 then [START] else if v = 2 then [TX d] else if v = 8 then [RX False]
     else if v = 0x18 then [RX True] else if v = 0x20 then [STOP] else [])"

definition i2c_step :: "region \<Rightarrow> int \<Rightarrow> i2c_line monitor" where
  "i2c_step m b q x s = (case q of
       Wr32 r off v \<Rightarrow>
         if r \<noteq> m then s
         else if off = b + 0x20 then s\<lparr>latch := ucast v\<rparr>
         else if off = b + 0x14 then s\<lparr>i2c_log := i2c_log s @ i2c_command v (latch s)\<rparr>
         else s
     | Rd32 r off \<Rightarrow> (case x of
           RU32 v \<Rightarrow> if r = m \<and> off = b + 0x20 then s\<lparr>received := received s @ [ucast (drop_bit 8 v)]\<rparr> else s
         | _ \<Rightarrow> s)
     | _ \<Rightarrow> s)"

lemma i2c_step_simps [simp]:
  "i2c_step m b (Wr32 m (b + 0x14) v) x s = s\<lparr>i2c_log := i2c_log s @ i2c_command v (latch s)\<rparr>"
  "i2c_step m b (Wr32 m (b + 0x20) v) x s = s\<lparr>latch := ucast v\<rparr>"
  "i2c_step m b (Wr32 m (b + 0x10) v) x s = s" "i2c_step m b (Wr32 m b v) x s = s"
  "i2c_step m b (Rd32 m (b + 0x14)) y s = s" "i2c_step m b (Rd32 m (b + 0x10)) y s = s"
  "i2c_step m b (Rd32 m (b + 0x20)) (RU32 w) s = s\<lparr>received := received s @ [ucast (drop_bit 8 w)]\<rparr>"
  "i2c_step m b Now y s = s" "i2c_step m b (Sleep d) y s = s" "i2c_step m b Gosched y s = s"
  "i2c_step m b (Print f a) y s = s"
  by (simp_all add: i2c_step_def split: resp.split)

lemma ucast_byte [simp]: "(ucast (ucast (b :: u8) :: u32) :: u8) = b"
  by (rule bit_eqI) (auto simp: bit_simps dest: bit_imp_le_length)

text \<open>The state of the line after the events \<open>es\<close> and the bytes \<open>bs\<close>; the latch is the last byte sent.\<close>

definition line :: "i2c_event list \<Rightarrow> u8 list \<Rightarrow> i2c_line \<Rightarrow> bool" where
  "line es bs s \<longleftrightarrow> i2c_log s = es \<and> received s = bs"

lemma wp_i2c_wait:
  assumes "Q () s"
  shows "wp (i2c_step (im i) (base i)) (\<lambda>_. True) (i2c_wait_loop n i wop t cmd) Q s"
  using assms by (induction n arbitrary: cmd) (simp_all add: wp_bind)

lemma wp_Wait:
  assumes "Q () s"
  shows "wp (i2c_step (im i) (base i)) (\<lambda>_. True) (Wait cfg i wop) Q s"
  using assms by (simp add: Wait_def wp_bind wp_i2c_wait)

abbreviation i2c_wp :: "i2cBus \<Rightarrow> 'a io \<Rightarrow> ('a \<Rightarrow> i2c_line \<Rightarrow> bool) \<Rightarrow> i2c_line \<Rightarrow> bool" where
  "i2c_wp i \<equiv> wp (i2c_step (im i) (base i)) (\<lambda>_. True)"

text \<open>The bus a step belongs to does not change.\<close>

definition same_bus :: "i2cBus \<Rightarrow> i2cBus \<Rightarrow> bool" where
  "same_bus i j \<longleftrightarrow> im i = im j \<and> base i = base j"

lemma wp_Start:
  assumes "line es bs s" "\<And>j s'. same_bus i j \<Longrightarrow> line (es @ [START]) bs s' \<Longrightarrow> Q j s'"
  shows "i2c_wp i (Start cfg i rep) Q s"
  using assms
  by (auto simp: Start_def wp_bind i2c_command_def line_def same_bus_def intro!: wp_Wait)

lemma wp_TxByte:
  assumes "line es bs s" "\<And>e j s'. same_bus i j \<Longrightarrow> line (es @ [TX b]) bs s' \<Longrightarrow> Q (e, j) s'"
  shows "i2c_wp i (TxByte cfg i b) Q s"
proof -
  have w: "i2c_wp i (Wait cfg (i\<lparr>starting := False\<rparr>) wop) R t" if "R () t" for wop R t
    using wp_Wait [where i = "i\<lparr>starting := False\<rparr>" and Q = R and s = t] that by simp
  show ?thesis
    using assms
    by (auto simp: TxByte_def wp_bind i2c_command_def line_def same_bus_def Let_def intro!: w)
qed

lemma wp_RxByte:
  assumes "line es bs s"
    and "\<And>b j s'. same_bus i j \<Longrightarrow> line (es @ [RX final]) (bs @ [b]) s' \<Longrightarrow> Q (b, j) s'"
  shows "i2c_wp i (RxByte cfg i final) Q s"
  using assms
  by (auto simp: RxByte_def wp_bind i2c_command_def line_def same_bus_def intro!: wp_Wait)

lemma wp_Stop:
  assumes "line es bs s" "\<And>s'. line (es @ [STOP]) bs s' \<Longrightarrow> Q () s'"
  shows "i2c_wp i (Stop cfg i) Q s"
  using assms
  by (auto simp: Stop_def wp_bind i2c_command_def line_def intro!: wp_Wait)

lemma wp_tx_bytes:
  assumes "line es bs s"
    and "\<And>j s'. same_bus i j \<Longrightarrow> line (es @ map TX w) bs s' \<Longrightarrow> Q (None, j) s'"
    and "\<And>e j k s'. same_bus i j \<Longrightarrow> k < length w \<Longrightarrow> line (es @ map TX (take (Suc k) w)) bs s' \<Longrightarrow> Q (Some e, j) s'"
  shows "i2c_wp i (tx_bytes cfg i w) Q s"
  using assms
proof (induction w arbitrary: i es s)
  case (Cons b w)
  show ?case
    unfolding tx_bytes.simps wp_bind
  proof (rule wp_TxByte [OF Cons.prems(1)])
    fix e j s'
    assume j: "same_bus i j" and s': "line (es @ [TX b]) bs s'"
    show "i2c_wp i (case (e, j) of (err, i) \<Rightarrow> if err \<noteq> None then Ret (err, i) else tx_bytes cfg i w) Q s'"
    proof (cases e)
      case (Some x)
      then show ?thesis using Cons.prems(3) [OF j, of 0] s' by (cases x) simp
    next
      case None
      have "i2c_wp j (tx_bytes cfg j w) Q s'"
      proof (rule Cons.IH [OF s'])
        fix j' s'' assume "same_bus j j'" "line ((es @ [TX b]) @ map TX w) bs s''"
        then show "Q (None, j') s''" using Cons.prems(2) [of j'] j by (simp add: same_bus_def)
      next
        fix e j' k s''
        assume "same_bus j j'" "k < length w" "line ((es @ [TX b]) @ map TX (take (Suc k) w)) bs s''"
        then show "Q (Some e, j') s''" using Cons.prems(3) [of j' "Suc k"] j by (simp add: same_bus_def)
      qed
      then show ?thesis using None j by (simp add: same_bus_def)
    qed
  qed
qed (simp add: same_bus_def)

fun rx_events :: "nat \<Rightarrow> i2c_event list" where
  "rx_events 0 = []"
| "rx_events (Suc n) = RX (n = 0) # rx_events n"

lemma wp_rx_bytes:
  assumes "line es bs s"
    and "\<And>j rs s'. same_bus i j \<Longrightarrow> length rs = n \<Longrightarrow> line (es @ rx_events n) (bs @ rs) s' \<Longrightarrow> Q (rs, j) s'"
  shows "i2c_wp i (rx_bytes cfg i n) Q s"
  using assms
proof (induction n arbitrary: i es bs s Q)
  case (Suc n)
  show ?case
    unfolding rx_bytes.simps wp_bind
  proof (rule wp_RxByte [OF Suc.prems(1)])
    fix b j s'
    assume j: "same_bus i j" and s': "line (es @ [RX (n = 0)]) (bs @ [b]) s'"
    have "i2c_wp j (rx_bytes cfg j n) (\<lambda>x. i2c_wp i (case x of (bs, i) \<Rightarrow> Ret (b # bs, i)) Q) s'"
    proof (rule Suc.IH [OF s'])
      fix j' rs s''
      assume "same_bus j j'" "length rs = n"
        "line ((es @ [RX (n = 0)]) @ rx_events n) ((bs @ [b]) @ rs) s''"
      then show "i2c_wp i (case (rs, j') of (bs, i) \<Rightarrow> Ret (b # bs, i)) Q s''"
        using Suc.prems(2) [of j' "b # rs"] j by (simp add: same_bus_def)
    qed
    then show "i2c_wp i (case (b, j) of (b, i) \<Rightarrow> bind (rx_bytes cfg i n) (\<lambda>(bs, i). Ret (b # bs, i))) Q s'"
      using j by (simp add: wp_bind same_bus_def)
  qed
qed (simp add: same_bus_def)

text \<open>The protocol of a transfer whose written bytes are all acknowledged.\<close>

definition tx_protocol :: "u16 \<Rightarrow> u8 list \<Rightarrow> nat \<Rightarrow> i2c_event list" where
  "tx_protocol addr w n =
     START # (if w = [] then [] else map TX (ucast (addr * 2) # w))
     @ (if n = 0 then [] else (if w = [] then [] else [START]) @ [TX (ucast (addr * 2) + 1)] @ rx_events n)
     @ [STOP]"

lemma wp_read_phase:
  assumes "line es [] s"
    and "\<And>j rs s'. same_bus i j \<Longrightarrow> length rs = length r \<Longrightarrow>
      line (es @ (if r = [] then [] else (if wrote then [START] else [])
        @ [TX (ucast (addr * 2) + 1)] @ rx_events (length r))) (if r = [] then [] else rs) s' \<Longrightarrow>
      Q (if r = [] then [] else rs, j) s'"
  shows "i2c_wp i (read_phase cfg i addr wrote r) Q s"
proof (cases "r = []")
  case True
  then show ?thesis using assms(2) [of i "[]" s] assms(1) by (simp add: read_phase_def same_bus_def)
next
  case False
  have rest: "i2c_wp j (bind (TxByte cfg j (ucast (addr * 2) + 1)) (\<lambda>(_, i). rx_bytes cfg i (length r))) Q s'"
    if j: "same_bus i j" and s': "line (es @ (if wrote then [START] else [])) [] s'" for j s'
    unfolding wp_bind
  proof (rule wp_TxByte [OF s'])
    fix e j' s''
    assume j': "same_bus j j'" and s'': "line ((es @ (if wrote then [START] else [])) @ [TX (ucast (addr * 2) + 1)]) [] s''"
    have "i2c_wp j' (rx_bytes cfg j' (length r)) Q s''"
      by (rule wp_rx_bytes [OF s'']) (use assms(2) False j j' in \<open>simp add: same_bus_def\<close>)
    then show "i2c_wp j (case (e, j') of (_, i) \<Rightarrow> rx_bytes cfg i (length r)) Q s''"
      using j' by (simp add: same_bus_def)
  qed
  have "i2c_wp i (if wrote then Start cfg i True else Ret i)
    (\<lambda>x. i2c_wp i (bind (TxByte cfg x (ucast (addr * 2) + 1)) (\<lambda>(_, i). rx_bytes cfg i (length r))) Q) s"
  proof (cases wrote)
    case True
    have "i2c_wp i (Start cfg i True)
      (\<lambda>x. i2c_wp i (bind (TxByte cfg x (ucast (addr * 2) + 1)) (\<lambda>(_, i). rx_bytes cfg i (length r))) Q) s"
      by (rule wp_Start [OF assms(1)]) (use rest True in \<open>simp add: same_bus_def\<close>)
    then show ?thesis using True by simp
  next
    case no: False
    then show ?thesis using rest [of i s] assms(1) by (simp add: same_bus_def)
  qed
  then show ?thesis using False by (simp add: read_phase_def wp_bind)
qed

lemma wp_Tx:
  assumes "line [] [] s"
  shows "i2c_wp i (Tx cfg i addr w r) (\<lambda>(err, r', j) s'.
    (err = None \<longrightarrow> line (tx_protocol addr w (length r)) r' s' \<and> length r' = length r) \<and>
    (err \<noteq> None \<longrightarrow> r' = r \<and> (\<exists>k \<le> length w.
       line (START # map TX (take (Suc k) (ucast (addr * 2) # w)) @ [STOP]) [] s'))) s"
    (is "i2c_wp i _ ?Q s")
proof -
  let ?a = "ucast (addr * 2) :: u8"
  let ?w = "if w = [] then [] else map TX (?a # w)"
  define K where "K = (\<lambda>(err :: i2c_error option, i). if err \<noteq> None then seq (Stop cfg i) (Ret (err, r, i))
       else bind (read_phase cfg i addr (w \<noteq> []) r) (\<lambda>(r, i). seq (Stop cfg i) (Ret (None, r, i))))"
  have ok: "i2c_wp j (K (None, j)) ?Q s'" if s': "line (START # ?w) [] s'" for j s'
    unfolding K_def prod.case option.simps simp_thms if_False wp_bind
  proof (rule wp_read_phase [OF s'])
    fix j' rs s''
    assume j': "same_bus j j'" "length rs = length r"
      and s'': "line ((START # ?w) @ (if r = [] then [] else (if w \<noteq> [] then [START] else [])
        @ [TX (?a + 1)] @ rx_events (length r))) (if r = [] then [] else rs) s''"
    show "i2c_wp j (case (if r = [] then [] else rs, j') of (r, i) \<Rightarrow> seq (Stop cfg i) (Ret (None, r, i))) ?Q s''"
    proof -
      have "i2c_wp j' (Stop cfg j') (\<lambda>x. i2c_wp j' (Ret (None, if r = [] then [] else rs, j')) ?Q) s''"
        by (rule wp_Stop [OF s'']) (use j' in \<open>auto simp: tx_protocol_def\<close>)
      then show ?thesis using j' by (simp add: wp_bind same_bus_def)
    qed
  qed
  have nack: "i2c_wp j (K (Some e, j)) ?Q s'"
    if "k < length (?a # w)" and s': "line ([START] @ map TX (take (Suc k) (?a # w))) [] s'" for e j k s'
  proof -
    have "i2c_wp j (Stop cfg j) (\<lambda>x. i2c_wp j (Ret (Some e, r, j)) ?Q) s'"
      by (rule wp_Stop [OF s']) (use that(1) in \<open>auto intro!: exI [of _ k]\<close>)
    then show ?thesis by (cases e) (simp add: K_def wp_bind)
  qed
  have body: "i2c_wp j (bind (if w \<noteq> [] then tx_bytes cfg j (?a # w) else Ret (None, j)) K) ?Q s'"
    if s': "line ([] @ [START]) [] s'" for j s'
  proof (cases "w = []")
    case True
    then show ?thesis using ok [of s' j] s' by simp
  next
    case False
    have s1: "line [START] [] s'" using s' by simp
    have "i2c_wp j (tx_bytes cfg j (?a # w)) (\<lambda>x. i2c_wp j (K x) ?Q) s'"
    proof (rule wp_tx_bytes [OF s1])
      fix j' s'' assume "same_bus j j'" "line ([START] @ map TX (?a # w)) [] s''"
      then show "i2c_wp j (K (None, j')) ?Q s''" using ok [of s'' j'] False by (simp add: same_bus_def)
    next
      fix e j' k s''
      assume "same_bus j j'" "k < length (?a # w)" "line ([START] @ map TX (take (Suc k) (?a # w))) [] s''"
      then show "i2c_wp j (K (Some e, j')) ?Q s''" using nack [where k = k and s' = s'' and e = e and j = j'] by (simp add: same_bus_def)
    qed
    then have "i2c_wp j (bind (tx_bytes cfg j (?a # w)) K) ?Q s'" unfolding wp_bind .
    then show ?thesis unfolding if_P [OF False] .
  qed
  have "i2c_wp (i\<lparr>nbytes := 0\<rparr>) (Start cfg (i\<lparr>nbytes := 0\<rparr>) False)
     (\<lambda>j. i2c_wp i (bind (if w \<noteq> [] then tx_bytes cfg j (?a # w) else Ret (None, j)) K) ?Q) s"
    by (rule wp_Start [OF assms]) (use body in \<open>simp add: same_bus_def\<close>)
  then show ?thesis by (simp add: Tx_def wp_bind K_def)
qed


text \<open>
  Property C22: a transfer that returns without error has put on the bus exactly the I2C protocol
  of its arguments: a start, the write address and the bytes, a repeated start, the read address
  and as many reads as asked with the last one not acknowledged, a stop; and it returns the bytes
  received. One that returns an error has sent the bytes up to the refused one and a stop, and
  leaves the caller's buffer alone.
\<close>

theorem Tx_protocol:
  assumes "runs (Tx cfg i addr w r) tr (Done (err, r', j))"
  defines "s \<equiv> track (i2c_step (im i) (base i)) tr \<lparr>latch = 0, i2c_log = [], received = []\<rparr>"
  shows "(err = None \<longrightarrow> i2c_log s = tx_protocol addr w (length r) \<and> received s = r' \<and> length r' = length r) \<and>
    (err \<noteq> None \<longrightarrow> r' = r \<and> received s = [] \<and> (\<exists>k \<le> length w.
       i2c_log s = START # map TX (take (Suc k) (ucast (addr * 2) # w)) @ [STOP]))"
proof -
  have "line [] [] \<lparr>latch = 0, i2c_log = [], received = []\<rparr>" by (simp add: line_def)
  from wp_track [OF wp_Tx [OF this] _ assms(1)] show ?thesis
    unfolding s_def line_def by auto
qed

section \<open>Transfers end\<close>

text \<open>A turn of the wait reads the clock, which has moved on; the deadline is a second later.\<close>

interpretation bus_wait: waiting "\<lambda>n. i2c_wait_loop n i wop t0" "t0 + 1000000000" 1 for i wop t0
proof
  fix n cmd tr t
  assume r: "runs (i2c_wait_loop (Suc n) i wop t0 cmd) tr (Failed OutOfFuel)" and c: "clocked t tr"
  then obtain u v tr' where "tr = (Gosched, RUnit) # (Now, RInt u) # (Rd32 (im i) (base i + 0x14), RU32 v) # tr'"
    "u \<le> t0 + 1000000000" "runs (i2c_wait_loop n i wop t0 v) tr' (Failed OutOfFuel)"
    by (auto split: if_splits)
  then show "\<exists>v t' tr'. runs (i2c_wait_loop n i wop t0 v) tr' (Failed OutOfFuel) \<and> clocked t' tr' \<and>
      t + 1 \<le> t' \<and> t' \<le> t0 + 1000000000"
    using c by (intro exI [of _ v] exI [of _ u] exI [of _ tr']) simp
qed

lemma in_time_Wait [in_time_intros]: "1000000001 \<le> fuel cfg \<Longrightarrow> in_time (Wait cfg i wop)"
  unfolding Wait_def by (rule in_time_wait [where gap = 1]) (auto intro: bus_wait.waiting_axioms)

lemma in_time_Start [in_time_intros]: "1000000001 \<le> fuel cfg \<Longrightarrow> in_time (Start cfg i r)"
  unfolding Start_def by (intro in_time_intros)

lemma in_time_TxByte [in_time_intros]: "1000000001 \<le> fuel cfg \<Longrightarrow> in_time (TxByte cfg i b)"
  unfolding TxByte_def by (intro in_time_intros)

lemma in_time_RxByte [in_time_intros]: "1000000001 \<le> fuel cfg \<Longrightarrow> in_time (RxByte cfg i l)"
  unfolding RxByte_def by (intro in_time_intros)

lemma in_time_Stop [in_time_intros]: "1000000001 \<le> fuel cfg \<Longrightarrow> in_time (Stop cfg i)"
  unfolding Stop_def by (intro in_time_intros)

lemma in_time_tx_bytes [in_time_intros]: "1000000001 \<le> fuel cfg \<Longrightarrow> in_time (tx_bytes cfg i bs)"
  by (induction bs arbitrary: i) (auto intro!: in_time_intros)

lemma in_time_rx_bytes [in_time_intros]: "1000000001 \<le> fuel cfg \<Longrightarrow> in_time (rx_bytes cfg i n)"
  by (induction n arbitrary: i) (auto intro!: in_time_intros)

lemma in_time_read_phase [in_time_intros]: "1000000001 \<le> fuel cfg \<Longrightarrow> in_time (read_phase cfg i addr wrote r)"
  unfolding read_phase_def by (intro in_time_intros)

lemma in_time_Tx [in_time_intros]: "1000000001 \<le> fuel cfg \<Longrightarrow> in_time (Tx cfg i addr w r)"
  unfolding Tx_def by (intro in_time_intros)

text \<open>
  Property C24. A transfer always comes to an end, whatever the controller answers and however
  long the buffers: on any clock that moves on, a transfer returns or ends the process with its
  message, it does not wait for ever; 1000000001 turns outlast the second each wait is given.
\<close>

theorem Tx_ends:
  assumes "runs (Tx cfg i addr w r) tr out" "clocked t tr" "1000000001 \<le> fuel cfg"
  shows "out \<noteq> Failed OutOfFuel"
  using in_timeD [OF in_time_Tx] assms by blast

section \<open>A transfer on a bus that answers\<close>

text \<open>A controller that is never busy; its status is that of the last command.\<close>

definition i2c_slave :: "u32 handler" where
  "i2c_slave q c = (case q of
       Wr32 r off v \<Rightarrow> (Inr RUnit, if off = 0x14 then v else c)
     | Rd32 r off \<Rightarrow> (Inr (RU32 (if off = 0x14 then 0x0a060000 else if off = 0x20 then 0xab00
         else if c = 1 then 0 else if c = 2 then 1 else if c = 0x20 then 0x10 else 4)), c)
     | Now \<Rightarrow> (Inr (RInt 0), c)
     | _ \<Rightarrow> (Inr RUnit, c))"

definition sample_bus :: i2cBus where
  "sample_bus = \<lparr>im = AstMem [] I2C_ADDR 4096, base = 0, bus = 3, nbytes = 0, starting = False\<rparr>"

lemma slave_ops:
  "exec i2c_slave (read32 r off) c = (Done (if off = 0x14 then 0x0a060000 else if off = 0x20 then 0xab00
         else if c = 1 then 0 else if c = 2 then 1 else if c = 0x20 then 0x10 else 4), c)"
  "exec i2c_slave (write32 r off v) c = (Done (), if off = 0x14 then v else c)"
  "exec i2c_slave now c = (Done 0, c)" "exec i2c_slave (sleep d) c = (Done (), c)"
  by (simp_all add: i2c_slave_def io_defs)

lemma slave_wait: "base i = 0 \<Longrightarrow> exec i2c_slave (Wait plain_config i wop) c = (Done (), c)"
proof -
  have "i2c_wait_loop (fuel plain_config) i wop 0 0x0a060000 = Ret ()"
    unfolding plain_config_fuel i2c_wait_loop.simps by simp
  then show "base i = 0 \<Longrightarrow> exec i2c_slave (Wait plain_config i wop) c = (Done (), c)"
    by (simp add: Wait_def exec_bind slave_ops)
qed

lemma slave_Tx:
  "exec i2c_slave (Tx plain_config sample_bus 0x50 [0x10] [0, 0]) 0
     = (Done (None, [0xab, 0xab], sample_bus\<lparr>nbytes := 5\<rparr>), 0x20)"
  by (simp add: Tx_def Start_def TxByte_def RxByte_def Stop_def read_phase_def exec_bind slave_ops slave_wait
      sample_bus_def Let_def)

theorem Tx_protocol_witness:
  "\<exists>tr. runs (Tx plain_config sample_bus 0x50 [0x10] [0, 0]) tr
      (Done (None, [0xab, 0xab], sample_bus\<lparr>nbytes := 5\<rparr>)) \<and>
    i2c_log (track (i2c_step (im sample_bus) (base sample_bus)) tr \<lparr>latch = 0, i2c_log = [], received = []\<rparr>)
      = [START, TX 0xa0, TX 0x10, START, TX 0xa1, RX False, RX True, STOP]"
proof -
  obtain tr where tr: "runs (Tx plain_config sample_bus 0x50 [0x10] [0, 0]) tr
      (Done (None, [0xab, 0xab], sample_bus\<lparr>nbytes := 5\<rparr>))"
    using exec_done_runs [OF slave_Tx] by blast
  have "rx_events 2 = [RX False, RX True]" by (simp add: numeral_2_eq_2)
  then have "tx_protocol 0x50 [0x10] (length [0, 0 :: u8])
      = [START, TX 0xa0, TX 0x10, START, TX 0xa1, RX False, RX True, STOP]"
    by (simp add: tx_protocol_def)
  then show ?thesis using Tx_protocol [OF tr] tr by metis
qed

text \<open>A bus that stays busy: the transfer ends with the message of the first wait.\<close>

theorem Tx_ends_witness:
  "let m = AstMem [] I2C_ADDR 4096;
       tr = [(Rd32 m 0x14, RU32 0x0a060000), (Wr32 m 0x14 1, RUnit), (Now, RInt 1), (Rd32 m 0x14, RU32 1),
         (Gosched, RUnit), (Now, RInt 1000000002), (Rd32 m 0x10, RU32 0), (Wr32 m 0 0, RUnit)];
       out = Failed (Fatal ''Timeout on i2c bus during %s, cmd=0x%08x, sts=0x%08x'' [AS ''start'', AI 1, AI 0])
   in runs (Tx (plain_config\<lparr>fuel := 1000000001\<rparr>) sample_bus 0x50 [] []) tr out \<and> clocked 0 tr \<and>
      out \<noteq> Failed OutOfFuel"
proof -
  let ?m = "AstMem [] I2C_ADDR 4096"
  let ?tr = "[(Rd32 ?m 0x14, RU32 0x0a060000), (Wr32 ?m 0x14 1, RUnit), (Now, RInt 1), (Rd32 ?m 0x14, RU32 1),
         (Gosched, RUnit), (Now, RInt 1000000002), (Rd32 ?m 0x10, RU32 0), (Wr32 ?m 0 0, RUnit)]"
  have "(1000000001 :: nat) = Suc 1000000000" by simp
  then have "i2c_wait_loop 1000000001 i wop t c = i2c_wait_loop (Suc 1000000000) i wop t c" for i wop t c by metis
  then have "runs (Tx (plain_config\<lparr>fuel := 1000000001\<rparr>) sample_bus 0x50 [] []) ?tr
      (Failed (Fatal ''Timeout on i2c bus during %s, cmd=0x%08x, sts=0x%08x'' [AS ''start'', AI 1, AI 0]))"
    by (simp add: Tx_def Start_def Wait_def sample_bus_def plain_config_def del: Suc_numeral)
  moreover have c: "clocked 0 ?tr" by simp
  ultimately show ?thesis using Tx_ends [OF _ c] by (simp add: Let_def)
qed

end
