(* ===== verification/Pci.thy ===== *)
theory Pci
  imports GoIO GoText "HOL-Library.List_Lexorder" "HOL-Library.Char_ord"
begin

text \<open>
  PCI devices (pci/defs.go, pci/sys_linux.go): reading and writing configuration space through
  \<open>/sys/bus/pci/devices\<close>, the walks over the two capability lists, the scan that builds the
  \<open>World\<close>, and \<open>PciInit\<close>, which sorts the devices, links them to their upstream bridge and
  names them. What pci/defs.go takes from the file of the system (\<open>Read\<close>, \<open>Write\<close>, \<open>Scan\<close>) is an
  argument of the definitions that end in \<open>_by\<close>; the names without it are the Linux build.

  A \<open>*PciDev\<close> is an index into \<open>heap\<close>, the devices in the order they were committed, so that
  \<open>Devs\<close>, \<open>DevFn\<close>, \<open>Bus\<close>, \<open>parent\<close> and \<open>LnkChild\<close> share them as the pointers of the
  code do. The cached descriptor \<open>fd\<close> (and \<open>Uncache\<close>, which closes it) is part of \<open>ReadAt\<close> and
  \<open>WriteAt\<close>; the field \<open>w\<close> is the one \<open>World\<close>; \<open>App\<close> belongs to the monitor's own theory.
\<close>

section \<open>Constants, devices, the world\<close>

definition PCI_STATUS :: int where "PCI_STATUS = 6"
definition PCI_STATUS_SERR :: u16 where "PCI_STATUS_SERR = 0x4000"
definition PCI_HEADER_TYPE :: int where "PCI_HEADER_TYPE = 0xe"
definition PCI_HEADER_TYPE_BRIDGE :: int where "PCI_HEADER_TYPE_BRIDGE = 1"
definition PCI_CAPABILITY_LIST :: int where "PCI_CAPABILITY_LIST = 0x34"
definition PCI_CAP_ID_EXP :: int where "PCI_CAP_ID_EXP = 0x10"
definition PCI_CAP_EXP_TYPE_ENDPOINT :: int where "PCI_CAP_EXP_TYPE_ENDPOINT = 0"
definition PCI_CAP_EXP_TYPE_ROOT_PORT :: int where "PCI_CAP_EXP_TYPE_ROOT_PORT = 4"
definition PCI_CAP_EXP_TYPE_UPSTREAM :: int where "PCI_CAP_EXP_TYPE_UPSTREAM = 5"
definition PCI_CAP_EXP_TYPE_DOWNSTREAM :: int where "PCI_CAP_EXP_TYPE_DOWNSTREAM = 6"
definition PCI_CAP_EXP_TYPE_PCI_BRIDGE :: int where "PCI_CAP_EXP_TYPE_PCI_BRIDGE = 7"
definition PCI_ECAP_ID_AER :: int where "PCI_ECAP_ID_AER = 1"

lemmas pci_consts [simp] = PCI_STATUS_def PCI_STATUS_SERR_def PCI_HEADER_TYPE_def
  PCI_HEADER_TYPE_BRIDGE_def PCI_CAPABILITY_LIST_def PCI_CAP_ID_EXP_def
  PCI_CAP_EXP_TYPE_ENDPOINT_def PCI_CAP_EXP_TYPE_ROOT_PORT_def PCI_CAP_EXP_TYPE_UPSTREAM_def
  PCI_CAP_EXP_TYPE_DOWNSTREAM_def PCI_CAP_EXP_TYPE_PCI_BRIDGE_def PCI_ECAP_ID_AER_def

record PciDev =
  Name :: string
  parent :: "nat option"
  LnkChild :: "nat option"
  Ecap :: "int \<rightharpoonup> int"
  Ocap :: "int \<rightharpoonup> int"
  devType :: int
  secondary :: int
  domain :: int
  bus :: int
  devFn :: int
  reqId :: int
  devClass :: u16
  headerType :: int
  LnkSpeed :: int
  LnkWidth :: int
  LnkCapSpeed :: int
  LnkCapWidth :: int
  downPorts :: int
  nickname :: string
  Path :: string
  Vendor :: u16
  Device :: u16

record World =
  heap :: "PciDev list"
  Devs :: "nat list"
  DevFn :: "int \<rightharpoonup> nat"
  Bus :: "int \<rightharpoonup> nat"
  nameCount :: "string \<rightharpoonup> int"

text \<open>Reading a map of Go: a missing key has the zero value.\<close>

definition at :: "('k \<rightharpoonup> int) \<Rightarrow> 'k \<Rightarrow> int" where
  "at m k = (case m k of Some v \<Rightarrow> v | None \<Rightarrow> 0)"

definition dev :: "World \<Rightarrow> nat \<Rightarrow> PciDev" where
  "dev w i = heap w ! i"

definition upd :: "nat \<Rightarrow> (PciDev \<Rightarrow> PciDev) \<Rightarrow> World \<Rightarrow> World" where
  "upd i f w = w\<lparr>heap := (heap w)[i := f (heap w ! i)]\<rparr>"

text \<open>\<open>PciDev{}\<close> and \<open>World{}\<close>.\<close>

definition zero_dev :: PciDev where
  "zero_dev = \<lparr>Name = '''', parent = None, LnkChild = None, Ecap = Map.empty, Ocap = Map.empty,
     devType = 0, secondary = 0, domain = 0, bus = 0, devFn = 0, reqId = 0, devClass = 0,
     headerType = 0, LnkSpeed = 0, LnkWidth = 0, LnkCapSpeed = 0, LnkCapWidth = 0, downPorts = 0,
     nickname = '''', Path = '''', Vendor = 0, Device = 0\<rparr>"

definition empty_world :: World where
  "empty_world = \<lparr>heap = [], Devs = [], DevFn = Map.empty, Bus = Map.empty, nameCount = Map.empty\<rparr>"

section \<open>Configuration space\<close>

definition pciDir :: string where "pciDir = ''/sys/bus/pci/devices''"

definition config_path :: "string \<Rightarrow> string" where
  "config_path name = pciDir @ ''/'' @ name @ ''/config''"

text \<open>
  A short read is fatal, except at offset 256 of a device that has no extended configuration
  space: there the buffer keeps its zeros.
\<close>

definition PciRead :: "PciDev \<Rightarrow> int \<Rightarrow> nat \<Rightarrow> u8 list io" where
  "PciRead d off len =
     bind (read_at (config_path (Name d)) off len) (\<lambda>(bs, err).
       if err = Some NotOpened then Fail (Fatal '''' [])
       else if (err \<noteq> None \<or> length bs \<noteq> len) \<and> \<not> (bs = [] \<and> off = 256 \<and> err = Some EOF)
       then Fail (Fatal ''Read(%d, %d)->(%d, %s)'' [AI off, AI (int len), AI (int (length bs))])
       else Ret (bs @ replicate (len - length bs) 0))"

definition PciWrite :: "PciDev \<Rightarrow> int \<Rightarrow> u8 list \<Rightarrow> unit io" where
  "PciWrite d off data =
     bind (write_at (config_path (Name d)) off data) (\<lambda>(n, err).
       if err = Some NotOpened then Fail (Fatal '''' [])
       else if err \<noteq> None \<or> n \<noteq> length data
       then Fail (Fatal ''%s:Write(%d, %d)->(%d, %s)''
         [AS (Name d), AI off, AI (int (length data)), AI (int n)])
       else Ret ())"

text \<open>
  The functions of pci/defs.go read through the method \<open>Read\<close> and write through \<open>Write\<close>, which
  each operating system's file defines: the argument \<open>rd\<close> (or \<open>wr\<close>) of the functions below named
  \<open>_by\<close>. The name without it is the Linux build.
\<close>

type_synonym cfg_read = "PciDev \<Rightarrow> int \<Rightarrow> nat \<Rightarrow> u8 list io"

definition Read8_by :: "cfg_read \<Rightarrow> PciDev \<Rightarrow> int \<Rightarrow> u8 io" where
  "Read8_by rd d off = bind (rd d off 1) (\<lambda>b.
     case b of x # _ \<Rightarrow> Ret x | [] \<Rightarrow> Fail (Panic ''index out of range''))"

definition Read16_by :: "cfg_read \<Rightarrow> PciDev \<Rightarrow> int \<Rightarrow> u16 io" where
  "Read16_by rd d off = bind (rd d off 2) (\<lambda>b.
     case get16 b of Some x \<Rightarrow> Ret x | None \<Rightarrow> Fail (Panic ''index out of range''))"

definition Read32_by :: "cfg_read \<Rightarrow> PciDev \<Rightarrow> int \<Rightarrow> u32 io" where
  "Read32_by rd d off = bind (rd d off 4) (\<lambda>b.
     case get32 b of Some x \<Rightarrow> Ret x | None \<Rightarrow> Fail (Panic ''index out of range''))"

definition PciRead8 where "PciRead8 = Read8_by PciRead"
definition PciRead16 where "PciRead16 = Read16_by PciRead"
definition PciRead32 where "PciRead32 = Read32_by PciRead"

type_synonym cfg_write = "PciDev \<Rightarrow> int \<Rightarrow> u8 list \<Rightarrow> unit io"

definition Write32_by :: "cfg_write \<Rightarrow> PciDev \<Rightarrow> int \<Rightarrow> u32 \<Rightarrow> unit io" where
  "Write32_by wr d off data = wr d off (put32 data)"

definition Write16_by :: "cfg_write \<Rightarrow> PciDev \<Rightarrow> int \<Rightarrow> u16 \<Rightarrow> unit io" where
  "Write16_by wr d off data = wr d off (put16 data)"

definition PciWrite32 where "PciWrite32 = Write32_by PciWrite"
definition PciWrite16 where "PciWrite16 = Write16_by PciWrite"

definition BDF :: "int \<Rightarrow> int \<Rightarrow> int \<Rightarrow> int" where
  "BDF b d f = 256 * b + d * 8 + f"

section \<open>Capabilities\<close>

definition PciStatus_by :: "cfg_read \<Rightarrow> PciDev \<Rightarrow> u16 io" where
  "PciStatus_by rd d = Read16_by rd d PCI_STATUS"

text \<open>The walk over the extended capabilities; nothing in the code bounds it.\<close>

fun ecap_loop_by :: "cfg_read \<Rightarrow> nat \<Rightarrow> PciDev \<Rightarrow> int \<Rightarrow> (int \<rightharpoonup> int) \<Rightarrow> (int \<rightharpoonup> int) io" where
  "ecap_loop_by rd 0 d off m = (if off = 0 then Ret m else Fail OutOfFuel)"
| "ecap_loop_by rd (Suc n) d off m =
     (if off = 0 then Ret m
      else bind (Read32_by rd d off) (\<lambda>cdef.
        if cdef = 0 \<or> cdef = NOT 0 then Ret m
        else ecap_loop_by rd n d (uint (drop_bit 20 cdef)) (m(uint (cdef AND 0xff) \<mapsto> off))))"

definition EcapInit_by :: "cfg_read \<Rightarrow> config \<Rightarrow> PciDev \<Rightarrow> PciDev io" where
  "EcapInit_by rd cfg d =
     bind (ecap_loop_by rd (fuel cfg) d 0x100 Map.empty) (\<lambda>m. Ret (d\<lparr>Ecap := m\<rparr>))"

fun cap_loop_by :: "cfg_read \<Rightarrow> nat \<Rightarrow> PciDev \<Rightarrow> int \<Rightarrow> (int \<rightharpoonup> int) \<Rightarrow> (int \<rightharpoonup> int) io" where
  "cap_loop_by rd 0 d start m = (if 0x40 \<le> start \<and> start < 0xff then Fail OutOfFuel else Ret m)"
| "cap_loop_by rd (Suc n) d start m =
     (if 0x40 \<le> start \<and> start < 0xff
      then bind (Read16_by rd d start) (\<lambda>cdef.
        let i = uint (cdef AND 0xff)
        in if i = 0xff then Ret m
           else cap_loop_by rd n d (uint (drop_bit 8 cdef AND 0xfc)) (m(i \<mapsto> start)))
      else Ret m)"

definition capInit_by :: "cfg_read \<Rightarrow> config \<Rightarrow> PciDev \<Rightarrow> PciDev io" where
  "capInit_by rd cfg d =
     (let d = d\<lparr>Ocap := Map.empty\<rparr>
      in bind (PciStatus_by rd d) (\<lambda>st.
        if st AND 0x10 = 0 then Ret d
        else bind (Read8_by rd d PCI_CAPABILITY_LIST) (\<lambda>start.
          bind (cap_loop_by rd (fuel cfg) d (uint start) Map.empty) (\<lambda>m. Ret (d\<lparr>Ocap := m\<rparr>)))))"

definition PciStatus where "PciStatus = PciStatus_by PciRead"
definition ecap_loop where "ecap_loop = ecap_loop_by PciRead"
definition EcapInit where "EcapInit = EcapInit_by PciRead"
definition cap_loop where "cap_loop = cap_loop_by PciRead"
definition capInit where "capInit = capInit_by PciRead"

definition GetSpeed :: "PciDev \<Rightarrow> PciDev io" where
  "GetSpeed d = bind (PciRead16 d (at (Ocap d) PCI_CAP_ID_EXP + 0x12)) (\<lambda>lnkSta.
     Ret (d\<lparr>LnkSpeed := uint (lnkSta AND 0xf), LnkWidth := uint (drop_bit 4 lnkSta AND 0x3f)\<rparr>))"

section \<open>Building the world\<close>

text \<open>The PCIe fields of a device with an Express capability.\<close>

definition exp_caps_by :: "cfg_read \<Rightarrow> PciDev \<Rightarrow> PciDev io" where
  "exp_caps_by rd d =
     (let capExp = at (Ocap d) PCI_CAP_ID_EXP
      in if capExp > 0
         then bind (Read8_by rd d (capExp + 2)) (\<lambda>t.
           let d = d\<lparr>devType := uint (drop_bit 4 t AND 0xf)\<rparr>
           in bind (Read16_by rd d (capExp + 0xc)) (\<lambda>lnkCap.
             Ret (d\<lparr>LnkCapWidth := uint (drop_bit 4 lnkCap AND 0x3f),
               LnkCapSpeed := uint (lnkCap AND 0xf)\<rparr>)))
         else Ret d)"

text \<open>Committing a device: it is the next cell of the heap.\<close>

definition commit :: "PciDev \<Rightarrow> World \<Rightarrow> World" where
  "commit d w =
     (let i = length (heap w)
      in w\<lparr>heap := heap w @ [d], Devs := Devs w @ [i],
           Bus := (if headerType d = PCI_HEADER_TYPE_BRIDGE then (Bus w)(secondary d \<mapsto> i) else Bus w),
           DevFn := (DevFn w)(reqId d \<mapsto> i)\<rparr>)"

text \<open>What \<open>AddDev\<close> learns of a device it keeps, and how the device is filed.\<close>

definition probe_by :: "cfg_read \<Rightarrow> config \<Rightarrow> PciDev \<Rightarrow> PciDev io" where
  "probe_by rd cfg d =
     bind (Read16_by rd d 0xa) (\<lambda>cls.
       bind (capInit_by rd cfg (d\<lparr>devClass := cls\<rparr>)) (\<lambda>d.
         bind (exp_caps_by rd d) (\<lambda>d. EcapInit_by rd cfg d)))"

definition file_dev_by :: "cfg_read \<Rightarrow> World \<Rightarrow> PciDev \<Rightarrow> World io" where
  "file_dev_by rd w d =
     bind (Read8_by rd d PCI_HEADER_TYPE) (\<lambda>h.
       let d = d\<lparr>headerType := uint (h AND 0x7f)\<rparr>
       in if headerType d = PCI_HEADER_TYPE_BRIDGE
          then bind (Read8_by rd d 0x19) (\<lambda>s. Ret (commit (d\<lparr>secondary := uint s\<rparr>) w))
          else Ret (commit d w))"

definition AddDev_by :: "cfg_read \<Rightarrow> config \<Rightarrow> World \<Rightarrow> PciDev \<Rightarrow> World io" where
  "AddDev_by rd cfg w d =
     (let d = d\<lparr>reqId := bus d * 256 + devFn d, devType := -1\<rparr>
      in bind (Read16_by rd d 0) (\<lambda>vid.
         bind (Read16_by rd d 2) (\<lambda>did.
           let d = d\<lparr>Vendor := vid, Device := did\<rparr>
           in if vid = 0xffff \<and> did = 0xffff
              then seq (print ''%s: ignored (0xffff on id)'' [AS (Name d)]) (Ret w)
              else bind (probe_by rd cfg d) (\<lambda>d. file_dev_by rd w d))))"

definition exp_caps where "exp_caps = exp_caps_by PciRead"
definition probe where "probe = probe_by PciRead"
definition file_dev where "file_dev = file_dev_by PciRead"
definition AddDev where "AddDev = AddDev_by PciRead"

text \<open>
  \<open>^([0-9a-z]+):([0-9a-z]+):([0-9a-z]+)\.([0-9a-z])$\<close>: the separators are in none of the
  classes, so the submatches are the pieces between them.
\<close>

definition alnum :: "char \<Rightarrow> bool" where
  "alnum c \<longleftrightarrow> 48 \<le> code c \<and> code c \<le> 57 \<or> 97 \<le> code c \<and> code c \<le> 122"

definition name_match :: "string \<Rightarrow> string list option" where
  "name_match s =
     (case Split (CHR '':'') s of
        [a, b, c] \<Rightarrow>
          (case Split (CHR ''.'') c of
             [x, y] \<Rightarrow> (if list_all (\<lambda>p. p \<noteq> [] \<and> list_all alnum p) [a, b, x, y] \<and> length y = 1
                      then Some [a, b, x, y] else None)
           | _ \<Rightarrow> None)
      | _ \<Rightarrow> None)"

text \<open>\<open>fmt.Sprintf("%04x:%02x:%02x.%x", \<dots>)\<close> of numbers that are not negative.\<close>

definition bdf_name :: "int \<Rightarrow> int \<Rightarrow> int \<Rightarrow> string" where
  "bdf_name seg b df = pad0 4 (hex_str (nat seg)) @ '':'' @ pad0 2 (hex_str (nat b)) @ '':''
     @ pad0 2 (hex_str (nat (df div 8))) @ ''.'' @ hex_str (nat (df mod 8))"

definition scan_name :: "string \<Rightarrow> failure + PciDev" where
  "scan_name name =
     (case name_match name of
        Some [a, b, x, y] \<Rightarrow>
          (let d = zero_dev\<lparr>Name := name, domain := fst (ParseInt a 16 16),
                 bus := fst (ParseInt b 16 16),
                 devFn := fst (ParseInt x 16 16) * 8 + fst (ParseInt y 16 16)\<rparr>
           in if bdf_name (domain d) (bus d) (devFn d) = name then Inr d
              else Inl (Fatal ''Error with %s (%02x:%02x) != %s''
                [AS name, AI (bus d), AI (devFn d), AS (bdf_name (domain d) (bus d) (devFn d))]))
      | _ \<Rightarrow> Inl (Panic ''index out of range''))"

fun scan_loop :: "config \<Rightarrow> World \<Rightarrow> string list \<Rightarrow> World io" where
  "scan_loop cfg w [] = Ret w"
| "scan_loop cfg w (f # fs) =
     bind (stat_regular (config_path f)) (\<lambda>m.
       case m of
         None \<Rightarrow> Fail (Fatal '''' [])
       | Some regular \<Rightarrow>
           if regular
           then (case scan_name f of
                   Inl e \<Rightarrow> Fail e
                 | Inr d \<Rightarrow> bind (AddDev cfg w d) (\<lambda>w. scan_loop cfg w fs))
           else scan_loop cfg w fs)"

definition Scan :: "config \<Rightarrow> World io" where
  "Scan cfg = bind (read_dir pciDir) (\<lambda>files.
     case files of
       None \<Rightarrow> Fail (Fatal '''' [])
     | Some fs \<Rightarrow> scan_loop cfg empty_world fs)"

section \<open>Linking and naming\<close>

definition link_child :: "PciDev \<Rightarrow> PciDev \<Rightarrow> bool" where
  "link_child up d \<longleftrightarrow> devFn d = 0 \<and>
     (devType up = PCI_CAP_EXP_TYPE_ROOT_PORT \<or> devType up = PCI_CAP_EXP_TYPE_DOWNSTREAM) \<and>
     (devType d = PCI_CAP_EXP_TYPE_ENDPOINT \<or> devType d = PCI_CAP_EXP_TYPE_UPSTREAM)"

definition link_dev :: "nat \<Rightarrow> World \<Rightarrow> World" where
  "link_dev i w =
     (case Bus w (bus (dev w i)) of
        None \<Rightarrow> w
      | Some u \<Rightarrow>
          (let w' = upd i (\<lambda>d. d\<lparr>parent := Some u\<rparr>) w
           in if link_child (dev w' u) (dev w' i) then upd u (\<lambda>d. d\<lparr>LnkChild := Some i\<rparr>) w' else w'))"

text \<open>The base of a nickname; a downstream port is named after its parent.\<close>

definition base_name :: "PciDev \<Rightarrow> string" where
  "base_name d =
     (if devType d = PCI_CAP_EXP_TYPE_ROOT_PORT then ''ROOT''
      else if devType d = PCI_CAP_EXP_TYPE_UPSTREAM \<and> Vendor d = 0x8086 then ''ISW''
      else if devType d = PCI_CAP_EXP_TYPE_UPSTREAM \<and> Vendor d = 0x10b5 then ''PLX''
      else if devType d = PCI_CAP_EXP_TYPE_UPSTREAM \<and> Vendor d = 0x11f8 then ''RIMFIRE''
      else if devType d = PCI_CAP_EXP_TYPE_ENDPOINT \<and> Vendor d = 0x15b7 then ''sandisk''
      else if devType d = PCI_CAP_EXP_TYPE_ENDPOINT \<and> Vendor d = 0x15b3 \<and> devFn d = 0 then ''MLX''
      else if devType d = PCI_CAP_EXP_TYPE_PCI_BRIDGE \<and> Vendor d = 0x1a03 then ''AST''
      else if devType d = PCI_CAP_EXP_TYPE_ENDPOINT \<and> Vendor d = 0x8086 \<and> devClass d = 0x0200 then ''IETH''
      else if devType d = PCI_CAP_EXP_TYPE_ENDPOINT \<and> Vendor d = 0x1425 \<and> devClass d = 0x0200 \<and> devFn d = 0
      then ''CHL''
      else if devType d = PCI_CAP_EXP_TYPE_ENDPOINT \<and> Vendor d = 0x8086 \<and> devClass d = 0x0106 then ''INTEL-SATA''
      else if devType d = PCI_CAP_EXP_TYPE_ENDPOINT \<and> Vendor d = 0x8086 \<and> devClass d = 0x0107 then ''INTEL-SAS''
      else if devType d = PCI_CAP_EXP_TYPE_ENDPOINT \<and> Vendor d = 0x1000 \<and> devClass d = 0x0107 then ''LSI-SAS''
      else '''')"

text \<open>The nickname of a device that is not a downstream port, and the new counts.\<close>

definition pick_nickname :: "World \<Rightarrow> PciDev \<Rightarrow> string \<times> World" where
  "pick_nickname w d =
     (let name = base_name d
      in if name = ''''
         then (if devFn d = 0 then ''bus-'' @ pad0 2 (hex_str (nat (bus d))) @ ''h''
               else case Option.bind (parent d) (\<lambda>p. LnkChild (dev w p)) of
                   Some c \<Rightarrow> nickname (dev w c) @ ''.'' @ int_str (devFn d)
                 | None \<Rightarrow> pad0 2 (hex_str (nat (bus d))) @ '':'' @ pad0 2 (hex_str (nat (devFn d div 8)))
                     @ ''.'' @ int_str (devFn d mod 8), w)
         else let cnt = at (nameCount w) name
              in (name @ int_str cnt, w\<lparr>nameCount := (nameCount w)(name \<mapsto> cnt + 1)\<rparr>))"

definition InitNickName :: "nat \<Rightarrow> World \<Rightarrow> failure + World" where
  "InitNickName i w =
     (let d = dev w i
      in if devType d = PCI_CAP_EXP_TYPE_DOWNSTREAM
         then (case parent d of
             None \<Rightarrow> Inl (Panic ''nil pointer dereference'')
           | Some p \<Rightarrow>
               (let name = ''p'' @ int_str (downPorts (dev w p));
                    w = upd p (\<lambda>u. u\<lparr>downPorts := downPorts u + 1\<rparr>) w
                in Inr (upd i (\<lambda>d. d\<lparr>Path := Path (dev w p) @ name,
                     nickname := nickname (dev w p) @ name\<rparr>) w)))
         else let (nick, w) = pick_nickname w d
              in Inr (upd i (\<lambda>d. d\<lparr>nickname := nick,
                   Path := (case parent d of
                      Some p \<Rightarrow> Path (dev w p) @ ''/'' @ nick
                    | None \<Rightarrow> nick)\<rparr>) w))"

fun nick_loop :: "World \<Rightarrow> nat list \<Rightarrow> failure + World" where
  "nick_loop w [] = Inr w"
| "nick_loop w (i # is) = (case InitNickName i w of Inl e \<Rightarrow> Inl e | Inr w \<Rightarrow> nick_loop w is)"

definition link_all :: "World \<Rightarrow> World" where
  "link_all w = fold link_dev (Devs w) w"

definition sort_devs :: "World \<Rightarrow> World" where
  "sort_devs w = w\<lparr>Devs := sort_key (\<lambda>i. Name (dev w i)) (Devs w)\<rparr>"

definition PciInit_by :: "World io \<Rightarrow> World io" where
  "PciInit_by scan = bind scan (\<lambda>w.
     let w = link_all (sort_devs (w\<lparr>nameCount := Map.empty\<rparr>))
     in case nick_loop w (Devs w) of Inl e \<Rightarrow> Fail e | Inr w \<Rightarrow> Ret w)"

definition PciInit :: "config \<Rightarrow> World io" where
  "PciInit cfg = PciInit_by (Scan cfg)"

definition FindById :: "World \<Rightarrow> u16 \<Rightarrow> u16 \<Rightarrow> nat list" where
  "FindById w vid did = filter (\<lambda>i. Vendor (dev w i) = vid \<and> Device (dev w i) = did) (Devs w)"

section \<open>The Linux build\<close>

lemma PciRead8_eq: "PciRead8 d off = bind (PciRead d off 1) (\<lambda>b.
     case b of x # _ \<Rightarrow> Ret x | [] \<Rightarrow> Fail (Panic ''index out of range''))"
  unfolding PciRead8_def Read8_by_def by simp

lemma PciRead16_eq: "PciRead16 d off = bind (PciRead d off 2) (\<lambda>b.
     case get16 b of Some x \<Rightarrow> Ret x | None \<Rightarrow> Fail (Panic ''index out of range''))"
  unfolding PciRead16_def Read16_by_def by simp

lemma PciRead32_eq: "PciRead32 d off = bind (PciRead d off 4) (\<lambda>b.
     case get32 b of Some x \<Rightarrow> Ret x | None \<Rightarrow> Fail (Panic ''index out of range''))"
  unfolding PciRead32_def Read32_by_def by simp

lemma PciWrite32_eq: "PciWrite32 d off data = PciWrite d off (put32 data)"
  by (simp add: PciWrite32_def Write32_by_def)

lemma PciWrite16_eq: "PciWrite16 d off data = PciWrite d off (put16 data)"
  by (simp add: PciWrite16_def Write16_by_def)

lemmas linux_defs = PciRead8_def PciRead16_def PciRead32_def PciStatus_def ecap_loop_def EcapInit_def
  cap_loop_def capInit_def exp_caps_def probe_def file_dev_def AddDev_def

lemma PciStatus_eq: "PciStatus d = PciRead16 d PCI_STATUS"
  unfolding linux_defs PciStatus_by_def by simp

lemma ecap_loop_simps [simp]:
  "ecap_loop 0 d off m = (if off = 0 then Ret m else Fail OutOfFuel)"
  "ecap_loop (Suc n) d off m =
     (if off = 0 then Ret m
      else bind (PciRead32 d off) (\<lambda>cdef.
        if cdef = 0 \<or> cdef = NOT 0 then Ret m
        else ecap_loop n d (uint (drop_bit 20 cdef)) (m(uint (cdef AND 0xff) \<mapsto> off))))"
  unfolding linux_defs by simp_all

lemma ecap_loop_induct [case_names 1 2]:
  assumes "\<And>d off m. P 0 d off m"
    and "\<And>n d off m. (\<And>v :: u32. off \<noteq> 0 \<Longrightarrow> \<not> (v = 0 \<or> v = NOT 0) \<Longrightarrow>
      P n d (uint (drop_bit 20 v)) (m(uint (v AND 0xff) \<mapsto> off))) \<Longrightarrow> P (Suc n) d off m"
  shows "P n (d :: PciDev) off (m :: int \<rightharpoonup> int)"
  by (induction n arbitrary: d off m) (use assms in auto)

lemma EcapInit_eq: "EcapInit cfg d = bind (ecap_loop (fuel cfg) d 0x100 Map.empty) (\<lambda>m. Ret (d\<lparr>Ecap := m\<rparr>))"
  unfolding linux_defs EcapInit_by_def by simp

lemma cap_loop_simps [simp]:
  "cap_loop 0 d start m = (if 0x40 \<le> start \<and> start < 0xff then Fail OutOfFuel else Ret m)"
  "cap_loop (Suc n) d start m =
     (if 0x40 \<le> start \<and> start < 0xff
      then bind (PciRead16 d start) (\<lambda>cdef.
        let i = uint (cdef AND 0xff)
        in if i = 0xff then Ret m
           else cap_loop n d (uint (drop_bit 8 cdef AND 0xfc)) (m(i \<mapsto> start)))
      else Ret m)"
  unfolding linux_defs by simp_all

lemma cap_loop_induct [case_names 1 2]:
  assumes "\<And>d start m. P 0 d start m"
    and "\<And>n d start m. (\<And>(v :: u16) i. 0x40 \<le> start \<and> start < 0xff \<Longrightarrow> i = uint (v AND 0xff) \<Longrightarrow> i \<noteq> 0xff \<Longrightarrow>
      P n d (uint (drop_bit 8 v AND 0xfc)) (m(i \<mapsto> start))) \<Longrightarrow> P (Suc n) d start m"
  shows "P n (d :: PciDev) start (m :: int \<rightharpoonup> int)"
  by (induction n arbitrary: d start m) (use assms in auto)

lemma capInit_eq: "capInit cfg d =
     (let d = d\<lparr>Ocap := Map.empty\<rparr>
      in bind (PciStatus d) (\<lambda>st.
        if st AND 0x10 = 0 then Ret d
        else bind (PciRead8 d PCI_CAPABILITY_LIST) (\<lambda>start.
          bind (cap_loop (fuel cfg) d (uint start) Map.empty) (\<lambda>m. Ret (d\<lparr>Ocap := m\<rparr>)))))"
  unfolding linux_defs capInit_by_def by simp

section \<open>Reads\<close>

text \<open>The bytes a read leaves in its buffer; a read that returns fills the whole of it.\<close>

definition filled :: "nat \<Rightarrow> u8 list \<Rightarrow> u8 list" where
  "filled n bs = bs @ replicate (n - length bs) 0"

lemma length_filled [simp]: "length bs \<le> n \<Longrightarrow> length (filled n bs) = n"
  by (simp add: filled_def)

lemma PciRead_runs:
  "runs (PciRead d off n) tr out \<Longrightarrow>
     \<exists>bs e. tr = [(ReadAt (config_path (Name d)) off n, RAt bs e)] \<and> length bs \<le> n \<and>
       (out = Done (filled n bs) \<or> (\<exists>m args. out = Failed (Fatal m args)))"
  unfolding PciRead_def filled_def by (auto split: if_splits)

lemma PciRead_decode:
  assumes "runs (bind (PciRead d off n) k) tr out" "\<And>b. length b = n \<Longrightarrow> \<exists>v. k b = Ret v \<and> R b v"
  shows "\<exists>bs e. tr = [(ReadAt (config_path (Name d)) off n, RAt bs e)] \<and>
     ((\<exists>v. R (filled n bs) v \<and> out = Done v) \<or> (\<exists>m args. out = Failed (Fatal m args)))"
  using assms(1)
proof (rule runs_bindE)
  fix tr1 tr2 x
  assume *: "runs (PciRead d off n) tr1 (Done x)" "tr = tr1 @ tr2" "runs (k x) tr2 out"
  from PciRead_runs [OF *(1)] obtain bs e where
    b: "tr1 = [(ReadAt (config_path (Name d)) off n, RAt bs e)]" "length bs \<le> n" "x = filled n bs"
    by auto
  then obtain v where "k x = Ret v" "R x v" using assms(2) [of x] by auto
  then show ?thesis using * b by auto
next
  fix e
  assume "runs (PciRead d off n) tr (Failed e)" "out = Failed e"
  then show ?thesis using PciRead_runs by blast
qed

lemma PciRead32_runs:
  "runs (PciRead32 d off) tr out \<Longrightarrow>
     \<exists>bs e. tr = [(ReadAt (config_path (Name d)) off 4, RAt bs e)] \<and>
     ((\<exists>v. get32 (filled 4 bs) = Some v \<and> out = Done v) \<or> (\<exists>m args. out = Failed (Fatal m args)))"
  unfolding PciRead32_eq by (erule PciRead_decode) (use le32.dec_None_iff in \<open>force split: option.split\<close>)

lemma PciRead16_runs:
  "runs (PciRead16 d off) tr out \<Longrightarrow>
     \<exists>bs e. tr = [(ReadAt (config_path (Name d)) off 2, RAt bs e)] \<and>
     ((\<exists>v. get16 (filled 2 bs) = Some v \<and> out = Done v) \<or> (\<exists>m args. out = Failed (Fatal m args)))"
  unfolding PciRead16_eq by (erule PciRead_decode) (use le16.dec_None_iff in \<open>force split: option.split\<close>)

lemma PciRead8_runs:
  "runs (PciRead8 d off) tr out \<Longrightarrow>
     \<exists>bs e. tr = [(ReadAt (config_path (Name d)) off 1, RAt bs e)] \<and>
     ((\<exists>v. filled 1 bs = [v] \<and> out = Done v) \<or> (\<exists>m args. out = Failed (Fatal m args)))"
  unfolding PciRead8_eq by (erule PciRead_decode) (auto simp: length_Suc_conv)

text \<open>What the walks read: the offset \<open>off\<close> holds the word \<open>v\<close>, as the trace shows.\<close>

definition read32_at :: "PciDev \<Rightarrow> int \<Rightarrow> u32 \<Rightarrow> event list \<Rightarrow> bool" where
  "read32_at d off v tr \<longleftrightarrow> (\<exists>bs e. (ReadAt (config_path (Name d)) off 4, RAt bs e) \<in> set tr \<and>
     get32 (filled 4 bs) = Some v)"

definition read16_at :: "PciDev \<Rightarrow> int \<Rightarrow> u16 \<Rightarrow> event list \<Rightarrow> bool" where
  "read16_at d off v tr \<longleftrightarrow> (\<exists>bs e. (ReadAt (config_path (Name d)) off 2, RAt bs e) \<in> set tr \<and>
     get16 (filled 2 bs) = Some v)"

section \<open>The capability walks\<close>

lemma ecap_next: "uint (drop_bit 20 (v :: u32)) < 4096"
proof -
  have "uint (drop_bit 20 v) = uint v div 2 ^ 20"
    by (simp add: drop_bit_eq_div uint_div_distrib)
  moreover have "uint v < 2 ^ 32" using uint_lt2p [of v] by simp
  ultimately show ?thesis by simp
qed

lemma cap_next: "uint (drop_bit 8 (v :: u16) AND 0xfc) < 0xff"
proof -
  have "uint (drop_bit 8 v AND 0xfc) \<le> uint (0xfc :: u16)"
    by (simp add: uint_and)
  then show ?thesis by simp
qed

lemma ecap_loop_trace:
  "runs (ecap_loop n d off m) tr out \<Longrightarrow> 0 \<le> off \<Longrightarrow> off < 4096 \<Longrightarrow>
     \<exists>offs. ops tr = map (\<lambda>i. ReadAt (config_path (Name d)) i 4) offs \<and> set offs \<subseteq> {1..4095} \<and>
       (out = Failed OutOfFuel \<longrightarrow> length offs = n)"
proof (induction n d off m arbitrary: tr rule: ecap_loop_induct)
  case (1 d off m)
  then show ?case by (auto split: if_splits)
next
  case (2 n d off m)
  show ?case
  proof (cases "off = 0")
    case True
    then show ?thesis using 2 by auto
  next
    case False
    let ?P = "\<lambda>tr offs. ops tr = map (\<lambda>i. ReadAt (config_path (Name d)) i 4) offs \<and> set offs \<subseteq> {1..4095}"
    have one: "?P [(ReadAt (config_path (Name d)) off 4, x)] [off]" for x
      using False 2 by auto
    from "2.prems"(1) False show ?thesis
      unfolding ecap_loop_simps if_False if_not_P [OF False]
    proof (elim runs_bindE)
      fix tr1 tr2 v
      assume r: "runs (PciRead32 d off) tr1 (Done v)" "tr = tr1 @ tr2"
        and k: "runs (if v = 0 \<or> v = NOT 0 then Ret m
          else ecap_loop n d (uint (drop_bit 20 v)) (m(uint (v AND 0xff) \<mapsto> off))) tr2 out"
      from PciRead32_runs [OF r(1)] obtain x where
        t1: "tr1 = [(ReadAt (config_path (Name d)) off 4, x)]" by auto
      show ?thesis
      proof (cases "v = 0 \<or> v = NOT 0")
        case True
        then show ?thesis using k r t1 one by (intro exI [of _ "[off]"]) auto
      next
        case g: False
        with k have "runs (ecap_loop n d (uint (drop_bit 20 v)) (m(uint (v AND 0xff) \<mapsto> off))) tr2 out"
          by (simp only: if_False)
        from "2.IH" [OF False g this _ ecap_next] obtain offs where
          "?P tr2 offs" "out = Failed OutOfFuel \<longrightarrow> length offs = n" by auto
        then show ?thesis using r t1 one by (intro exI [of _ "off # offs"]) auto
      qed
    next
      fix e
      assume "runs (PciRead32 d off) tr (Failed e)" "out = Failed e"
      then show ?thesis using PciRead32_runs one by (intro exI [of _ "[off]"]) fastforce
    qed
  qed
qed

lemma cap_loop_trace:
  "runs (cap_loop n d start m) tr out \<Longrightarrow>
     \<exists>offs. ops tr = map (\<lambda>i. ReadAt (config_path (Name d)) i 2) offs \<and> set offs \<subseteq> {0x40..<0xff} \<and>
       (out = Failed OutOfFuel \<longrightarrow> length offs = n)"
proof (induction n d start m arbitrary: tr rule: cap_loop_induct)
  case (1 d start m)
  then show ?case by (auto split: if_splits)
next
  case (2 n d start m)
  show ?case
  proof (cases "0x40 \<le> start \<and> start < 0xff")
    case False
    then show ?thesis using 2 by auto
  next
    case True
    let ?P = "\<lambda>tr offs. ops tr = map (\<lambda>i. ReadAt (config_path (Name d)) i 2) offs \<and> set offs \<subseteq> {0x40..<0xff}"
    have one: "?P [(ReadAt (config_path (Name d)) start 2, x)] [start]" for x
      using True by auto
    from "2.prems"(1) show ?thesis
      unfolding cap_loop_simps if_P [OF True] Let_def
    proof (elim runs_bindE)
      fix tr1 tr2 v
      assume r: "runs (PciRead16 d start) tr1 (Done v)" "tr = tr1 @ tr2"
        and k: "runs (if uint (v AND 0xff) = 0xff then Ret m
          else cap_loop n d (uint (drop_bit 8 v AND 0xfc)) (m(uint (v AND 0xff) \<mapsto> start))) tr2 out"
      from PciRead16_runs [OF r(1)] obtain x where
        t1: "tr1 = [(ReadAt (config_path (Name d)) start 2, x)]" by auto
      show ?thesis
      proof (cases "uint (v AND 0xff) = 0xff")
        case True
        then show ?thesis using k r t1 one by (intro exI [of _ "[start]"]) auto
      next
        case g: False
        with k have "runs (cap_loop n d (uint (drop_bit 8 v AND 0xfc)) (m(uint (v AND 0xff) \<mapsto> start))) tr2 out"
          by (simp only: if_False)
        from "2.IH" [OF True refl g this] obtain offs where
          "?P tr2 offs" "out = Failed OutOfFuel \<longrightarrow> length offs = n" by auto
        then show ?thesis using r t1 one by (intro exI [of _ "start # offs"]) auto
      qed
    next
      fix e
      assume "runs (PciRead16 d start) tr (Failed e)" "out = Failed e"
      then show ?thesis using PciRead16_runs one by (intro exI [of _ "[start]"]) fastforce
    qed
  qed
qed

text \<open>More reads than there are offsets repeat one.\<close>

lemma repeated:
  assumes "set offs \<subseteq> S" "finite S" "card S < length offs"
  shows "\<not> distinct offs"
proof
  assume "distinct offs"
  then have "length offs = card (set offs)" by (simp add: distinct_card)
  also have "\<dots> \<le> card S" using assms by (simp add: card_mono)
  finally show False using assms(3) by simp
qed

lemma walk_repeats:
  assumes "ops tr = map f offs" "set offs \<subseteq> S" "finite S" "card S < length offs"
  shows "\<not> distinct (ops tr)"
  using repeated [OF assms(2-4)] assms(1) by (auto simp: distinct_map)

lemma ecap_walk:
  assumes "runs (EcapInit cfg d) tr (Failed OutOfFuel)" "4096 \<le> fuel cfg"
  shows "\<not> distinct (ops tr)"
proof -
  from assms(1) have "runs (ecap_loop (fuel cfg) d 0x100 Map.empty) tr (Failed OutOfFuel)"
    unfolding EcapInit_eq by (auto simp: runs_bind)
  from ecap_loop_trace [OF this] assms(2) obtain offs where
    "ops tr = map (\<lambda>i. ReadAt (config_path (Name d)) i 4) offs" "set offs \<subseteq> {1..4095}"
    "4096 \<le> length offs" by auto
  then show ?thesis by (intro walk_repeats) auto
qed

lemma cap_walk:
  assumes "runs (capInit cfg d) tr (Failed OutOfFuel)" "4096 \<le> fuel cfg"
  shows "\<not> distinct (ops tr)"
proof -
  let ?d = "d\<lparr>Ocap := Map.empty\<rparr>"
  have nf: "\<not> runs (PciStatus ?d) tr (Failed OutOfFuel)" "\<not> runs (PciRead8 ?d i) tr' (Failed OutOfFuel)" for i tr'
    unfolding PciStatus_eq using PciRead16_runs PciRead8_runs by blast+
  from assms(1) obtain st :: u16 and tr0 tr' where t0: "tr = tr0 @ tr'" and r: "runs (if st AND 0x10 = 0 then Ret ?d
      else bind (PciRead8 ?d PCI_CAPABILITY_LIST) (\<lambda>start.
        bind (cap_loop (fuel cfg) ?d (uint start) Map.empty) (\<lambda>m. Ret (?d\<lparr>Ocap := m\<rparr>)))) tr' (Failed OutOfFuel)"
    unfolding capInit_eq Let_def using nf(1) by (elim runs_bindE) auto
  then have "st AND 0x10 \<noteq> 0" by auto
  with r obtain tr1 tr2 s where t: "tr' = tr1 @ tr2"
    and l: "runs (cap_loop (fuel cfg) ?d s Map.empty) tr2 (Failed OutOfFuel)"
    using nf(2) by (simp only: if_False) (elim runs_bindE, auto)
  from cap_loop_trace [OF l] assms(2) obtain offs where
    "ops tr2 = map (\<lambda>i. ReadAt (config_path (Name ?d)) i 2) offs" "set offs \<subseteq> {0x40..<0xff}"
    "4096 \<le> length offs" by auto
  then have "\<not> distinct (ops tr2)" by (intro walk_repeats) auto
  then show ?thesis using t t0 by simp
qed


text \<open>What the walks record is inside the part of configuration space they are about.\<close>

lemma ecap_loop_range:
  "0 \<le> off \<Longrightarrow> off < 4096 \<Longrightarrow>
     returns (ecap_loop_by rd n d off m) (\<lambda>m'. \<forall>i j. m' i = Some j \<longrightarrow> m i = Some j \<or> 1 \<le> j \<and> j \<le> 4095)"
proof (induction n arbitrary: off m)
  case (Suc n)
  have "returns (ecap_loop_by rd n d (uint (drop_bit 20 v)) (m(k \<mapsto> off)))
      (\<lambda>m'. \<forall>i j. m' i = Some j \<longrightarrow> m i = Some j \<or> 1 \<le> j \<and> j \<le> 4095)" if "off \<noteq> 0" for v :: u32 and k
    by (rule returns_mono [OF Suc.IH [OF _ ecap_next]], simp, intro allI impI, drule spec, drule spec, drule mp, assumption)
      (use that Suc.prems in \<open>auto split: if_splits\<close>)
  then show ?case by (auto intro!: returns_seq)
qed simp

lemma cap_loop_range:
  "returns (cap_loop_by rd n d start m) (\<lambda>m'. \<forall>i j. m' i = Some j \<longrightarrow> m i = Some j \<or> 0x40 \<le> j \<and> j < 0xff)"
proof (induction n arbitrary: start m)
  case (Suc n)
  have "returns (cap_loop_by rd n d s (m(k \<mapsto> start)))
      (\<lambda>m'. \<forall>i j. m' i = Some j \<longrightarrow> m i = Some j \<or> 0x40 \<le> j \<and> j < 0xff)" if "0x40 \<le> start" "start < 0xff" for s k
    by (rule returns_mono [OF Suc.IH], intro allI impI, drule spec, drule spec, drule mp, assumption)
      (use that in \<open>auto split: if_splits\<close>)
  then show ?case by (auto simp: Let_def intro!: returns_seq)
qed simp

section \<open>Names\<close>

lemma parse_zeros: "0 < b \<Longrightarrow> 0 \<le> mx \<Longrightarrow> parse_digits z b mx 0 (replicate k (CHR ''0'') @ s) = parse_digits z b mx 0 s"
  by (induction k) (simp_all add: digit_val_def)

lemma parse_pad0: "0 < b \<Longrightarrow> 0 \<le> mx \<Longrightarrow> parse_digits z b mx 0 (pad0 k s) = parse_digits z b mx 0 s"
  unfolding pad0_def by (rule parse_zeros)

text \<open>Digits of a number that is too large.\<close>

lemma parse_digits_over:
  assumes "2 \<le> b" "b \<le> 36" "0 \<le> mx" "mx < int n"
  shows "parse_digits z (int b) mx 0 (digits_of b n) = (mx, Some RangeErr)"
  using assms
proof (induction b n rule: digits_of.induct)
  case (1 b n)
  show ?case
  proof (cases "n < b")
    case True
    then show ?thesis
      using "1.prems" digit_val_char [of n] digit_char_class [of n] by (subst digits_of.simps) simp
  next
    case False
    have split: "int (n div b) * int b + int (n mod b) = int n"
      by (metis div_mult_mod_eq of_nat_add of_nat_mult)
    show ?thesis
    proof (cases "mx < int (n div b)")
      case True
      then show ?thesis
        using 1 False by (subst digits_of.simps) (simp add: parse_digits_append)
    next
      case ok: False
      then have "parse_digits z (int b) mx 0 (digits_of b (n div b)) = (int (n div b), None)"
        using "1.prems" by (intro parse_digits_of) auto
      moreover have nb: "\<not> b \<le> n mod b" using "1.prems" by (simp add: not_le)
      moreover from nb have "n mod b < 36" using "1.prems" by linarith
      ultimately show ?thesis
        using False "1.prems" digit_val_char [of "n mod b"] digit_char_class [of "n mod b"] split
        by (subst digits_of.simps) (simp add: parse_digits_append)
    qed
  qed
qed

lemma pad0_digits:
  assumes "2 \<le> b" "b \<le> 36"
  shows "set (pad0 k (digits_of b n)) \<inter> set ''_:-+. '' = {}" "pad0 k (digits_of b n) \<noteq> []"
  using digits_of_plain(1) [OF assms, of n] by (auto simp: pad0_def)

lemma ParseInt_pad0:
  fixes n :: nat
  shows "ParseInt (pad0 k (hex_str n)) 16 16 =
     (if n < 0x8000 then (int n, None) else (0x7fff, Some RangeErr))"
proof -
  let ?s = "pad0 k (hex_str n)"
  have ne: "?s \<noteq> []" and no: "set ?s \<inter> set ''_:-+. '' = {}"
    using pad0_digits [of 16 k n] by auto
  then have hd: "hd ?s \<noteq> CHR ''+''" "hd ?s \<noteq> CHR ''-''"
    using list.set_sel(1) [OF ne] by force+
  have "ParseUint ?s 16 16 = parse_digits False 16 65535 0 (hex_str n)"
    using ne no by (auto simp: ParseUint_def underscoreOK_plain parse_pad0)
  also have "\<dots> = (if n \<le> 65535 then (int n, None) else (65535, Some RangeErr))"
    using parse_digits_of [of 16 n 65535 False] parse_digits_over [of 16 65535 n False] by simp
  finally show ?thesis
    using ne hd by (simp add: ParseInt_def)
qed

lemma hex_alnum: "c \<in> set (pad0 k (hex_str n)) \<Longrightarrow> alnum c"
proof -
  have z: "alnum (CHR ''0'')" by (simp add: alnum_def)
  have "\<forall>d \<in> set [0..<16]. alnum (digit_char d)" by code_simp
  then have "d < 16 \<Longrightarrow> alnum (digit_char d)" for d by simp
  then show "c \<in> set (pad0 k (hex_str n)) \<Longrightarrow> alnum c"
    using digits_of_chars [of 16 c n] z by (auto simp: pad0_def split: if_splits)
qed

lemma name_match_bdf:
  "name_match (bdf_name a b df) = Some [pad0 4 (hex_str (nat a)), pad0 2 (hex_str (nat b)),
     pad0 2 (hex_str (nat (df div 8))), hex_str (nat (df mod 8))]"
proof -
  let ?p = "\<lambda>k n. pad0 k (hex_str n)"
  have free: "CHR '':'' \<notin> set (?p k n)" "CHR ''.'' \<notin> set (?p k n)" "?p k n \<noteq> []" for k n
    using pad0_digits [of 16 k n] by auto
  have fn: "?p 0 n = hex_str n" for n by (simp add: pad0_def)
  let ?c = "?p 2 (nat (df div 8)) @ ''.'' @ ?p 0 (nat (df mod 8))"
  have c: "Split (CHR ''.'') ?c = [?p 2 (nat (df div 8)), ?p 0 (nat (df mod 8))]"
    using free by (simp add: Split_append_sep Split_plain)
  have "Split (CHR '':'') ?c = [?c]"
    using free by (intro Split_plain) auto
  then have "Split (CHR '':'') (bdf_name a b df) = [?p 4 (nat a), ?p 2 (nat b), ?c]"
    unfolding bdf_name_def using free by (simp add: Split_append_sep fn)
  moreover have "length (?p 0 (nat (df mod 8))) = 1"
    by (subst fn, subst digits_of.simps) simp
  moreover have "list_all alnum (?p k n)" for k n
    by (simp add: list_all_iff hex_alnum)
  moreover from this [of 0] have "list_all alnum (hex_str n)" for n by (simp add: fn)
  ultimately show ?thesis
    using c free fn by (simp add: name_match_def)
qed

lemma ParseInt_hex:
  "ParseInt (hex_str n) 16 16 = (if n < 0x8000 then (int n, None) else (0x7fff, Some RangeErr))"
  using ParseInt_pad0 [of 0 n] by (simp add: pad0_def)

lemma scan_name_bdf:
  assumes "0 \<le> a" "0 \<le> b" "0 \<le> df" "b < 0x8000" "df div 8 < 0x8000"
  shows "scan_name (bdf_name a b df) =
    (let a' = (if a < 0x8000 then a else 0x7fff)
     in if bdf_name a' b df = bdf_name a b df
        then Inr (zero_dev\<lparr>Name := bdf_name a b df, domain := a', bus := b, devFn := df\<rparr>)
        else Inl (Fatal ''Error with %s (%02x:%02x) != %s''
          [AS (bdf_name a b df), AI b, AI df, AS (bdf_name a' b df)]))"
proof -
  have "nat (df mod 8) < 8" by simp
  then have "fst (ParseInt (hex_str (nat (df mod 8))) 16 16) = df mod 8"
    by (simp add: ParseInt_hex)
  moreover have "nat (df div 8) < 0x8000" "nat b < 0x8000" "0 \<le> df div 8"
    using assms by (simp_all add: pos_imp_zdiv_nonneg_iff)
  moreover have "nat a < 0x8000 \<longleftrightarrow> a < 0x8000" by auto
  ultimately show ?thesis
    using assms by (auto simp: scan_name_def name_match_bdf ParseInt_pad0 Let_def)
qed

text \<open>
  Property C20. The name of a device under \<open>/sys/bus/pci/devices\<close> determines its address: the
  name printed for a domain, bus and device/function number is scanned back to the same
  numbers. This holds for the domains below 0x8000 only. \<open>ParseInt\<close> is asked for a signed
  16-bit number and its range error is dropped, so a larger domain (a domain is 16 bits, or 32
  behind a VMD) is read as 0x7fff, the name no longer matches and the whole scan is fatal.
\<close>

theorem scan_name_roundtrip:
  assumes "0 \<le> a" "0 \<le> b" "0 \<le> df" "b < 0x8000" "df div 8 < 0x8000"
  shows "case scan_name (bdf_name a b df) of
     Inr d \<Rightarrow> a < 0x8000 \<and> Name d = bdf_name a b df \<and> domain d = a \<and> bus d = b \<and> devFn d = df
   | Inl e \<Rightarrow> 0x8000 \<le> a \<and> (\<exists>m args. e = Fatal m args)"
proof (cases "a < 0x8000")
  case True
  then show ?thesis using assms by (simp add: scan_name_bdf)
next
  case False
  have "bdf_name 0x7fff b df \<noteq> bdf_name a b df"
  proof
    assume "bdf_name 0x7fff b df = bdf_name a b df"
    then have "pad0 4 (hex_str 0x7fff) = pad0 4 (hex_str (nat a))"
      using name_match_bdf [of "0x7fff" b df] name_match_bdf [of a b df] by simp
    then show False
      using ParseInt_pad0 [of 4 "0x7fff"] ParseInt_pad0 [of 4 "nat a"] False
      by (auto split: if_splits)
  qed
  then show ?thesis using False assms by (simp add: scan_name_bdf)
qed

text \<open>A scanned device has the name of its numbers.\<close>

lemma scan_name_canonical:
  "scan_name s = Inr d \<Longrightarrow> Name d = s \<and> bdf_name (domain d) (bus d) (devFn d) = s \<and>
     parent d = None \<and> LnkChild d = None"
  by (auto simp: scan_name_def Let_def zero_dev_def split: option.splits list.splits if_splits)

section \<open>The world a scan builds\<close>

text \<open>
  A committed device has a real id, the name of its address, capability offsets in range, and,
  when it is a bridge, the secondary bus it is filed under.
\<close>

definition dev_ok :: "PciDev \<Rightarrow> bool" where
  "dev_ok d \<longleftrightarrow> \<not> (Vendor d = 0xffff \<and> Device d = 0xffff) \<and>
     bdf_name (domain d) (bus d) (devFn d) = Name d \<and> reqId d = bus d * 256 + devFn d \<and>
     (\<forall>i j. Ecap d i = Some j \<longrightarrow> 1 \<le> j \<and> j \<le> 4095) \<and>
     (\<forall>i j. Ocap d i = Some j \<longrightarrow> 0x40 \<le> j \<and> j < 0xff)"

text \<open>The last of the first \<open>n\<close> devices with a property: what a table keeps that later devices overwrite.\<close>

primrec latest :: "(nat \<Rightarrow> bool) \<Rightarrow> nat \<Rightarrow> nat option" where
  "latest P 0 = None"
| "latest P (Suc n) = (if P n then Some n else latest P n)"

lemma latest_Some: "latest P n = Some i \<longleftrightarrow> i < n \<and> P i \<and> (\<forall>j < n. i < j \<longrightarrow> \<not> P j)"
  by (induction n) (auto simp: less_Suc_eq)

lemma latest_cong: "(\<And>i. i < n \<Longrightarrow> P i = Q i) \<Longrightarrow> latest P n = latest Q n"
  by (induction n) simp_all

text \<open>
  A well-formed world: \<open>Devs\<close> lists every device once, \<open>Bus\<close> has under each bus number the
  bridge with that secondary bus, and \<open>DevFn\<close> under each request id the device that has it; of
  several the one found last.
\<close>

definition world_ok :: "World \<Rightarrow> bool" where
  "world_ok w \<longleftrightarrow> set (Devs w) = {..<length (heap w)} \<and> distinct (Devs w) \<and>
     (\<forall>i < length (heap w). dev_ok (dev w i)) \<and>
     (\<forall>b. Bus w b = latest (\<lambda>i. headerType (dev w i) = 1 \<and> secondary (dev w i) = b) (length (heap w))) \<and>
     (\<forall>r. DevFn w r = latest (\<lambda>i. reqId (dev w i) = r) (length (heap w)))"

definition unlinked :: "World \<Rightarrow> bool" where
  "unlinked w \<longleftrightarrow> (\<forall>i < length (heap w). parent (dev w i) = None \<and> LnkChild (dev w i) = None)"

lemma world_ok_Bus:
  "world_ok w \<Longrightarrow> Bus w b = Some u \<Longrightarrow>
     u < length (heap w) \<and> headerType (dev w u) = PCI_HEADER_TYPE_BRIDGE \<and> secondary (dev w u) = b"
  unfolding world_ok_def by (simp add: latest_Some)

lemma world_ok_DevFn:
  "world_ok w \<Longrightarrow> DevFn w r = Some i \<Longrightarrow> i < length (heap w) \<and> reqId (dev w i) = r"
  unfolding world_ok_def by (simp add: latest_Some)

lemma world_ok_empty: "world_ok empty_world" "unlinked empty_world"
  by (simp_all add: world_ok_def unlinked_def empty_world_def)

lemma dev_commit: "dev (commit d w) i = (if i = length (heap w) then d else dev w i)" if "i \<le> length (heap w)"
  using that by (auto simp: dev_def commit_def Let_def nth_append)

lemma heap_commit [simp]: "length (heap (commit d w)) = Suc (length (heap w))"
  by (simp add: commit_def Let_def)

lemma world_ok_commit:
  assumes "world_ok w" "dev_ok d"
  shows "world_ok (commit d w)"
proof -
  let ?n = "length (heap w)"
  have old: "latest (\<lambda>i. P (dev (commit d w) i)) ?n = latest (\<lambda>i. P (dev w i)) ?n" for P
    by (rule latest_cong) (simp add: dev_commit)
  have new: "dev (commit d w) ?n = d" by (simp add: dev_commit)
  have D: "Devs (commit d w) = Devs w @ [?n]"
    and B: "Bus (commit d w) = (if headerType d = 1 then (Bus w)(secondary d \<mapsto> ?n) else Bus w)"
    and F: "DevFn (commit d w) = (DevFn w)(reqId d \<mapsto> ?n)"
    by (simp_all add: commit_def Let_def)
  show ?thesis
    unfolding world_ok_def heap_commit latest.simps old
      old [where P = "\<lambda>e. headerType e = 1 \<and> secondary e = _"] old [where P = "\<lambda>e. reqId e = _"] new B F
    using assms by (auto simp: world_ok_def D dev_commit less_Suc_eq)
qed

lemma unlinked_commit: "unlinked w \<Longrightarrow> parent d = None \<Longrightarrow> LnkChild d = None \<Longrightarrow> unlinked (commit d w)"
  unfolding unlinked_def by (auto simp: dev_commit less_Suc_eq)

text \<open>The steps of \<open>AddDev\<close> change the fields they are about.\<close>

definition same_id :: "PciDev \<Rightarrow> PciDev \<Rightarrow> bool" where
  "same_id d e \<longleftrightarrow> Name e = Name d \<and> domain e = domain d \<and> bus e = bus d \<and> devFn e = devFn d \<and>
     reqId e = reqId d \<and> Vendor e = Vendor d \<and> Device e = Device d \<and> parent e = parent d \<and>
     LnkChild e = LnkChild d"

text \<open>What a probed device has, given the device it started from, whatever the reads return.\<close>

definition probed :: "PciDev \<Rightarrow> PciDev \<Rightarrow> bool" where
  "probed d e \<longleftrightarrow> same_id d e \<and> (\<forall>i j. Ocap e i = Some j \<longrightarrow> 0x40 \<le> j \<and> j < 0xff)"

lemma capInit_by_returns: "same_id d e \<Longrightarrow> returns (capInit_by rd cfg e) (probed d)"
proof -
  assume e: "same_id d e"
  have "returns (bind (cap_loop_by rd n e' start Map.empty) (\<lambda>m. Ret (e\<lparr>Ocap := m\<rparr>))) (probed d)" for n e' start
    by (rule returns_bind [OF cap_loop_range]) (use e in \<open>simp add: probed_def same_id_def\<close>)
  moreover have "probed d (e\<lparr>Ocap := Map.empty\<rparr>)"
    using e by (simp_all add: probed_def same_id_def)
  ultimately show ?thesis
    unfolding capInit_by_def Let_def by (intro returns_seq) (simp add: returns_seq)
qed

lemma exp_caps_by_returns:
  "returns (exp_caps_by rd d) (\<lambda>e. same_id d e \<and> Ocap e = Ocap d \<and> Ecap e = Ecap d)"
  unfolding exp_caps_by_def Let_def by (auto simp: same_id_def intro!: returns_seq)

lemma EcapInit_by_returns:
  "returns (EcapInit_by rd cfg d) (\<lambda>e. same_id d e \<and> Ocap e = Ocap d \<and> devType e = devType d \<and>
     (\<forall>i j. Ecap e i = Some j \<longrightarrow> 1 \<le> j \<and> j \<le> 4095))"
  unfolding EcapInit_by_def by (rule returns_bind [OF ecap_loop_range]) (simp_all add: same_id_def)

lemma probe_returns:
  "returns (probe_by rd cfg d) (\<lambda>e. probed d e \<and> (\<forall>i j. Ecap e i = Some j \<longrightarrow> 1 \<le> j \<and> j \<le> 4095))"
proof -
  have exp: "returns (exp_caps_by rd e) (probed d)" if "probed d e" for e
    by (rule returns_mono [OF exp_caps_by_returns]) (use that in \<open>simp add: probed_def same_id_def\<close>)
  have ecap: "returns (EcapInit_by rd cfg e) (\<lambda>e. probed d e \<and> (\<forall>i j. Ecap e i = Some j \<longrightarrow> 1 \<le> j \<and> j \<le> 4095))"
    if "probed d e" for e
    by (rule returns_mono [OF EcapInit_by_returns]) (use that in \<open>simp add: probed_def same_id_def\<close>)
  show ?thesis
    unfolding probe_by_def
    by (rule returns_seq, rule returns_bind [OF capInit_by_returns], simp add: same_id_def)
      (rule returns_bind [OF exp ecap])
qed

lemma file_dev_ok:
  assumes "world_ok w" "unlinked w" "dev_ok d" "parent d = None" "LnkChild d = None"
  shows "returns (file_dev_by rd w d) (\<lambda>w'. world_ok w' \<and> unlinked w')"
proof -
  have "dev_ok (d\<lparr>headerType := h\<rparr>)" "dev_ok (d\<lparr>headerType := h, secondary := s\<rparr>)" for h s
    using assms(3) by (simp_all add: dev_ok_def)
  then show ?thesis
    using assms unfolding file_dev_by_def Let_def
    by (auto intro!: returns_seq world_ok_commit unlinked_commit)
qed

text \<open>A device that a scan may add: it has the name of its numbers and is not linked.\<close>

definition fresh :: "PciDev \<Rightarrow> bool" where
  "fresh d \<longleftrightarrow> bdf_name (domain d) (bus d) (devFn d) = Name d \<and> parent d = None \<and> LnkChild d = None"

lemma AddDev_ok:
  assumes "world_ok w" "unlinked w" "fresh d"
  shows "returns (AddDev_by rd cfg w d) (\<lambda>w'. world_ok w' \<and> unlinked w')"
proof -
  let ?d = "\<lambda>vid did. d\<lparr>reqId := bus d * 256 + devFn d, devType := -1, Vendor := vid, Device := did\<rparr>"
  have "returns (bind (probe_by rd cfg (?d vid did)) (file_dev_by rd w)) (\<lambda>w'. world_ok w' \<and> unlinked w')"
    if "\<not> (vid = 0xffff \<and> did = 0xffff)" for vid did
    by (rule returns_bind [OF probe_returns], rule file_dev_ok)
      (use assms that in \<open>auto simp: probed_def same_id_def dev_ok_def fresh_def\<close>)
  then show ?thesis
    using assms unfolding AddDev_by_def Let_def by (intro returns_seq) (auto intro: returns_seq)
qed

lemma Scan_ok: "returns (Scan cfg) (\<lambda>w. world_ok w \<and> unlinked w)"
proof -
  have "world_ok w \<Longrightarrow> unlinked w \<Longrightarrow> returns (scan_loop cfg w fs) (\<lambda>w. world_ok w \<and> unlinked w)" for w fs
  proof (induction fs arbitrary: w)
    case (Cons f fs)
    have "returns (bind (AddDev cfg w d) (\<lambda>w. scan_loop cfg w fs)) (\<lambda>w. world_ok w \<and> unlinked w)"
      if "scan_name f = Inr d" for d
      unfolding AddDev_def
      by (rule returns_bind [OF AddDev_ok [OF Cons.prems]])
        (use scan_name_canonical [OF that] in \<open>auto simp: fresh_def Cons.IH\<close>)
    then show ?case
      using Cons by (auto intro!: returns_seq split: option.split sum.split)
  qed simp
  then have "returns (scan_loop cfg empty_world fs) (\<lambda>w. world_ok w \<and> unlinked w)" for fs
    using world_ok_empty by blast
  then show ?thesis
    unfolding Scan_def by (auto intro!: returns_seq split: option.split)
qed

section \<open>What the scan read\<close>

definition read8_at :: "PciDev \<Rightarrow> int \<Rightarrow> u8 \<Rightarrow> event list \<Rightarrow> bool" where
  "read8_at d off v tr \<longleftrightarrow> (\<exists>bs e. (ReadAt (config_path (Name d)) off 1, RAt bs e) \<in> set tr \<and> filled 1 bs = [v])"

text \<open>The fields of a device are what its configuration space answered.\<close>

definition answered :: "event list \<Rightarrow> PciDev \<Rightarrow> bool" where
  "answered tr d \<longleftrightarrow> read16_at d 0 (Vendor d) tr \<and> read16_at d 2 (Device d) tr \<and>
     read16_at d 0xa (devClass d) tr \<and>
     (\<exists>h. read8_at d 0xe h tr \<and> headerType d = uint (h AND 0x7f)) \<and>
     (headerType d = 1 \<longrightarrow> (\<exists>s. read8_at d 0x19 s tr \<and> secondary d = uint s)) \<and>
     (case Ocap d 0x10 of
        None \<Rightarrow> devType d = -1
      | Some c \<Rightarrow> (\<exists>t l. read8_at d (c + 2) t tr \<and> devType d = uint (drop_bit 4 t AND 0xf) \<and>
          read16_at d (c + 0xc) l tr \<and> LnkCapSpeed d = uint (l AND 0xf) \<and>
          LnkCapWidth d = uint (drop_bit 4 l AND 0x3f)))"

text \<open>
  The devices of a scan, given the names of the directory and what happened: a name whose
  \<open>config\<close> is not a regular file is skipped, and so is one whose two identifiers are all ones;
  every other name has its device, in the order of the directory.
\<close>

inductive scanned :: "string list \<Rightarrow> event list \<Rightarrow> PciDev list \<Rightarrow> bool" where
  none: "scanned [] [] []"
| no_file: "scanned ns tr ds \<Longrightarrow> scanned (n # ns) ((Stat (config_path n), RBool False) # tr) ds"
| no_dev: "Name d = n \<Longrightarrow> read16_at d 0 0xffff t \<Longrightarrow> read16_at d 2 0xffff t \<Longrightarrow> scanned ns tr ds \<Longrightarrow>
    scanned (n # ns) ((Stat (config_path n), RBool True) # t @ tr) ds"
| a_dev: "Name d = n \<Longrightarrow> answered t d \<Longrightarrow> scanned ns tr ds \<Longrightarrow>
    scanned (n # ns) ((Stat (config_path n), RBool True) # t @ tr) (d # ds)"

lemma read_at_mono:
  "read16_at d off v tr \<Longrightarrow> Name e = Name d \<Longrightarrow> set tr \<subseteq> set tr' \<Longrightarrow> read16_at e off v tr'"
  "read8_at d off b tr \<Longrightarrow> Name e = Name d \<Longrightarrow> set tr \<subseteq> set tr' \<Longrightarrow> read8_at e off b tr'"
  unfolding read16_at_def read8_at_def by (metis subset_iff)+

lemma PciRead_at:
  "runs (PciRead16 d off) tr (Done v) \<Longrightarrow> read16_at d off v tr"
  "runs (PciRead8 d off) tr (Done b) \<Longrightarrow> read8_at d off b tr"
  unfolding read16_at_def read8_at_def by (fastforce dest: PciRead16_runs PciRead8_runs)+

lemma capInit_run:
  "returns (capInit cfg d) (\<lambda>e. \<exists>m. e = d\<lparr>Ocap := m\<rparr> \<and> (\<forall>i j. m i = Some j \<longrightarrow> 0x40 \<le> j \<and> j < 0xff))"
proof -
  have "returns (capInit cfg d) (probed d)"
    unfolding capInit_def by (rule capInit_by_returns) (simp add: same_id_def)
  moreover have "returns (capInit cfg d) (\<lambda>e. \<exists>m. e = d\<lparr>Ocap := m\<rparr>)"
    unfolding capInit_eq Let_def
    by (intro returns_seq) (auto intro!: returns_seq intro: exI [of _ Map.empty])
  ultimately show ?thesis unfolding returns_def probed_def by fastforce
qed

lemma EcapInit_run: "returns (EcapInit cfg d) (\<lambda>e. \<exists>m. e = d\<lparr>Ecap := m\<rparr>)"
  unfolding EcapInit_eq by (auto intro!: returns_seq)

lemma exp_caps_run:
  assumes "runs (exp_caps d) tr (Done e)" "\<And>i j. Ocap d i = Some j \<Longrightarrow> 0x40 \<le> j"
  shows "case Ocap d 0x10 of
      None \<Rightarrow> e = d
    | Some c \<Rightarrow> \<exists>t l. read8_at d (c + 2) t tr \<and> read16_at d (c + 0xc) l tr \<and>
        e = d\<lparr>devType := uint (drop_bit 4 t AND 0xf), LnkCapWidth := uint (drop_bit 4 l AND 0x3f),
          LnkCapSpeed := uint (l AND 0xf)\<rparr>"
proof (cases "Ocap d 0x10")
  case None
  then show ?thesis using assms(1) by (simp add: exp_caps_def exp_caps_by_def at_def)
next
  case (Some c)
  then have "0 < c" using assms(2) by force
  then obtain t l tr1 tr2 where "tr = tr1 @ tr2" "runs (PciRead8 d (c + 2)) tr1 (Done t)"
      "runs (PciRead16 (d\<lparr>devType := uint (drop_bit 4 t AND 0xf)\<rparr>) (c + 0xc)) tr2 (Done l)"
      "e = d\<lparr>devType := uint (drop_bit 4 t AND 0xf), LnkCapWidth := uint (drop_bit 4 l AND 0x3f),
          LnkCapSpeed := uint (l AND 0xf)\<rparr>"
    using assms(1) Some unfolding exp_caps_def exp_caps_by_def Let_def PciRead8_def [symmetric] PciRead16_def [symmetric]
    by (auto simp: at_def elim!: runs_bindE)
  then show ?thesis using Some by (auto intro!: exI intro: read_at_mono(1) [OF PciRead_at(1)] read_at_mono(2) [OF PciRead_at(2)])
qed

lemma runs_done:
  "runs (bind p f) tr (Done y) \<Longrightarrow> \<exists>tr1 tr2 x. tr = tr1 @ tr2 \<and> runs p tr1 (Done x) \<and> runs (f x) tr2 (Done y)"
  unfolding runs_bind by auto

lemma file_dev_run:
  assumes "runs (file_dev w d) tr (Done w')"
  shows "\<exists>e. w' = commit e w \<and> e = d\<lparr>headerType := headerType e, secondary := secondary e\<rparr> \<and>
    (\<exists>h. read8_at e 0xe h tr \<and> headerType e = uint (h AND 0x7f)) \<and>
    (headerType e = 1 \<longrightarrow> (\<exists>s. read8_at e 0x19 s tr \<and> secondary e = uint s))"
proof -
  let ?d = "\<lambda>h. d\<lparr>headerType := uint (h AND 0x7f :: u8)\<rparr>"
  obtain t1 t2 h where h: "tr = t1 @ t2" "runs (PciRead8 d 0xe) t1 (Done h)"
      "runs (if uint (h AND 0x7f) = 1 then bind (PciRead8 (?d h) 0x19) (\<lambda>s. Ret (commit ((?d h)\<lparr>secondary := uint s\<rparr>) w))
        else Ret (commit (?d h) w)) t2 (Done w')"
    using runs_done [OF assms [unfolded file_dev_def file_dev_by_def Let_def PciRead8_def [symmetric]]] by auto
  have hd: "read8_at e 0xe h tr" if "Name e = Name d" for e
    using read_at_mono(2) [OF PciRead_at(2) [OF h(2)], of e tr] that by (simp add: h(1))
  show ?thesis
  proof (cases "uint (h AND 0x7f) = 1")
    case False
    then have "w' = commit (?d h) w" using h(3) by simp
    then show ?thesis using False hd [of "?d h"] by (intro exI [of _ "?d h"]) auto
  next
    case True
    with h(3) obtain s t3 where s: "runs (PciRead8 (?d h) 0x19) t3 (Done s)" "set t3 \<subseteq> set t2"
        "w' = commit ((?d h)\<lparr>secondary := uint s\<rparr>) w"
      by (auto dest!: runs_done)
    have "read8_at ((?d h)\<lparr>secondary := uint s\<rparr>) 0x19 s tr"
      by (rule read_at_mono(2) [OF PciRead_at(2) [OF s(1)]]) (use s(2) h(1) in auto)
    then show ?thesis
      using True s(3) hd [of "(?d h)\<lparr>secondary := uint s\<rparr>"]
      by (intro exI [of _ "(?d h)\<lparr>secondary := uint s\<rparr>"]) auto
  qed
qed

lemma probe_run:
  assumes "runs (probe cfg d) tr (Done e)" "devType d = -1"
  shows "read16_at e 0xa (devClass e) tr \<and> Name e = Name d \<and> Vendor e = Vendor d \<and> Device e = Device d \<and>
    (case Ocap e 0x10 of
        None \<Rightarrow> devType e = -1
      | Some c \<Rightarrow> (\<exists>t l. read8_at e (c + 2) t tr \<and> devType e = uint (drop_bit 4 t AND 0xf) \<and>
          read16_at e (c + 0xc) l tr \<and> LnkCapSpeed e = uint (l AND 0xf) \<and>
          LnkCapWidth e = uint (drop_bit 4 l AND 0x3f)))"
proof -
  obtain u1 v1 cls where 1: "tr = u1 @ v1" "runs (PciRead16 d 0xa) u1 (Done cls)"
      "runs (bind (capInit cfg (d\<lparr>devClass := cls\<rparr>)) (\<lambda>d. bind (exp_caps d) (EcapInit cfg))) v1 (Done e)"
    using runs_done [OF assms(1) [unfolded probe_def probe_by_def PciRead16_def [symmetric] capInit_def [symmetric]
      exp_caps_def [symmetric] EcapInit_def [symmetric]]] by blast
  obtain u2 v2 d3 where 2: "v1 = u2 @ v2" "runs (capInit cfg (d\<lparr>devClass := cls\<rparr>)) u2 (Done d3)"
      "runs (bind (exp_caps d3) (EcapInit cfg)) v2 (Done e)"
    using runs_done [OF 1(3)] by blast
  obtain u3 u4 d4 where 3: "v2 = u3 @ u4" "runs (exp_caps d3) u3 (Done d4)" "runs (EcapInit cfg d4) u4 (Done e)"
    using runs_done [OF 2(3)] by blast
  obtain m where m: "d3 = d\<lparr>devClass := cls, Ocap := m\<rparr>" "\<And>i j. Ocap d3 i = Some j \<Longrightarrow> 0x40 \<le> j"
    using returnsD [OF capInit_run 2(2)] by auto
  obtain m' where m': "e = d4\<lparr>Ecap := m'\<rparr>" using returnsD [OF EcapInit_run 3(3)] by auto
  have x: "case Ocap d3 0x10 of None \<Rightarrow> d4 = d3
    | Some c \<Rightarrow> \<exists>t l. read8_at d3 (c + 2) t u3 \<and> read16_at d3 (c + 0xc) l u3 \<and>
        d4 = d3\<lparr>devType := uint (drop_bit 4 t AND 0xf), LnkCapWidth := uint (drop_bit 4 l AND 0x3f),
          LnkCapSpeed := uint (l AND 0xf)\<rparr>"
    by (rule exp_caps_run [OF 3(2) m(2)])
  have mono: "read16_at f off v tr" if "read16_at d3 off v u3" "Name f = Name d3" for f off v
    by (rule read_at_mono(1) [OF that]) (auto simp: 1(1) 2(1) 3(1))
  have mono8: "read8_at f off v tr" if "read8_at d3 off v u3" "Name f = Name d3" for f off v
    by (rule read_at_mono(2) [OF that]) (auto simp: 1(1) 2(1) 3(1))
  have cls: "read16_at f 0xa cls tr" if "Name f = Name d" for f
    by (rule read_at_mono(1) [OF PciRead_at(1) [OF 1(2)] that]) (simp add: 1(1))
  show ?thesis
  proof (cases "Ocap d3 0x10")
    case None
    then show ?thesis using x m m' cls [of e] assms(2) by simp
  next
    case (Some c)
    with x obtain t l where tl: "read8_at d3 (c + 2) t u3" "read16_at d3 (c + 0xc) l u3"
        "d4 = d3\<lparr>devType := uint (drop_bit 4 t AND 0xf), LnkCapWidth := uint (drop_bit 4 l AND 0x3f),
          LnkCapSpeed := uint (l AND 0xf)\<rparr>"
      by auto
    have "Name e = Name d3" "Name d3 = Name d" using tl(3) m m' by simp_all
    then show ?thesis
      using Some tl(3) m m' cls [of e] mono [OF tl(2), of e] mono8 [OF tl(1), of e] by auto
  qed
qed

lemma AddDev_run:
  assumes "runs (AddDev cfg w d) tr (Done w')"
  shows "w' = w \<and> read16_at d 0 0xffff tr \<and> read16_at d 2 0xffff tr
    \<or> (\<exists>e. w' = commit e w \<and> Name e = Name d \<and> answered tr e)"
proof -
  let ?d = "d\<lparr>reqId := bus d * 256 + devFn d, devType := -1\<rparr>"
  obtain vid t1 tr2 where 1: "tr = t1 @ tr2" "runs (PciRead16 ?d 0) t1 (Done vid)"
      "runs (bind (PciRead16 ?d 2) (\<lambda>did. if vid = 0xffff \<and> did = 0xffff
        then seq (print ''%s: ignored (0xffff on id)'' [AS (Name (?d\<lparr>Vendor := vid, Device := did\<rparr>))]) (Ret w)
        else bind (probe cfg (?d\<lparr>Vendor := vid, Device := did\<rparr>)) (\<lambda>d. file_dev w d))) tr2 (Done w')"
    using runs_done [OF assms [unfolded AddDev_def AddDev_by_def Let_def probe_def [symmetric] file_dev_def [symmetric]
      PciRead16_def [symmetric]]] by blast
  obtain did t2 tr3 where 2: "tr2 = t2 @ tr3" "runs (PciRead16 ?d 2) t2 (Done did)"
      "runs (if vid = 0xffff \<and> did = 0xffff
        then seq (print ''%s: ignored (0xffff on id)'' [AS (Name (?d\<lparr>Vendor := vid, Device := did\<rparr>))]) (Ret w)
        else bind (probe cfg (?d\<lparr>Vendor := vid, Device := did\<rparr>)) (\<lambda>d. file_dev w d)) tr3 (Done w')"
    using runs_done [OF 1(3)] by blast
  have ids: "read16_at e 0 vid tr" "read16_at e 2 did tr" if "Name e = Name d" for e
    using read_at_mono(1) [OF PciRead_at(1) [OF 1(2)], of e tr] read_at_mono(1) [OF PciRead_at(1) [OF 2(2)], of e tr] that
    by (auto simp: 1(1) 2(1))
  show ?thesis
  proof (cases "vid = 0xffff \<and> did = 0xffff")
    case True
    then show ?thesis using 2(3) ids [of d] by simp
  next
    case False
    let ?d2 = "?d\<lparr>Vendor := vid, Device := did\<rparr>"
    obtain t4 t5 e where e: "tr3 = t4 @ t5" "runs (probe cfg ?d2) t4 (Done e)" "runs (file_dev w e) t5 (Done w')"
      using runs_done [OF 2(3) [unfolded if_not_P [OF False]]] by blast
    obtain f where f: "w' = commit f w" "f = e\<lparr>headerType := headerType f, secondary := secondary f\<rparr>"
        "\<exists>h. read8_at f 0xe h t5 \<and> headerType f = uint (h AND 0x7f)"
        "headerType f = 1 \<longrightarrow> (\<exists>s. read8_at f 0x19 s t5 \<and> secondary f = uint s)"
      using file_dev_run [OF e(3)] by blast
    note pr = probe_run [OF e(2)]
    have eq: "Name f = Name e" "Vendor f = Vendor e" "Device f = Device e" "devClass f = devClass e" "Ocap f = Ocap e"
      "devType f = devType e" "LnkCapSpeed f = LnkCapSpeed e" "LnkCapWidth f = LnkCapWidth e"
      by (subst f(2), simp)+
    have sub: "set t4 \<subseteq> set tr" "set t5 \<subseteq> set tr" using 1(1) 2(1) e(1) by auto
    have up: "read16_at e off v t4 \<Longrightarrow> read16_at f off v tr" "read8_at e off b t4 \<Longrightarrow> read8_at f off b tr"
      "read8_at f off b t5 \<Longrightarrow> read8_at f off b tr" for off v b
      using read_at_mono [OF _ eq(1) sub(1)] read_at_mono(2) [OF _ refl sub(2)] by blast+
    have p: "read16_at e 0xa (devClass e) t4" "Name e = Name d" "Vendor e = vid" "Device e = did"
      "case Ocap e 0x10 of None \<Rightarrow> devType e = -1
      | Some c \<Rightarrow> (\<exists>t l. read8_at e (c + 2) t t4 \<and> devType e = uint (drop_bit 4 t AND 0xf) \<and>
          read16_at e (c + 0xc) l t4 \<and> LnkCapSpeed e = uint (l AND 0xf) \<and>
          LnkCapWidth e = uint (drop_bit 4 l AND 0x3f))"
      using pr by simp_all
    have "answered tr f"
      unfolding answered_def eq
    proof (intro conjI)
      show "read16_at f 0 (Vendor e) tr" "read16_at f 2 (Device e) tr" "read16_at f 0xa (devClass e) tr"
        using ids [of f] p(2-4) eq(1) up(1) [OF p(1)] by simp_all
      show "\<exists>h. read8_at f 0xe h tr \<and> headerType f = uint (h AND 0x7f)"
        "headerType f = 1 \<longrightarrow> (\<exists>s. read8_at f 0x19 s tr \<and> secondary f = uint s)"
        using f(3,4) up(3) by blast+
      show "case Ocap e 0x10 of None \<Rightarrow> devType e = -1
        | Some c \<Rightarrow> (\<exists>t l. read8_at f (c + 2) t tr \<and> devType e = uint (drop_bit 4 t AND 0xf) \<and>
            read16_at f (c + 0xc) l tr \<and> LnkCapSpeed e = uint (l AND 0xf) \<and>
            LnkCapWidth e = uint (drop_bit 4 l AND 0x3f))"
      proof (cases "Ocap e 0x10")
        case (Some c)
        then show ?thesis using p(5) up(1,2) by (simp only: option.case) blast
      qed (use p(5) in simp)
    qed
    then show ?thesis using f(1) eq(1) p(2) by auto
  qed
qed

lemma scan_loop_run:
  assumes "runs (scan_loop cfg w fs) tr (Done w')"
  shows "\<exists>ds. heap w' = heap w @ ds \<and> scanned fs tr ds"
  using assms
proof (induction fs arbitrary: w tr)
  case Nil
  then show ?case by (auto intro: scanned.none)
next
  case (Cons f fs)
  obtain t m tr1 where m: "tr = (Stat (config_path f), t) # tr1" "t = RBool m" 
      "runs (if m then (case scan_name f of Inl e \<Rightarrow> Fail e | Inr d \<Rightarrow> bind (AddDev cfg w d) (\<lambda>w. scan_loop cfg w fs))
        else scan_loop cfg w fs) tr1 (Done w')"
    using Cons.prems by (auto simp: stat_regular_def)
  show ?case
  proof (cases m)
    case False
    then show ?thesis using Cons.IH [of w tr1] m by (auto intro: scanned.no_file)
  next
    case True
    then obtain d where d: "scan_name f = Inr d" using m(3) by (auto split: sum.splits)
    from scan_name_canonical [OF d] have nm: "Name d = f" by simp
    obtain t1 t2 w1 where 1: "tr1 = t1 @ t2" "runs (AddDev cfg w d) t1 (Done w1)"
        "runs (scan_loop cfg w1 fs) t2 (Done w')"
      using runs_done [of "AddDev cfg w d" "\<lambda>w. scan_loop cfg w fs" tr1 w'] m(3) True d by auto
    obtain ds where ds: "heap w' = heap w1 @ ds" "scanned fs t2 ds" using Cons.IH [OF 1(3)] by blast
    from AddDev_run [OF 1(2)] show ?thesis
    proof (elim disjE conjE exE)
      assume "w1 = w" "read16_at d 0 0xffff t1" "read16_at d 2 0xffff t1"
      then show ?thesis
        using scanned.no_dev [OF nm _ _ ds(2)] ds(1) m(1,2) True 1(1) by auto
    next
      fix e
      assume e: "w1 = commit e w" "Name e = Name d" "answered t1 e"
      then have "scanned (f # fs) ((Stat (config_path f), RBool True) # t1 @ t2) (e # ds)"
        using scanned.a_dev [OF _ e(3) ds(2)] nm by simp
      then show ?thesis using ds(1) m(1,2) True 1(1) e(1) by (auto simp: commit_def Let_def)
    qed
  qed
qed

lemma Scan_run:
  assumes "runs (Scan cfg) tr (Done w)"
  shows "\<exists>names rest. tr = (ReadDir ''/sys/bus/pci/devices'', RNames names) # rest \<and> scanned names rest (heap w)"
proof -
  from assms obtain names rest where "tr = (ReadDir ''/sys/bus/pci/devices'', RNames names) # rest"
      "runs (scan_loop cfg empty_world names) rest (Done w)"
    unfolding Scan_def by (auto simp: read_dir_def pciDir_def)
  then show ?thesis using scan_loop_run by (fastforce simp: empty_world_def)
qed

section \<open>Links\<close>

lemma upd_simps [simp]:
  "length (heap (upd i f w)) = length (heap w)" "Devs (upd i f w) = Devs w" "Bus (upd i f w) = Bus w"
  "DevFn (upd i f w) = DevFn w" "nameCount (upd i f w) = nameCount w"
  by (simp_all add: upd_def)

lemma dev_upd: "dev (upd i f w) j = (if i = j \<and> j < length (heap w) then f (dev w j) else dev w j)"
  by (cases "i < length (heap w)") (auto simp: dev_def upd_def nth_list_update not_less list_update_beyond)

text \<open>The fields of a device that no later step of \<open>PciInit\<close> changes.\<close>

definition core :: "PciDev \<Rightarrow> PciDev" where
  "core d = d\<lparr>parent := None, LnkChild := None, nickname := '''', Path := '''', downPorts := 0\<rparr>"

lemma core_fields:
  "core d = core e \<Longrightarrow> Name d = Name e \<and> bus d = bus e \<and> domain d = domain e \<and> devFn d = devFn e \<and>
     reqId d = reqId e \<and> devType d = devType e \<and> headerType d = headerType e \<and>
     secondary d = secondary e \<and> Vendor d = Vendor e \<and> Device d = Device e \<and> Ecap d = Ecap e \<and> Ocap d = Ocap e"
  unfolding core_def by (cases d; cases e) simp

lemma core_dev_ok: "core d = core e \<Longrightarrow> dev_ok d = dev_ok e"
  using core_fields [of d e] by (simp add: dev_ok_def)

definition same_core :: "World \<Rightarrow> World \<Rightarrow> bool" where
  "same_core w w' \<longleftrightarrow> Devs w' = Devs w \<and> Bus w' = Bus w \<and> DevFn w' = DevFn w \<and>
     length (heap w') = length (heap w) \<and> (\<forall>i < length (heap w). core (dev w' i) = core (dev w i))"

lemma same_core_refl [simp]: "same_core w w"
  by (simp add: same_core_def)

lemma same_core_trans: "same_core u v \<Longrightarrow> same_core v w \<Longrightarrow> same_core u w"
  by (simp add: same_core_def)

lemma same_core_upd: "(\<And>d. core (f d) = core d) \<Longrightarrow> same_core w (upd i f w)"
  by (simp add: same_core_def dev_upd)

lemma same_core_world_ok:
  assumes "same_core w w'" "world_ok w"
  shows "world_ok w'"
proof -
  have c: "core (dev w' i) = core (dev w i)" if "i < length (heap w)" for i
    using assms(1) that by (simp add: same_core_def)
  have eqs: "Devs w' = Devs w" "Bus w' = Bus w" "DevFn w' = DevFn w" "length (heap w') = length (heap w)"
    using assms(1) by (simp_all add: same_core_def)
  have "latest (\<lambda>i. headerType (dev w' i) = 1 \<and> secondary (dev w' i) = b) (length (heap w))
      = latest (\<lambda>i. headerType (dev w i) = 1 \<and> secondary (dev w i) = b) (length (heap w))"
    "latest (\<lambda>i. reqId (dev w' i) = b) (length (heap w)) = latest (\<lambda>i. reqId (dev w i) = b) (length (heap w))" for b
    by (rule latest_cong, use core_fields [OF c] in simp)+
  then show ?thesis
    unfolding world_ok_def eqs
    using assms(2) [unfolded world_ok_def] core_dev_ok [OF c] by simp
qed

lemma link_dev_core: "same_core w (link_dev i w)"
proof -
  have p: "core (d\<lparr>parent := x\<rparr>) = core d" "core (d\<lparr>LnkChild := x\<rparr>) = core d" for d x
    by (simp_all add: core_def)
  show ?thesis
    unfolding link_dev_def Let_def
    by (auto split: option.split intro!: same_core_upd p same_core_trans [OF same_core_upd same_core_upd])
qed

text \<open>
  \<open>c\<close> is the device at the other end of the link of the port \<open>u\<close>: function 0 below a root port or
  a downstream port of a switch, and an endpoint or the upstream port of a switch itself.
\<close>

definition at_link :: "World \<Rightarrow> nat \<Rightarrow> nat \<Rightarrow> bool" where
  "at_link w u c \<longleftrightarrow> c < length (heap w) \<and> parent (dev w c) = Some u \<and> devFn (dev w c) = 0 \<and>
     devType (dev w u) \<in> {4, 6} \<and> devType (dev w c) \<in> {0, 5}"

lemma at_link_alt:
  "at_link w u c \<longleftrightarrow> c < length (heap w) \<and> parent (dev w c) = Some u \<and> link_child (dev w u) (dev w c)"
  by (auto simp: at_link_def link_child_def)

text \<open>
  The links of the devices in \<open>D\<close>: the parent of each is the bridge of its bus, if there is one;
  and the link child of a port is one of the devices at the other end of its link, unless there
  is none.
\<close>

definition linked :: "nat set \<Rightarrow> World \<Rightarrow> bool" where
  "linked D w \<longleftrightarrow>
     (\<forall>i < length (heap w). parent (dev w i) = (if i \<in> D then Bus w (bus (dev w i)) else None)) \<and>
     (\<forall>u < length (heap w). case LnkChild (dev w u) of Some c \<Rightarrow> at_link w u c | None \<Rightarrow> \<forall>c. \<not> at_link w u c)"

lemma unlinked_linked: "unlinked w \<Longrightarrow> linked {} w"
  by (auto simp: unlinked_def linked_def at_link_alt)

lemma linked_step:
  assumes "linked D w" "world_ok w" "i < length (heap w)" "i \<notin> D"
  shows "linked (insert i D) (link_dev i w)"
proof (cases "Bus w (bus (dev w i))")
  case None
  then show ?thesis using assms by (auto simp: linked_def link_dev_def)
next
  case (Some u)
  have u: "u < length (heap w)" using world_ok_Bus [OF assms(2) Some] by simp
  define w1 where "w1 = upd i (\<lambda>d. d\<lparr>parent := Some u\<rparr>) w"
  have d1: "dev w1 j = (if i = j then (dev w j)\<lparr>parent := Some u\<rparr> else dev w j)" if "j < length (heap w)" for j
    using that by (simp add: w1_def dev_upd)
  have len: "length (heap w1) = length (heap w)" "Bus w1 = Bus w" by (simp_all add: w1_def)
  have lc1: "link_child (dev w1 a) (dev w1 b) = link_child (dev w a) (dev w b)"
    if "a < length (heap w)" "b < length (heap w)" for a b
    using that by (simp add: d1 link_child_def)
  have par: "parent (dev w i) = None" using assms unfolding linked_def by simp
  have at1: "at_link w1 a c \<longleftrightarrow> at_link w a c \<or> (c = i \<and> a = u \<and> link_child (dev w u) (dev w i))"
    if "a < length (heap w)" for a c
  proof (cases "c < length (heap w)")
    case True
    then show ?thesis
      using that lc1 [OF that True] par u unfolding at_link_alt len by (auto simp: d1)
  next
    case False
    then show ?thesis using assms(3) by (auto simp: at_link_alt len)
  qed
  have P1: "parent (dev w1 j) = (if j \<in> insert i D then Bus w1 (bus (dev w1 j)) else None)"
    if "j < length (heap w)" for j
    using assms(1) that Some unfolding linked_def by (auto simp: d1 len)
  have L: "(LnkChild (dev w a) = None \<longrightarrow> (\<forall>c. \<not> at_link w a c)) \<and>
      (\<forall>c. LnkChild (dev w a) = Some c \<longrightarrow> at_link w a c)"
    if "a < length (heap w)" for a
    using assms(1) that unfolding linked_def by (auto split: option.splits)
  have e: "link_dev i w = (if link_child (dev w1 u) (dev w1 i) then upd u (\<lambda>d. d\<lparr>LnkChild := Some i\<rparr>) w1 else w1)"
    using Some by (simp add: link_dev_def w1_def Let_def)
  show ?thesis
  proof (cases "link_child (dev w u) (dev w i)")
    case False
    then have "link_dev i w = w1" using e lc1 [OF u assms(3)] by simp
    moreover have "LnkChild (dev w1 a) = LnkChild (dev w a)" if "a < length (heap w)" for a
      using that by (simp add: d1)
    ultimately show ?thesis
      unfolding linked_def using P1 L at1 False by (simp add: len split: option.splits)
  next
    case True
    define w2 where "w2 = upd u (\<lambda>d. d\<lparr>LnkChild := Some i\<rparr>) w1"
    have l: "link_dev i w = w2" using e lc1 [OF u assms(3)] True by (simp add: w2_def)
    have d2: "dev w2 j = (if u = j then (dev w1 j)\<lparr>LnkChild := Some i\<rparr> else dev w1 j)"
      if "j < length (heap w)" for j
      using that by (simp add: w2_def dev_upd len)
    have len2: "length (heap w2) = length (heap w)" "Bus w2 = Bus w" by (simp_all add: w2_def len)
    have f2: "parent (dev w2 j) = parent (dev w1 j)" "devFn (dev w2 j) = devFn (dev w1 j)"
      "devType (dev w2 j) = devType (dev w1 j)" if "j < length (heap w)" for j
      using that by (simp_all add: d2)
    have at2: "at_link w2 a c \<longleftrightarrow> at_link w1 a c" if "a < length (heap w)" for a c
      unfolding at_link_alt len len2 link_child_def f2(3) [OF that] by (rule conj_cong) (simp_all add: f2)
    show ?thesis
      unfolding l linked_def len2
    proof (intro conjI allI impI)
      show "parent (dev w2 j) = (if j \<in> insert i D then Bus w (bus (dev w2 j)) else None)"
        if "j < length (heap w)" for j
        using P1 [OF that] that by (simp add: d2 len)
    next
      fix a
      assume a: "a < length (heap w)"
      show "case LnkChild (dev w2 a) of Some c \<Rightarrow> at_link w2 a c | None \<Rightarrow> \<forall>c. \<not> at_link w2 a c"
      proof (cases "a = u")
        case True
        then show ?thesis using a at2 at1 \<open>link_child (dev w u) (dev w i)\<close> by (simp add: d2)
      next
        case False
        then have "LnkChild (dev w2 a) = LnkChild (dev w a)" using a by (simp add: d2 d1)
        then show ?thesis using L [OF a] at2 [OF a] at1 [OF a] False by (simp split: option.splits)
      qed
    qed
  qed
qed

lemma link_fold:
  assumes "linked D w" "world_ok w" "set is \<subseteq> {..<length (heap w)}" "distinct is" "set is \<inter> D = {}"
  shows "linked (D \<union> set is) (fold link_dev is w) \<and> same_core w (fold link_dev is w)"
  using assms
proof (induction "is" arbitrary: D w)
  case (Cons i "is")
  have core: "same_core w (link_dev i w)" by (rule link_dev_core)
  have "linked (insert i D) (link_dev i w)"
    using Cons.prems by (intro linked_step) auto
  moreover have "length (heap (link_dev i w)) = length (heap w)"
    using core by (simp add: same_core_def)
  ultimately have "linked (insert i D \<union> set is) (fold link_dev is (link_dev i w)) \<and>
      same_core (link_dev i w) (fold link_dev is (link_dev i w))"
    using Cons.prems same_core_world_ok [OF core] by (intro Cons.IH) auto
  then show ?case using same_core_trans [OF core] by simp
qed simp

section \<open>Names leave the links alone\<close>

definition same_links :: "World \<Rightarrow> World \<Rightarrow> bool" where
  "same_links w w' \<longleftrightarrow> same_core w w' \<and>
     (\<forall>i. parent (dev w' i) = parent (dev w i) \<and> LnkChild (dev w' i) = LnkChild (dev w i) \<and>
          core (dev w' i) = core (dev w i))"

lemma same_links_refl [simp]: "same_links w w"
  by (simp add: same_links_def)

lemma same_links_trans: "same_links u v \<Longrightarrow> same_links v w \<Longrightarrow> same_links u w"
  by (auto simp: same_links_def intro: same_core_trans)

lemma same_links_upd:
  "(\<And>d. parent (f d) = parent d \<and> LnkChild (f d) = LnkChild d \<and> core (f d) = core d) \<Longrightarrow>
     same_links w (upd i f w)"
  by (simp add: same_links_def same_core_upd dev_upd)

lemma same_links_count: "same_links w (w\<lparr>nameCount := m\<rparr>)"
  by (simp add: same_links_def same_core_def dev_def)

lemma pick_nickname_links: "pick_nickname w d = (s, w') \<Longrightarrow> same_links w w'"
  by (auto simp: pick_nickname_def Let_def same_links_count split: if_splits)

lemma InitNickName_links:
  assumes "InitNickName i w = Inr w'"
  shows "same_links w w'"
proof -
  have c: "core (d\<lparr>nickname := n, Path := s\<rparr>) = core d" "core (d\<lparr>Path := s, nickname := n\<rparr>) = core d"
    "core (d\<lparr>downPorts := k\<rparr>) = core d" for d n s k
    by (simp_all add: core_def)
  show ?thesis
  proof (cases "devType (dev w i) = PCI_CAP_EXP_TYPE_DOWNSTREAM")
    case True
    then show ?thesis
      using assms c by (auto simp: InitNickName_def Let_def split: option.splits
        intro!: same_links_upd intro: same_links_trans [OF same_links_upd same_links_upd])
  next
    case False
    obtain s w1 where "pick_nickname w (dev w i) = (s, w1)" by (cases "pick_nickname w (dev w i)") auto
    then show ?thesis
      using assms False c pick_nickname_links same_links_trans [OF _ same_links_upd]
      by (fastforce simp: InitNickName_def Let_def)
  qed
qed

lemma nick_loop_links: "nick_loop w is = Inr w' \<Longrightarrow> same_links w w'"
proof (induction "is" arbitrary: w)
  case (Cons i "is")
  then show ?case
    by (auto split: sum.splits dest: InitNickName_links intro: same_links_trans)
qed simp

lemma InitNickName_fails:
  "(\<exists>e. InitNickName i w = Inl e) \<longleftrightarrow>
     devType (dev w i) = PCI_CAP_EXP_TYPE_DOWNSTREAM \<and> parent (dev w i) = None"
  by (auto simp: InitNickName_def Let_def split: option.split prod.split)

text \<open>
  Naming the devices panics exactly when a downstream port of a switch has no
  bridge above it: \<open>InitNickName\<close> takes the number of the port from its parent without asking
  whether there is one.
\<close>

lemma naming_panics:
  "(\<exists>e. nick_loop w is = Inl e) \<longleftrightarrow>
     (\<exists>i \<in> set is. devType (dev w i) = PCI_CAP_EXP_TYPE_DOWNSTREAM \<and> parent (dev w i) = None)"
proof (induction "is" arbitrary: w)
  case (Cons i "is")
  show ?case
  proof (cases "InitNickName i w")
    case (Inl e)
    then show ?thesis using InitNickName_fails [of i w] by auto
  next
    case (Inr w')
    then have "same_links w w'" by (rule InitNickName_links)
    then have "devType (dev w' j) = devType (dev w j)" "parent (dev w' j) = parent (dev w j)" for j
      using core_fields unfolding same_links_def by blast+
    then show ?thesis using Inr InitNickName_fails [of i w] Cons.IH [of w'] by auto
  qed
qed simp

lemma linked_same:
  assumes "same_links w w'" "linked D w"
  shows "linked D w'"
proof -
  have f: "parent (dev w' i) = parent (dev w i)" "LnkChild (dev w' i) = LnkChild (dev w i)"
    "bus (dev w' i) = bus (dev w i)" "devType (dev w' i) = devType (dev w i)" "devFn (dev w' i) = devFn (dev w i)"
    for i
    using assms(1) core_fields unfolding same_links_def by blast+
  have e: "length (heap w') = length (heap w)" "Bus w' = Bus w"
    using assms(1) by (simp_all add: same_links_def same_core_def)
  have a: "at_link w' = at_link w" unfolding fun_eq_iff at_link_alt link_child_def f e by blast
  show ?thesis using assms(2) unfolding linked_def f e a .
qed

definition sorted_devs :: "World \<Rightarrow> bool" where
  "sorted_devs w \<longleftrightarrow> sorted (map (\<lambda>i. Name (dev w i)) (Devs w))"

lemma answered_core: "answered tr d = answered tr (core d)"
  by (cases "Ocap d 0x10") (simp_all add: answered_def core_def read16_at_def read8_at_def)

lemma scanned_core:
  "scanned ns tr ds \<Longrightarrow> list_all2 (\<lambda>d e. core d = core e) ds es \<Longrightarrow> scanned ns tr es"
proof (induction arbitrary: es rule: scanned.induct)
  case (a_dev d n t ns tr ds)
  then obtain e es' where e: "es = e # es'" "core d = core e" "list_all2 (\<lambda>d e. core d = core e) ds es'"
    by (auto simp: list_all2_Cons1)
  have "answered t e" using a_dev(2) e(2) answered_core by metis
  moreover have "Name e = n" using core_fields [OF e(2)] a_dev(1) by simp
  ultimately show ?case using scanned.a_dev a_dev.IH [OF e(3)] e(1) by blast
qed (auto intro: scanned.intros)

lemma PciInit_by_world:
  assumes "returns scan (\<lambda>w. world_ok w \<and> unlinked w)" "runs (PciInit_by scan) tr (Done w)"
  shows "world_ok w \<and> sorted_devs w \<and> linked {..<length (heap w)} w \<and>
    (\<exists>w0. runs scan tr (Done w0) \<and> list_all2 (\<lambda>d e. core d = core e) (heap w0) (heap w))"
proof -
  from assms(2) obtain w0 where s: "runs scan tr (Done w0)"
    and n: "nick_loop (link_all (sort_devs (w0\<lparr>nameCount := Map.empty\<rparr>)))
      (Devs (link_all (sort_devs (w0\<lparr>nameCount := Map.empty\<rparr>)))) = Inr w"
    unfolding PciInit_by_def Let_def by (elim runs_bindE) (auto split: sum.splits)
  define w1 where "w1 = sort_devs (w0\<lparr>nameCount := Map.empty\<rparr>)"
  have w0: "world_ok w0" "unlinked w0" using returnsD [OF assms(1) s] by auto
  have e: "heap w1 = heap w0" "Bus w1 = Bus w0" "DevFn w1 = DevFn w0" "dev w1 = dev w0"
    "Devs w1 = sort_key (\<lambda>i. Name (dev w1 i)) (Devs w0)"
    by (simp_all add: w1_def sort_devs_def dev_def fun_eq_iff)
  have d: "set (Devs w1) = set (Devs w0)" "distinct (Devs w1) = distinct (Devs w0)"
    by (subst e(5), simp)+
  have "world_ok w1 = world_ok w0" "unlinked w1 = unlinked w0"
    by (simp_all only: world_ok_def unlinked_def e(1-4) d)
  then have w1: "world_ok w1" "unlinked w1"
    using w0 by simp_all
  have srt: "sorted_devs w1" unfolding sorted_devs_def by (subst e(5)) (rule sorted_sort_key)
  from w1 have "linked ({} \<union> set (Devs w1)) (fold link_dev (Devs w1) w1) \<and> same_core w1 (fold link_dev (Devs w1) w1)"
    by (intro link_fold) (auto simp: unlinked_linked world_ok_def)
  then have w2: "linked {..<length (heap w1)} (link_all w1)" "same_core w1 (link_all w1)"
    using w1 by (simp_all add: link_all_def world_ok_def)
  have l: "same_links (link_all w1) w"
    using nick_loop_links n by (simp add: w1_def)
  then have c: "same_core w1 w" using w2(2) same_core_trans by (auto simp: same_links_def)
  have "Name (dev w i) = Name (dev w1 i)" if "i \<in> set (Devs w1)" for i
  proof -
    have "set (Devs w1) = {..<length (heap w1)}" using w1(1) unfolding world_ok_def by blast
    then have "core (dev w i) = core (dev w1 i)" using c that unfolding same_core_def by blast
    then show ?thesis using core_fields by blast
  qed
  moreover have "Devs w = Devs w1" using c by (simp add: same_core_def)
  ultimately have "map (\<lambda>i. Name (dev w i)) (Devs w) = map (\<lambda>i. Name (dev w1 i)) (Devs w1)"
    by simp
  moreover have "length (heap w) = length (heap w1)" using c by (simp add: same_core_def)
  moreover have "list_all2 (\<lambda>d e. core d = core e) (heap w0) (heap w)"
    using c unfolding same_core_def e by (simp add: list_all2_conv_all_nth dev_def e)
  ultimately show ?thesis
    using same_core_world_ok [OF c w1(1)] srt linked_same [OF l w2(1)] s by (auto simp: sorted_devs_def)
qed


lemma PciInit_world_ok: "runs (PciInit cfg) tr (Done w) \<Longrightarrow> world_ok w"
  using PciInit_by_world [OF Scan_ok] unfolding PciInit_def by blast

section \<open>A machine for the witnesses\<close>

text \<open>
  A root port with a PCI bridge of the BMC's VGA behind it: the bytes of their configuration
  spaces that are not zero.
\<close>

definition root_port :: "(int \<times> u8) list" where
  "root_port = [(0, 0x86), (1, 0x80), (2, 1), (3, 2), (6, 0x10), (0xe, 1), (0x19, 1), (0x34, 0x40),
     (0x40, 0x10), (0x42, 0x40), (0x4c, 0x43), (0x100, 1), (0x102, 1)]"

definition vga :: "(int \<times> u8) list" where
  "vga = [(0, 3), (1, 0x1a), (2, 0), (3, 0x20), (6, 0x10), (0x17, 0x90), (0x34, 0x40),
     (0x40, 0x10), (0x42, 0x00), (0x4c, 0x43), (0x100, 1), (0x102, 1)]"

definition cfg_byte :: "(string \<Rightarrow> (int \<times> u8) list) \<Rightarrow> string \<Rightarrow> int \<Rightarrow> u8" where
  "cfg_byte m path off = (case map_of (m path) off of Some b \<Rightarrow> b | None \<Rightarrow> 0)"

definition sysfs :: "string list \<Rightarrow> (string \<Rightarrow> (int \<times> u8) list) \<Rightarrow> unit handler" where
  "sysfs names m q s = (Inr (case q of
       ReadDir _ \<Rightarrow> RNames names
     | ReadAt path off n \<Rightarrow> RAt (map (\<lambda>k. cfg_byte m path (off + int k)) [0..<n]) None
     | _ \<Rightarrow> quiet q), s)"

lemma sysfs_answers: "answers (sysfs names m)"
proof -
  have "fits q (case q of
       ReadDir _ \<Rightarrow> RNames names
     | ReadAt path off n \<Rightarrow> RAt (map (\<lambda>k. cfg_byte m path (off + int k)) [0..<n]) None
     | _ \<Rightarrow> quiet q)" for q
    by (cases q) (auto simp: quiet_def)
  then show ?thesis by (simp add: answers_def sysfs_def)
qed

definition two_devs :: "unit handler" where
  "two_devs = sysfs [''0000:01:00.0'', ''0000:00:01.0'']
     (\<lambda>path. if path = config_path ''0000:00:01.0'' then root_port else vga)"

text \<open>The world they make, and a run that makes it.\<close>

definition two_world :: World where
  "two_world = (case fst (exec two_devs (PciInit plain_config) ()) of Done w \<Rightarrow> w | Failed e \<Rightarrow> empty_world)"

lemma two_devs_done: "fst (exec two_devs (PciInit plain_config) ()) = Done two_world"
proof -
  have "case fst (exec two_devs (PciInit plain_config) ()) of Done w \<Rightarrow> True | Failed e \<Rightarrow> False"
    by code_simp
  then show ?thesis by (simp add: two_world_def split: outcome.splits)
qed


theorem scan_name_roundtrip_witness:
  "(case scan_name (bdf_name 0 0x3a 0x11) of
     Inr d \<Rightarrow> (0::int) < 0x8000 \<and> Name d = bdf_name 0 0x3a 0x11 \<and> domain d = 0 \<and> bus d = 0x3a \<and> devFn d = 0x11
   | Inl e \<Rightarrow> (0x8000::int) \<le> 0 \<and> (\<exists>m args. e = Fatal m args)) \<and>
   (case scan_name (bdf_name 0x10000 0 0) of
     Inr d \<Rightarrow> (0x10000::int) < 0x8000 \<and> Name d = bdf_name 0x10000 0 0 \<and> domain d = 0x10000 \<and> bus d = 0 \<and> devFn d = 0
   | Inl e \<Rightarrow> (0x8000::int) \<le> 0x10000 \<and> (\<exists>m args. e = Fatal m args))"
  using scan_name_roundtrip [of 0 "0x3a" "0x11"] scan_name_roundtrip [of "0x10000" 0 0] by simp

text \<open>A device whose only extended capability is its own successor: the walk never ends.\<close>

definition self_loop :: "unit handler" where
  "self_loop = sysfs [] (\<lambda>_. [(0x100, 1), (0x102, 1), (0x103, 0x10)])"

lemma self_loop_read: "exec self_loop (PciRead32 zero_dev 0x100) () = (Done 0x10010001, ())"
  by code_simp

lemma self_loop_spins: "exec self_loop (ecap_loop n zero_dev 0x100 m) () = (Failed OutOfFuel, ())"
  by (induction n arbitrary: m) (simp_all add: exec_bind self_loop_read)


end
