(* ===== verification/Bmc.thy ===== *)
theory Bmc
  imports AstBridge Spi I2cBus Pci
begin

text \<open>
  Opening the BMC (ast/p2a.go \<open>Map\<close>, ast/ast.go \<open>New\<close>, \<open>Dram\<close>, \<open>AstInfo\<close>, \<open>SpiInfo\<close>,
  ast/spi.go \<open>FmcNew\<close>, ast/mii.go): on the BMC itself its registers are memory, on a host they
  are reached through BAR1 of the VGA device, which the first mapping finds with a PCI scan.

  The state threaded here is what mapping changes: the tables of package pmem and
  \<open>p2aGlob.bar1\<close>. The other field of \<open>p2aGlob\<close>, the page cache, belongs to the access methods
  (theory P2A).
\<close>

section \<open>The architecture\<close>

text \<open>
  The setting \<open>archName\<close> is the answer of \<open>arch\<close>: on Linux (ast/arch_linux.go) the text before the
  first zero byte of the array \<open>Machine\<close> that \<open>uname\<close> fills, on FreeBSD (ast/arch_freebsd.go) a
  constant.
\<close>

definition linux_arch :: "u8 list option \<Rightarrow> failure + string" where
  "linux_arch machine =
     (case machine of
        None \<Rightarrow> Inl (Fatal ''%v'' [])
      | Some m \<Rightarrow> Inr (text_of (takeWhile (\<lambda>c. c \<noteq> 0) m)))"

definition bsd_arch :: string where "bsd_arch = ''x86''"

lemma linux_arch_padded:
  "0 \<notin> set (bytes_of s) \<Longrightarrow> linux_arch (Some (bytes_of s @ replicate n 0)) = Inr s"
proof -
  assume z: "0 \<notin> set (bytes_of s)"
  then have "\<And>x. x \<in> set (bytes_of s) \<Longrightarrow> x \<noteq> 0" by metis
  then show ?thesis by (simp add: linux_arch_def takeWhile_append)
qed

text \<open>Under FreeBSD the program always runs on a host.\<close>

lemma bsd_on_host: "archName cfg = bsd_arch \<Longrightarrow> archName cfg \<noteq> ''armv6l''"
  by (simp add: bsd_arch_def)

section \<open>Mapping\<close>

record maps =
  pm :: pmem_state
  bar :: "region option"

text \<open>Finding the VGA device and mapping its BAR1, once.\<close>

definition find_bar1_by :: "World io \<Rightarrow> cfg_read \<Rightarrow> config \<Rightarrow> maps \<Rightarrow> maps io" where
  "find_bar1_by init rd cfg s =
     (case bar s of
        Some b \<Rightarrow> Ret s
      | None \<Rightarrow> bind init (\<lambda>w.
          let l = FindById w 0x1a03 0x2000
          in if length l \<noteq> 1 then Fail (Fatal ''Cannot find pci 1a03:2000 for acess to ast'' [])
             else bind (Read32_by rd (dev w (l ! 0)) 0x14) (\<lambda>b.
               let bar1Addr = b AND NOT 0x1f
               in bind (Map cfg ''ASTVGA-BAR1'' (uint bar1Addr) True 0x20000 (pm s)) (\<lambda>(r, st).
                 Ret (s\<lparr>pm := st, bar := Some r\<rparr>)))))"

definition find_bar1 :: "config \<Rightarrow> maps \<Rightarrow> maps io" where
  "find_bar1 cfg s = find_bar1_by (PciInit cfg) PciRead cfg s"

definition AstMap :: "config \<Rightarrow> string \<Rightarrow> int \<Rightarrow> bool \<Rightarrow> int \<Rightarrow> maps \<Rightarrow> (region \<times> maps) io" where
  "AstMap cfg name hwaddr write ioLen s =
     (let ioLen = (if ioLen = 0 then 4096 else ioLen)
      in if archName cfg = ''armv6l''
         then bind (Map cfg name hwaddr write ioLen (pm s)) (\<lambda>(r, st). Ret (r, s\<lparr>pm := st\<rparr>))
         else bind (find_bar1 cfg s) (\<lambda>s. Ret (AstMem '''' hwaddr ioLen, s)))"

section \<open>The handle\<close>

definition New :: "config \<Rightarrow> maps \<Rightarrow> (AstHandle \<times> maps) io" where
  "New cfg s =
     bind (AstMap cfg ''scu'' SCU_ADDR True 4096 s) (\<lambda>(rscu, s).
     bind (AstFamily rscu) (\<lambda>fam.
     bind (AstMap cfg ''wdt'' WDT_ADDR True 4096 s) (\<lambda>(rwdt, s).
     bind (AstMap cfg ''i2c'' I2C_ADDR True 4096 s) (\<lambda>(ri2c, s).
     bind (AstMap cfg ''lpc'' LPC_ADDR True 4096 s) (\<lambda>(rlpc, s).
     bind (AstMap cfg ''mac0'' MAC0_ADDR True 4096 s) (\<lambda>(m0, s).
     bind (AstMap cfg ''mac1'' MAC1_ADDR True 4096 s) (\<lambda>(m1, s).
       Ret (\<lparr>scu = rscu, I2c = ri2c, wdt = rwdt, lpc = rlpc, dram = None, mac = [m0, m1],
             Family = fam, ThisIsMe = (archName cfg = ''armv6l'')\<rparr>, s))))))))"

definition Dram :: "config \<Rightarrow> AstHandle \<Rightarrow> maps \<Rightarrow> (region \<times> AstHandle \<times> maps) io" where
  "Dram cfg a s =
     (case dram a of
        Some r \<Rightarrow> Ret (r, a, s)
      | None \<Rightarrow> bind (AstMap cfg ''dram'' DRAM_ADDR False (512 * 1024 * 1024) s) (\<lambda>(r, s).
          Ret (r, a\<lparr>dram := Some r\<rparr>, s)))"

definition AstInfo :: "config \<Rightarrow> maps \<Rightarrow> ((string \<times> int) \<times> maps) io" where
  "AstInfo cfg s =
     bind (AstMap cfg ''scu'' SCU_ADDR False 4096 s) (\<lambda>(r, s).
       bind (AstInfo_of r) (\<lambda>x. Ret (x, s)))"

definition SpiInfo :: "config \<Rightarrow> AstHandle \<Rightarrow> maps \<Rightarrow> maps io" where
  "SpiInfo cfg a s =
     bind (AstMap cfg ''fmc'' FMC_ADDR True 4096 s) (\<lambda>(spi, s). seq (SpiInfo_of a spi) (Ret s))"

text \<open>The flash memory must be behind the bridge: the type assertion fails for a mapping.\<close>

definition FmcNew :: "config \<Rightarrow> AstHandle \<Rightarrow> maps \<Rightarrow> (Fmc \<times> maps) io" where
  "FmcNew cfg a s =
     bind (AstStop a) (\<lambda>_.
     bind (AstMap cfg ''fmc'' FMC_ADDR True 4096 s) (\<lambda>(rg, s).
     bind (AstMap cfg ''fmc-mem'' FMC_MEM True (64 * 1024 * 1024) s) (\<lambda>(m, s).
       (case m of
          AstMem _ _ _ \<Rightarrow> bind (FmcInit cfg rg m) (\<lambda>f. Ret (f, s))
        | _ \<Rightarrow> Fail (Panic ''interface conversion'')))))"

section \<open>The link status of the management controller\<close>

text \<open>
  The three MDIO controllers differ in where the command and the data are and in which command
  reads the PHY status; the loop is the same: use the result of a finished status read, start
  one if the controller is idle, give up if it is busy with something else.
\<close>

record mdio =
  mregs :: region
  dataOff :: int
  doneCmd :: "u32 \<Rightarrow> bool"
  goodStatus :: "u32 \<Rightarrow> bool"
  linkShift :: nat
  idleCmd :: "u32 \<Rightarrow> bool"
  startCmd :: u32
  cmdOff :: int

definition mii_failed :: "mdio \<Rightarrow> u32 \<Rightarrow> unit io" where
  "mii_failed m cmd =
     print ''Cannot get link status (mii busy [%#x]=0x%08x)'' [AI (cmdOff m), AW cmd]"

fun mii_loop :: "nat \<Rightarrow> mdio \<Rightarrow> u32 \<Rightarrow> unit io" where
  "mii_loop 0 m cmd = mii_failed m cmd"
| "mii_loop (Suc n) m cmd =
     (let again = (if idleCmd m cmd
          then seq (write32 (mregs m) (cmdOff m) (startCmd m))
            (seq (sleep 1000000)
              (bind (read32 (mregs m) (cmdOff m)) (\<lambda>cmd. mii_loop n m cmd)))
          else mii_failed m cmd)
      in if doneCmd m cmd
         then bind (read32 (mregs m) (dataOff m)) (\<lambda>status.
           if goodStatus m status
           then print ''link-up: %d'' [AW (drop_bit (linkShift m) status AND 1)]
           else again)
         else again)"

definition mii_run :: "mdio \<Rightarrow> unit io" where
  "mii_run m = bind (read32 (mregs m) (cmdOff m)) (\<lambda>cmd. mii_loop 2 m cmd)"

text \<open>The controller of the AST2500 in its old and its new layout, and that of the AST2600.\<close>

definition old_mdio :: "region \<Rightarrow> mdio" where
  "old_mdio r = \<lparr>mregs = r, dataOff = 0x64, doneCmd = (\<lambda>c. c AND 0xffff0000 = 0x00200000),
     goodStatus = (\<lambda>s. s AND 0xff000000 = 0x79000000), linkShift = 18,
     idleCmd = (\<lambda>c. c AND 0xfc000000 = 0), startCmd = 0x0420000f, cmdOff = 0x60\<rparr>"

definition new_mdio :: "region \<Rightarrow> mdio" where
  "new_mdio r = \<lparr>mregs = r, dataOff = 0x64, doneCmd = (\<lambda>c. c = 0x1801),
     goodStatus = (\<lambda>s. s AND 0xff00 = 0x7900), linkShift = 2,
     idleCmd = (\<lambda>c. c AND 0xffff8000 = 0), startCmd = 0x9801, cmdOff = 0x60\<rparr>"

definition pmi_mdio :: "region \<Rightarrow> mdio" where
  "pmi_mdio r = \<lparr>mregs = r, dataOff = 0x4, doneCmd = (\<lambda>c. c = 0x18010000),
     goodStatus = (\<lambda>s. s AND 0xff00 = 0x7900), linkShift = 2,
     idleCmd = (\<lambda>c. c AND 0x8000ffff = 0), startCmd = 0x98010000, cmdOff = 0x0\<rparr>"

definition MiiInfo :: "config \<Rightarrow> AstHandle \<Rightarrow> maps \<Rightarrow> maps io" where
  "MiiInfo cfg a s =
     (if Family a = 25
      then bind (read32 (mac a ! 1) 0x40) (\<lambda>rev.
        let oldMdio = (rev AND 0x80000000 = 0)
        in seq (if oldMdio then mii_run (old_mdio (mac a ! 1)) else mii_run (new_mdio (mac a ! 1)))
             (Ret s))
      else if Family a = 26
      then bind (AstMap cfg ''PMI'' 0x1e650000 True 4096 s) (\<lambda>(r, s).
        seq (mii_run (pmi_mdio r)) (Ret s))
      else seq (print ''mii status not supported on %d00'' [AI (Family a)]) (Ret s))"

section \<open>Opening finds one device\<close>

lemma find_bar1_known: "bar s = Some b \<Longrightarrow> find_bar1 cfg s = Ret s"
  by (simp add: find_bar1_def find_bar1_by_def)

lemma find_bar1_None:
  assumes "runs (find_bar1 cfg s) tr (Done s')" "bar s = None"
  shows "\<exists>tr1 tr2 tr3 w i v r st. tr = tr1 @ tr2 @ tr3 \<and> runs (PciInit cfg) tr1 (Done w) \<and>
     FindById w 0x1a03 0x2000 = [i] \<and> runs (PciRead32 (dev w i) 0x14) tr2 (Done v) \<and>
     runs (Map cfg ''ASTVGA-BAR1'' (uint (v AND NOT 0x1f)) True 0x20000 (pm s)) tr3 (Done (r, st)) \<and>
     s' = s\<lparr>pm := st, bar := Some r\<rparr>"
  using assms(1) unfolding find_bar1_def find_bar1_by_def PciRead32_def [symmetric] assms(2) option.case Let_def
proof (rule runs_bindE)
  fix tr1 tr2 w
  assume w: "runs (PciInit cfg) tr1 (Done w)" "tr = tr1 @ tr2"
    and k: "runs (if length (FindById w 0x1a03 0x2000) \<noteq> 1
         then Fail (Fatal ''Cannot find pci 1a03:2000 for acess to ast'' [])
         else bind (PciRead32 (dev w (FindById w 0x1a03 0x2000 ! 0)) 0x14) (\<lambda>b.
           bind (Map cfg ''ASTVGA-BAR1'' (uint (b AND NOT 0x1f)) True 0x20000 (pm s)) (\<lambda>(r, st).
             Ret (s\<lparr>pm := st, bar := Some r\<rparr>)))) tr2 (Done s')"
  then obtain i where i: "FindById w 0x1a03 0x2000 = [i]"
    by (cases "length (FindById w 0x1a03 0x2000) \<noteq> 1") (auto simp: length_Suc_conv)
  from k [unfolded i] obtain v tr2a tr3 where
    v: "runs (PciRead32 (dev w i) 0x14) tr2a (Done v)" "tr2 = tr2a @ tr3"
    and m: "runs (bind (Map cfg ''ASTVGA-BAR1'' (uint (v AND NOT 0x1f)) True 0x20000 (pm s)) (\<lambda>(r, st).
             Ret (s\<lparr>pm := st, bar := Some r\<rparr>))) tr3 (Done s')"
    by simp (erule runs_bindE, auto)
  from m obtain r st where
    "runs (Map cfg ''ASTVGA-BAR1'' (uint (v AND NOT 0x1f)) True 0x20000 (pm s)) tr3 (Done (r, st))"
    "s' = s\<lparr>pm := st, bar := Some r\<rparr>"
    by (rule runs_bindE) auto
  with w i v show ?thesis by blast
qed auto

lemma find_bar1_bar:
  assumes "runs (find_bar1 cfg s) tr (Done s')"
  shows "bar s' \<noteq> None"
proof (cases "bar s")
  case None
  from find_bar1_None [OF assms None] show ?thesis by auto
next
  case (Some b)
  then show ?thesis using assms by (simp add: find_bar1_known)
qed

lemma AstMap_host:
  "archName cfg \<noteq> ''armv6l'' \<Longrightarrow> n \<noteq> 0 \<Longrightarrow>
     AstMap cfg name addr w n s = bind (find_bar1 cfg s) (\<lambda>s. Ret (AstMem '''' addr n, s))"
  by (simp add: AstMap_def)

lemma AstMap_host_known:
  assumes "archName cfg \<noteq> ''armv6l''" "n \<noteq> 0" "bar s \<noteq> None"
  shows "AstMap cfg name addr w n s = Ret (AstMem '''' addr n, s)"
  using assms by (auto simp: AstMap_host find_bar1_known)

lemma New_host_known:
  assumes "archName cfg \<noteq> ''armv6l''" "bar s \<noteq> None"
  shows "New cfg s = bind (AstFamily (AstMem '''' SCU_ADDR 4096)) (\<lambda>fam. Ret (host_handle fam, s))"
  using assms by (simp add: New_def AstMap_host_known host_handle_def)

text \<open>The identification registers a run of \<open>AstFamily\<close> reads, and the family of each revision.\<close>

lemma AstFamily_run:
  assumes "runs (AstFamily r) tr (Done fam)"
  shows "\<exists>id0 id1. tr = (Rd32 r 0x4, RU32 id0)
      # (if drop_bit 24 id0 = 5 then [] else [(Rd32 r 0x7c, RU32 id1)])
    \<and> ((if drop_bit 24 id0 = 5 then id0 else id1) AND NOT 0x0f0000, fam)
      \<in> {(0x02000303, 24), (0x04000303, 25), (0x05000303, 26)}"
  using assms by (auto simp: AstFamily_def Let_def SCU_REVID_def split: if_splits)

text \<open>
  Property C9. Opening the BMC on a host: \<open>New\<close> finds the bridge first, if it is not known yet
  (when it is, no operation is made for it), and from then on does exactly this: it reads the
  identification register 4 of the SCU through the bridge, and, unless its top byte is 5, the
  revision register 0x7c. The handle it returns has the regions of the host, is not "this is me",
  and its family is the one the register read last stands for, its bits 16 to 19 ignored. So
  every later operation starts from a known bridge.
\<close>

theorem New_host:
  assumes "archName cfg \<noteq> ''armv6l''" "runs (New cfg s) tr (Done (a, s'))"
  shows "a = host_handle (Family a) \<and> Family a \<in> {24, 25, 26} \<and> bar s' \<noteq> None \<and>
     (\<exists>tr1 id0 id1. runs (find_bar1 cfg s) tr1 (Done s') \<and> (bar s \<noteq> None \<longrightarrow> tr1 = [] \<and> s' = s) \<and>
        tr = tr1 @ (Rd32 (AstMem '''' 0x1E6E2000 4096) 0x4, RU32 id0)
          # (if drop_bit 24 id0 = 5 then [] else [(Rd32 (AstMem '''' 0x1E6E2000 4096) 0x7c, RU32 id1)]) \<and>
        ((if drop_bit 24 id0 = 5 then id0 else id1) AND NOT 0x0f0000, Family a)
          \<in> {(0x02000303, 24), (0x04000303, 25), (0x05000303, 26)})"
proof -
  let ?fam = "\<lambda>s. bind (AstFamily (AstMem '''' SCU_ADDR 4096)) (\<lambda>fam. Ret (host_handle fam, s))"
  from assms(2) obtain tr1 tr2 s1 where f: "runs (find_bar1 cfg s) tr1 (Done s1)" "tr = tr1 @ tr2"
    and k: "runs (bind (AstFamily (AstMem '''' SCU_ADDR 4096)) (\<lambda>fam.
      bind (AstMap cfg ''wdt'' WDT_ADDR True 4096 s1) (\<lambda>(rwdt, s).
      bind (AstMap cfg ''i2c'' I2C_ADDR True 4096 s) (\<lambda>(ri2c, s).
      bind (AstMap cfg ''lpc'' LPC_ADDR True 4096 s) (\<lambda>(rlpc, s).
      bind (AstMap cfg ''mac0'' MAC0_ADDR True 4096 s) (\<lambda>(m0, s).
      bind (AstMap cfg ''mac1'' MAC1_ADDR True 4096 s) (\<lambda>(m1, s).
       Ret (\<lparr>scu = AstMem '''' SCU_ADDR 4096, I2c = ri2c, wdt = rwdt, lpc = rlpc, dram = None, mac = [m0, m1],
             Family = fam, ThisIsMe = (archName cfg = ''armv6l'')\<rparr>, s))))))) ) tr2 (Done (a, s'))"
    unfolding New_def by (simp add: AstMap_host [OF assms(1)]) (erule runs_bindE, auto)
  have b: "bar s1 \<noteq> None" using find_bar1_bar [OF f(1)] .
  from k have k': "runs (?fam s1) tr2 (Done (a, s'))"
    using assms(1) by (simp add: AstMap_host_known [OF assms(1) _ b] host_handle_def)
  then obtain fam where fam: "runs (AstFamily (AstMem '''' SCU_ADDR 4096)) tr2 (Done fam)"
    "a = host_handle fam" "s' = s1"
    by (auto elim!: runs_bindE)
  have "bar s \<noteq> None \<longrightarrow> tr1 = [] \<and> s1 = s" using f(1) by (auto simp: find_bar1_known)
  moreover obtain id0 id1 where ids: "tr2 = (Rd32 (AstMem '''' 0x1E6E2000 4096) 0x4, RU32 id0)
      # (if drop_bit 24 id0 = 5 then [] else [(Rd32 (AstMem '''' 0x1E6E2000 4096) 0x7c, RU32 id1)])"
    "((if drop_bit 24 id0 = 5 then id0 else id1) AND NOT 0x0f0000, fam)
      \<in> {(0x02000303, 24), (0x04000303, 25), (0x05000303, 26)}"
    using AstFamily_run [OF fam(1)] unfolding SCU_ADDR_def by blast
  moreover have "Family a = fam" "a = host_handle (Family a)" "fam \<in> {24, 25, 26}"
    using fam(2) ids(2) by auto
  ultimately show ?thesis using f b fam(3) by (intro conjI exI [of _ tr1] exI [of _ id0] exI [of _ id1]) simp_all
qed

text \<open>
  Property C15. The window \<open>Map\<close> opens: on a host without a known bridge, a mapping that succeeds
  has made one PCI scan, and in the world that scan returned exactly one device is the VGA device
  of the BMC (vendor 1a03, device 2000). The base address register 1 read next is that device's,
  and the bridge is then a 128 KiB writable mapping at the address in that register with its flag
  bits cleared, so the control registers and the 64 KiB window the access methods use are inside
  it.
\<close>

theorem find_bar1_window:
  assumes "pmem_inv (pm s)" "bar s = None" "runs (find_bar1 cfg s) tr (Done s')"
  shows "\<exists>tr1 tr2 tr3 w i v nm m. tr = tr1 @ tr2 @ tr3 \<and> runs (PciInit cfg) tr1 (Done w) \<and>
     i < length (heap w) \<and>
     (\<forall>j < length (heap w). Vendor (dev w j) = 0x1a03 \<and> Device (dev w j) = 0x2000 \<longleftrightarrow> j = i) \<and>
     runs (PciRead32 (dev w i) 0x14) tr2 (Done v) \<and>
     bar s' = Some (MemRegion nm m) \<and> hwAddr m = uint (v AND NOT 0x1f) \<and> mapLen m = 0x20000 \<and>
     mapWrite m \<and> pmem_inv (pm s')"
proof -
  from find_bar1_None [OF assms(3,2)] obtain tr1 tr2 tr3 w i v r st where
    *: "tr = tr1 @ tr2 @ tr3" "runs (PciInit cfg) tr1 (Done w)" "FindById w 0x1a03 0x2000 = [i]"
      "runs (PciRead32 (dev w i) 0x14) tr2 (Done v)"
      "runs (Map cfg ''ASTVGA-BAR1'' (uint (v AND NOT 0x1f)) True 0x20000 (pm s)) tr3 (Done (r, st))"
      "s' = s\<lparr>pm := st, bar := Some r\<rparr>" by blast
  have all: "set (Devs w) = {..<length (heap w)}"
    using PciInit_world_ok [OF *(2)] by (simp add: world_ok_def)
  have "j \<in> set (FindById w 0x1a03 0x2000) \<longleftrightarrow> j = i" for j by (simp add: *(3))
  then have ids: "j < length (heap w) \<and> Vendor (dev w j) = 0x1a03 \<and> Device (dev w j) = 0x2000 \<longleftrightarrow> j = i" for j
    unfolding FindById_def by (auto simp: all)
  have len: "round_len 0x20000 = 0x20000" by (simp add: round_len_def page_round_def i64_def)
  obtain nm where "r = MemRegion nm (map_key (uint (v AND NOT 0x1f)) True 0x20000)"
    using Map_result [OF assms(1) *(5)] by blast
  moreover have "pmem_inv st" using Map_inv [OF assms(1) *(5)] .
  moreover have "i < length (heap w)" "\<forall>j < length (heap w). Vendor (dev w j) = 0x1a03 \<and> Device (dev w j) = 0x2000 \<longleftrightarrow> j = i"
    using ids by blast+
  ultimately show ?thesis
    using * len by (intro exI [of _ tr1] exI [of _ tr2] exI [of _ tr3] exI [of _ w] exI [of _ i] exI [of _ v])
      (simp add: map_key_def)
qed

section \<open>Witnesses\<close>

text \<open>The machine of theory Pci, with an AST2500 behind its bridge.\<close>

definition bmc_host :: "unit handler" where
  "bmc_host q s = (case q of
       Rd32 r off \<Rightarrow> (Inr (RU32 (if off = SCU_REVID then 0x04030303 else 0)), s)
     | _ \<Rightarrow> two_devs q s)"

definition no_maps :: maps where
  "no_maps = \<lparr>pm = pmem_init, bar = None\<rparr>"

lemma New_runs:
  "\<exists>tr a s'. runs (New plain_config no_maps) tr (Done (a, s')) \<and> Family a = 25"
proof -
  have "case fst (exec bmc_host (New plain_config no_maps) ()) of Done (a, s) \<Rightarrow> Family a = 25 | Failed e \<Rightarrow> False"
    by code_simp
  then obtain a s' u where "exec bmc_host (New plain_config no_maps) () = (Done (a, s'), u)" "Family a = 25"
    by (cases "exec bmc_host (New plain_config no_maps) ()") (auto split: outcome.splits)
  from exec_done_runs [OF this(1)] this(2) show ?thesis by blast
qed

theorem New_host_witness:
  "\<exists>tr a s' tr1 id0 id1. runs (New plain_config no_maps) tr (Done (a, s')) \<and> a = host_handle 25 \<and> bar s' \<noteq> None \<and>
     tr = tr1 @ (Rd32 (AstMem '''' 0x1E6E2000 4096) 0x4, RU32 id0)
       # (if drop_bit 24 id0 = 5 then [] else [(Rd32 (AstMem '''' 0x1E6E2000 4096) 0x7c, RU32 id1)]) \<and>
     (if drop_bit 24 id0 = 5 then id0 else id1) AND NOT 0x0f0000 = 0x04000303"
proof -
  obtain tr a s' where r: "runs (New plain_config no_maps) tr (Done (a, s'))" "Family a = 25"
    using New_runs by blast
  have "archName plain_config \<noteq> ''armv6l''" by simp
  from New_host [OF this r(1)] r show ?thesis by fastforce
qed

lemma find_bar1_runs: "\<exists>tr s'. runs (find_bar1 plain_config no_maps) tr (Done s')"
proof -
  have "case fst (exec two_devs (find_bar1 plain_config no_maps) ()) of Done s \<Rightarrow> True | Failed e \<Rightarrow> False"
    by code_simp
  then obtain s' u where "exec two_devs (find_bar1 plain_config no_maps) () = (Done s', u)"
    by (cases "exec two_devs (find_bar1 plain_config no_maps) ()") (auto split: outcome.splits)
  from exec_done_runs [OF this] show ?thesis by blast
qed

theorem find_bar1_window_witness:
  "\<exists>tr s' nm m. runs (find_bar1 plain_config no_maps) tr (Done s') \<and>
     bar s' = Some (MemRegion nm m) \<and> mapLen m = 0x20000 \<and> mapWrite m"
proof -
  obtain tr s' where r: "runs (find_bar1 plain_config no_maps) tr (Done s')"
    using find_bar1_runs by blast
  have "pmem_inv (pm no_maps)" "bar no_maps = None"
    by (simp_all add: no_maps_def pmem_inv_init)
  from find_bar1_window [OF this r] r show ?thesis by blast
qed

end
