(* ===== verification/Monitor.thy ===== *)
theory Monitor
  imports GoIO
begin

text \<open>
  Watching registers (pmem/monitor.go): \<open>MonLoopFun\<close> polls a list of registers for ever, records
  every change outside a register's mask, and hands the changes over in batches.

  A monitor is its index in the list. The callbacks get and return a state of type \<open>'x\<close> (the
  contexts that \<open>Aux\<close> points to); a nil \<open>cfn\<close> is \<open>no_cfn\<close>. The loop of the code never ends:
  \<open>mon_iters\<close> is its first \<open>n\<close> turns, and \<open>MonLoopFun\<close> is out of fuel after them.
\<close>

section \<open>Monitors and changes\<close>

record Monitor =
  M :: region
  Off :: int
  Mask :: u32
  OldVal :: u32
  OldValid :: bool

record GpioChange =
  Time :: u32
  Bank :: string
  Addr :: int
  Old :: u32
  New :: u32
  Delay :: u32
  cMask :: u32
  Aux :: "u32 \<times> u32 \<times> u32"
  Mon :: nat

text \<open>\<open>Name()\<close> of the three types of region.\<close>

fun region_name :: "region \<Rightarrow> string" where
  "region_name (MemRegion n _) = n"
| "region_name (FileRegion n _ _) = n"
| "region_name (AstMem n _ _) = n"

text \<open>\<open>%v\<close> prints the fields of a change; its pointer to the monitor is left out.\<close>

definition GpioRes :: "GpioChange list \<Rightarrow> unit io" where
  "GpioRes c = forM c (\<lambda>v. print ''%6d %v %#08x oe=%#x''
     [AW (Delay v), AW (Time v), AS (Bank v), AI (Addr v), AW (Old v), AW (New v), AW (Delay v),
      AW (cMask v), AW (Old v XOR New v), AW (NOT (cMask v))])"

section \<open>The loop\<close>

text \<open>Pending changes, the time of the last one, and the callbacks' state.\<close>

record 'x mon_state =
  change :: "GpioChange list"
  lastChangeTime :: u32
  ext :: 'x

type_synonym 'x change_fn = "GpioChange \<Rightarrow> 'x \<Rightarrow> (GpioChange \<times> 'x) io"
type_synonym 'x batch_fn = "GpioChange list \<Rightarrow> 'x \<Rightarrow> 'x io"

definition no_cfn :: "'x change_fn" where
  "no_cfn c x = Ret (c, x)"

definition differs :: "Monitor \<Rightarrow> u32 \<Rightarrow> bool" where
  "differs m val \<longleftrightarrow> OldValid m \<and> val AND NOT (Mask m) \<noteq> OldVal m AND NOT (Mask m)"

definition seen :: "u32 \<Rightarrow> Monitor \<Rightarrow> Monitor" where
  "seen val m = m\<lparr>OldValid := True, OldVal := val\<rparr>"

definition the_change :: "u32 \<Rightarrow> u32 \<Rightarrow> nat \<Rightarrow> Monitor \<Rightarrow> u32 \<Rightarrow> GpioChange" where
  "the_change t prev i m val =
     \<lparr>Time = t, Bank = region_name (M m), Addr = Off m, Old = OldVal m, New = val,
      Delay = t - prev, cMask = Mask m, Aux = (0, 0, 0), Mon = i\<rparr>"

fun mon_pass :: "'x change_fn \<Rightarrow> u32 \<Rightarrow> nat \<Rightarrow> Monitor list \<Rightarrow> 'x mon_state
    \<Rightarrow> (Monitor list \<times> 'x mon_state) io" where
  "mon_pass cfn t i [] st = Ret ([], st)"
| "mon_pass cfn t i (m # ms) st =
     bind (read32 (M m) (Off m)) (\<lambda>val.
       bind (if differs m val
             then bind (cfn (the_change t (lastChangeTime st) i m val) (ext st)) (\<lambda>(c, x).
               Ret \<lparr>change = change st @ [c], lastChangeTime = t, ext = x\<rparr>)
             else Ret st) (\<lambda>st.
         bind (mon_pass cfn t (Suc i) ms st) (\<lambda>(ms, st). Ret (seen val m # ms, st))))"

text \<open>\<open>uint32(int64(time.Since(start)) >> 10)\<close>: units of 1024 nanoseconds, modulo $2^{32}$.\<close>

definition ticks :: "int \<Rightarrow> int \<Rightarrow> u32" where
  "ticks start t = word_of_int ((t - start) div 1024)"

definition flush_due :: "u32 \<Rightarrow> GpioChange list \<Rightarrow> bool" where
  "flush_due t c \<longleftrightarrow> 200 \<le> length c \<or> (c \<noteq> [] \<and> 5000000 \<le> t - Time (c ! 0))"

definition mon_iter :: "'x batch_fn \<Rightarrow> 'x change_fn \<Rightarrow> int \<Rightarrow> Monitor list \<times> 'x mon_state
    \<Rightarrow> (Monitor list \<times> 'x mon_state) io" where
  "mon_iter batchfn cfn start s =
     bind now (\<lambda>ns.
       let t = ticks start ns
       in bind (mon_pass cfn t 0 (fst s) (snd s)) (\<lambda>(ms, st).
            if flush_due t (change st)
            then bind (batchfn (change st) (ext st)) (\<lambda>x. Ret (ms, st\<lparr>change := [], ext := x\<rparr>))
            else Ret (ms, st)))"

fun mon_iters :: "nat \<Rightarrow> 'x batch_fn \<Rightarrow> 'x change_fn \<Rightarrow> int \<Rightarrow> Monitor list \<times> 'x mon_state
    \<Rightarrow> (Monitor list \<times> 'x mon_state) io" where
  "mon_iters 0 batchfn cfn start s = Ret s"
| "mon_iters (Suc n) batchfn cfn start s =
     bind (mon_iter batchfn cfn start s) (mon_iters n batchfn cfn start)"

definition MonLoopFun :: "config \<Rightarrow> Monitor list \<Rightarrow> 'x batch_fn \<Rightarrow> 'x change_fn \<Rightarrow> 'x \<Rightarrow> unit io" where
  "MonLoopFun cfg mons batchfn cfn x =
     bind now (\<lambda>start.
       bind (mon_iters (fuel cfg) batchfn cfn start (mons, \<lparr>change = [], lastChangeTime = 0, ext = x\<rparr>))
         (\<lambda>_. Fail OutOfFuel))"

definition MonLoop :: "config \<Rightarrow> Monitor list \<Rightarrow> unit io" where
  "MonLoop cfg mons = MonLoopFun cfg mons (\<lambda>c x. seq (GpioRes c) (Ret x)) no_cfn ()"

section \<open>Every change is delivered once\<close>

text \<open>
  What must be reported, from the values read alone: the value of monitor \<open>i\<close> read in pass \<open>k\<close> is
  compared with the one read in the pass before (for the first pass, with the value the monitor
  came with, if it had one), and it has changed when some bit outside the mask has.
\<close>

definition changed :: "u32 \<Rightarrow> u32 \<Rightarrow> u32 \<Rightarrow> bool" where
  "changed msk old new \<longleftrightarrow> (\<exists>b < 32. \<not> bit msk b \<and> bit old b \<noteq> bit new b)"

definition earlier :: "Monitor list \<Rightarrow> u32 list list \<Rightarrow> nat \<Rightarrow> nat \<Rightarrow> u32 option" where
  "earlier ms vss k i =
     (if k = 0 then (if OldValid (ms ! i) then Some (OldVal (ms ! i)) else None) else Some (vss ! (k - 1) ! i))"

text \<open>The change, but for its delay.\<close>

definition found :: "int \<Rightarrow> nat \<Rightarrow> Monitor \<Rightarrow> u32 option \<Rightarrow> u32 \<Rightarrow> GpioChange list" where
  "found t i m old new = (case old of
       None \<Rightarrow> []
     | Some v \<Rightarrow> if changed (Mask m) v new
         then [\<lparr>Time = word_of_int (t div 1024), Bank = region_name (M m), Addr = Off m, Old = v, New = new,
            Delay = 0, cMask = Mask m, Aux = (0, 0, 0), Mon = i\<rparr>]
         else [])"

definition expected_pass :: "int \<Rightarrow> Monitor list \<Rightarrow> (nat \<Rightarrow> u32 option) \<Rightarrow> u32 list \<Rightarrow> GpioChange list" where
  "expected_pass t ms old vs = concat (map (\<lambda>i. found t i (ms ! i) (old i) (vs ! i)) [0..<length ms])"

definition expected :: "int \<Rightarrow> Monitor list \<Rightarrow> int list \<Rightarrow> u32 list list \<Rightarrow> GpioChange list" where
  "expected start ms ns vss =
     concat (map (\<lambda>k. expected_pass (ns ! k - start) ms (earlier ms vss k) (vss ! k)) [0..<length vss])"

definition undelayed :: "GpioChange \<Rightarrow> GpioChange" where
  "undelayed c = c\<lparr>Delay := 0\<rparr>"

text \<open>The delay of a change is the time since the one before, whose time is \<open>p\<close> for the first.\<close>

fun spaced :: "u32 \<Rightarrow> GpioChange list \<Rightarrow> bool" where
  "spaced p [] = True"
| "spaced p (c # cs) = (Delay c = Time c - p \<and> spaced (Time c) cs)"

text \<open>What a pass does: it reads every register once, in order.\<close>

definition pass_events :: "Monitor list \<Rightarrow> int \<Rightarrow> u32 list \<Rightarrow> event list" where
  "pass_events ms t vs = (Now, RInt t) # map2 (\<lambda>m v. (Rd32 (M m) (Off m), RU32 v)) ms vs"

text \<open>The batch function keeps what it is handed.\<close>

definition collect :: "GpioChange list list batch_fn" where
  "collect c x = Ret (x @ [c])"

lemma differs_changed: "differs m v \<longleftrightarrow> OldValid m \<and> changed (Mask m) (OldVal m) v"
  by (auto simp: differs_def changed_def bit_eq_iff bit_simps)

definition last_time :: "u32 \<Rightarrow> GpioChange list \<Rightarrow> u32" where
  "last_time p cs = (if cs = [] then p else Time (last cs))"

lemma last_time_simps [simp]: "last_time p [] = p" "last_time p (c # cs) = last_time (Time c) cs"
  by (simp_all add: last_time_def)

lemma last_time_append [simp]: "last_time p (cs @ ds) = last_time (last_time p cs) ds"
  by (induction cs arbitrary: p) simp_all

lemma spaced_append: "spaced p (cs @ ds) \<longleftrightarrow> spaced p cs \<and> spaced (last_time p cs) ds"
  by (induction cs arbitrary: p) auto

lemma mon_pass_run:
  assumes "runs (mon_pass no_cfn (ticks start t) i ms st) tr (Done (ms', st'))"
  shows "\<exists>vs cs. length vs = length ms \<and> tr = map2 (\<lambda>m v. (Rd32 (M m) (Off m), RU32 v)) ms vs \<and>
    ms' = map2 seen vs ms \<and> ext st' = ext st \<and> change st' = change st @ cs \<and>
    spaced (lastChangeTime st) cs \<and> lastChangeTime st' = last_time (lastChangeTime st) cs \<and>
    map undelayed cs = concat (map (\<lambda>j. found (t - start) (i + j) (ms ! j) (earlier ms [] 0 j) (vs ! j)) [0..<length ms])"
  using assms
proof (induction ms arbitrary: i st tr ms')
  case (Cons m ms)
  let ?c = "\<lambda>v. the_change (ticks start t) (lastChangeTime st) i m v"
  let ?st = "\<lambda>v. if differs m v
      then \<lparr>change = change st @ [?c v], lastChangeTime = ticks start t, ext = ext st\<rparr> else st"
  have pass: "mon_pass no_cfn (ticks start t) i (m # ms) st = bind (read32 (M m) (Off m)) (\<lambda>v.
      bind (mon_pass no_cfn (ticks start t) (Suc i) ms (?st v)) (\<lambda>(ms, st). Ret (seen v m # ms, st)))"
    by (auto simp: no_cfn_def intro!: arg_cong2 [where f = bind])
  from Cons.prems obtain v tr' ms1 where t: "tr = (Rd32 (M m) (Off m), RU32 v) # tr'" "ms' = seen v m # ms1"
    and r: "runs (mon_pass no_cfn (ticks start t) (Suc i) ms (?st v)) tr' (Done (ms1, st'))"
    unfolding pass by (auto elim!: runs_bindE split: prod.splits)
  from Cons.IH [OF r] obtain vs cs where v: "length vs = length ms" 
      "tr' = map2 (\<lambda>m v. (Rd32 (M m) (Off m), RU32 v)) ms vs" "ms1 = map2 seen vs ms" "ext st' = ext (?st v)"
      "change st' = change (?st v) @ cs" "spaced (lastChangeTime (?st v)) cs"
      "lastChangeTime st' = last_time (lastChangeTime (?st v)) cs"
      "map undelayed cs = concat (map (\<lambda>j. found (t - start) (Suc i + j) (ms ! j) (earlier ms [] 0 j) (vs ! j)) [0..<length ms])"
    by blast
  have e: "earlier (m # ms) [] 0 (Suc j) = earlier ms [] 0 j" for j by (simp add: earlier_def)
  let ?new = "if differs m v then [?c v] else []"
  have new: "map undelayed ?new = found (t - start) i m (earlier (m # ms) [] 0 0) v"
    by (simp add: differs_changed found_def earlier_def undelayed_def the_change_def ticks_def)
  have "map undelayed (?new @ cs) =
      concat (map (\<lambda>j. found (t - start) (i + j) ((m # ms) ! j) (earlier (m # ms) [] 0 j) ((v # vs) ! j)) [0..<length (m # ms)])"
    unfolding map_append new v(8) by (simp add: upt_conv_Cons map_Suc_upt [symmetric] e comp_def del: upt_Suc)
  moreover have "change st' = change st @ ?new @ cs" "spaced (lastChangeTime st) (?new @ cs)"
    "lastChangeTime st' = last_time (lastChangeTime st) (?new @ cs)" "ext st' = ext st"
    using v by (auto simp: the_change_def)
  ultimately show ?case
    using v(1-3) t by (intro exI [of _ "v # vs"] exI [of _ "?new @ cs"]) simp
qed simp

lemma mon_iter_run:
  assumes "runs (mon_iter collect no_cfn start (ms, st)) tr (Done (ms', st'))"
  shows "\<exists>t vs cs bs. length vs = length ms \<and> tr = pass_events ms t vs \<and> ms' = map2 seen vs ms \<and>
    spaced (lastChangeTime st) cs \<and> lastChangeTime st' = last_time (lastChangeTime st) cs \<and>
    map undelayed cs = expected_pass (t - start) ms (earlier ms [] 0) vs \<and>
    ext st' = ext st @ bs \<and> concat bs @ change st' = change st @ cs \<and>
    (\<forall>b \<in> set bs. b \<noteq> [] \<and> (200 \<le> length b \<or> 5000000 \<le> word_of_int ((t - start) div 1024) - Time (b ! 0))) \<and>
    length (change st') < 200 \<and>
    (change st' \<noteq> [] \<longrightarrow> word_of_int ((t - start) div 1024) - Time (change st' ! 0) < 5000000)"
proof -
  from assms obtain t tr' st1 where t: "tr = (Now, RInt t) # tr'"
    and p: "runs (mon_pass no_cfn (ticks start t) 0 ms st) tr' (Done (ms', st1))"
    and s: "st' = (if flush_due (ticks start t) (change st1)
      then st1\<lparr>change := [], ext := ext st1 @ [change st1]\<rparr> else st1)"
    unfolding mon_iter_def Let_def by (auto simp: runs_bind collect_def split: if_splits)
  from mon_pass_run [OF p] obtain vs cs where v: "length vs = length ms"
      "tr' = map2 (\<lambda>m v. (Rd32 (M m) (Off m), RU32 v)) ms vs" "ms' = map2 seen vs ms" "ext st1 = ext st"
      "change st1 = change st @ cs" "spaced (lastChangeTime st) cs"
      "lastChangeTime st1 = last_time (lastChangeTime st) cs"
      "map undelayed cs = expected_pass (t - start) ms (earlier ms [] 0) vs"
    unfolding expected_pass_def by auto
  let ?bs = "if flush_due (ticks start t) (change st1) then [change st1] else []"
  have "\<forall>b \<in> set ?bs. b \<noteq> [] \<and> (200 \<le> length b \<or> 5000000 \<le> word_of_int ((t - start) div 1024) - Time (b ! 0))"
    by (auto simp: flush_due_def ticks_def split: if_splits)
  moreover have "length (change st') < 200"
      "change st' \<noteq> [] \<longrightarrow> word_of_int ((t - start) div 1024) - Time (change st' ! 0) < 5000000"
    using s by (auto simp: flush_due_def ticks_def not_le)
  moreover have "ext st' = ext st @ ?bs" "concat ?bs @ change st' = change st @ cs"
      "lastChangeTime st' = last_time (lastChangeTime st) cs"
    using s v(4,5,7) by auto
  ultimately show ?thesis
    using t v unfolding pass_events_def
    by (intro exI [of _ t] exI [of _ vs] exI [of _ cs] exI [of _ ?bs] conjI) (assumption | simp only:)+
qed

text \<open>The passes after the first see the monitors with the values of the first.\<close>

lemma seen_fields [simp]: "M (seen v m) = M m" "Off (seen v m) = Off m" "Mask (seen v m) = Mask m"
  by (simp_all add: seen_def)

lemma pass_events_seen: "length vs = length ms \<Longrightarrow> pass_events (map2 seen vs ms) t us = pass_events ms t us"
proof -
  have "length vs = length ms \<Longrightarrow> map2 (\<lambda>m v. (Rd32 (M m) (Off m), RU32 v)) (map2 seen vs ms) us =
      map2 (\<lambda>m v. (Rd32 (M m) (Off m), RU32 v)) ms us"
  proof (induction vs ms arbitrary: us rule: list_induct2)
    case (Cons v vs m ms)
    then show ?case by (cases us) simp_all
  qed simp
  then show "length vs = length ms \<Longrightarrow> pass_events (map2 seen vs ms) t us = pass_events ms t us"
    by (simp add: pass_events_def)
qed

lemma expected_pass_seen:
  assumes "length vs = length ms"
  shows "expected_pass t (map2 seen vs ms) (earlier (map2 seen vs ms) vss k) us =
    expected_pass t ms (earlier ms (vs # vss) (Suc k)) us"
  unfolding expected_pass_def
  by (rule arg_cong [where f = concat], rule map_cong)
    (use assms in \<open>auto simp: found_def earlier_def nth_Cons' seen_def split: option.split\<close>)

lemma expected_Cons:
  assumes "length vs = length ms"
  shows "expected start ms (t # ns) (vs # vss) =
    expected_pass (t - start) ms (earlier ms [] 0) vs @ expected start (map2 seen vs ms) ns vss"
proof -
  have "earlier ms (vs # vss) 0 = earlier ms [] 0" by (simp add: earlier_def fun_eq_iff)
  then show ?thesis
    by (simp add: expected_def upt_conv_Cons map_Suc_upt [symmetric] comp_def expected_pass_seen [OF assms]
        del: upt_Suc)
qed

lemma mon_iters_run:
  assumes "runs (mon_iters n collect no_cfn start (ms, st)) tr (Done (ms', st'))"
  shows "\<exists>ns vss cs bs. length ns = n \<and> length vss = n \<and> (\<forall>vs \<in> set vss. length vs = length ms) \<and>
    tr = concat (map2 (pass_events ms) ns vss) \<and>
    spaced (lastChangeTime st) cs \<and> map undelayed cs = expected start ms ns vss \<and>
    ext st' = ext st @ bs \<and> concat bs @ change st' = change st @ cs \<and>
    (\<forall>b \<in> set bs. b \<noteq> [] \<and>
       (200 \<le> length b \<or> (\<exists>t \<in> set ns. 5000000 \<le> word_of_int ((t - start) div 1024) - Time (b ! 0)))) \<and>
    (0 < n \<longrightarrow> length (change st') < 200 \<and>
       (change st' \<noteq> [] \<longrightarrow> word_of_int ((last ns - start) div 1024) - Time (change st' ! 0) < 5000000))"
  using assms
proof (induction n arbitrary: ms st tr)
  case 0
  then show ?case by (intro exI [of _ "[]"]) (simp add: expected_def)
next
  case (Suc n)
  from Suc.prems obtain tr1 tr2 ms1 st1 where
    tr: "tr = tr1 @ tr2" "runs (mon_iter collect no_cfn start (ms, st)) tr1 (Done (ms1, st1))"
      "runs (mon_iters n collect no_cfn start (ms1, st1)) tr2 (Done (ms', st'))"
    by (auto elim!: runs_bindE)
  from mon_iter_run [OF tr(2)] obtain t vs cs1 bs1 where a: "length vs = length ms" "tr1 = pass_events ms t vs"
      "ms1 = map2 seen vs ms" "spaced (lastChangeTime st) cs1"
      "lastChangeTime st1 = last_time (lastChangeTime st) cs1"
      "map undelayed cs1 = expected_pass (t - start) ms (earlier ms [] 0) vs"
      "ext st1 = ext st @ bs1" "concat bs1 @ change st1 = change st @ cs1"
    and b1: "\<forall>b \<in> set bs1. b \<noteq> [] \<and> (200 \<le> length b \<or> 5000000 \<le> word_of_int ((t - start) div 1024) - Time (b ! 0))"
      "length (change st1) < 200 \<and>
        (change st1 \<noteq> [] \<longrightarrow> word_of_int ((t - start) div 1024) - Time (change st1 ! 0) < 5000000)"
    by blast
  from Suc.IH [OF tr(3)] obtain ns vss cs bs where IH: "length ns = n" "length vss = n"
      "\<forall>vs \<in> set vss. length vs = length ms1" "tr2 = concat (map2 (pass_events ms1) ns vss)"
      "spaced (lastChangeTime st1) cs" "map undelayed cs = expected start ms1 ns vss"
      "ext st' = ext st1 @ bs" "concat bs @ change st' = change st1 @ cs"
    and IHb: "\<forall>b \<in> set bs. b \<noteq> [] \<and>
       (200 \<le> length b \<or> (\<exists>t \<in> set ns. 5000000 \<le> word_of_int ((t - start) div 1024) - Time (b ! 0)))"
      "0 < n \<longrightarrow> length (change st') < 200 \<and>
       (change st' \<noteq> [] \<longrightarrow> word_of_int ((last ns - start) div 1024) - Time (change st' ! 0) < 5000000)"
    by blast
  have len: "length ms1 = length ms" using a by simp
  have "tr = concat (map2 (pass_events ms) (t # ns) (vs # vss))"
    using tr(1) a(2) IH(4) pass_events_seen [OF a(1)] by (simp add: a(3) case_prod_unfold)
  moreover have "spaced (lastChangeTime st) (cs1 @ cs)" using a(4,5) IH(5) by (simp add: spaced_append)
  moreover have "map undelayed (cs1 @ cs) = expected start ms (t # ns) (vs # vss)"
    using a(3,6) IH(6) by (simp add: expected_Cons [OF a(1)])
  moreover have "ext st' = ext st @ bs1 @ bs" "concat (bs1 @ bs) @ change st' = change st @ cs1 @ cs"
    using a(7,8) IH(7,8) by simp_all
  moreover have "\<forall>b \<in> set (bs1 @ bs). b \<noteq> [] \<and> (200 \<le> length b \<or>
      (\<exists>u \<in> set (t # ns). 5000000 \<le> word_of_int ((u - start) div 1024) - Time (b ! 0)))"
    using b1(1) IHb(1) by auto
  moreover have "0 < Suc n \<longrightarrow> length (change st') < 200 \<and>
      (change st' \<noteq> [] \<longrightarrow> word_of_int ((last (t # ns) - start) div 1024) - Time (change st' ! 0) < 5000000)"
  proof (cases n)
    case 0
    then show ?thesis using tr(3) IH(1) b1(2) by simp
  next
    case (Suc k)
    then show ?thesis using IHb(2) IH(1) by (cases ns) simp_all
  qed
  moreover have "length (t # ns) = Suc n" "length (vs # vss) = Suc n"
      "\<forall>us \<in> set (vs # vss). length us = length ms"
    using IH(1-3) a(1,3) by simp_all
  ultimately show ?case
    by (intro exI [of _ "t # ns"] exI [of _ "vs # vss"] exI [of _ "cs1 @ cs"] exI [of _ "bs1 @ bs"] conjI)
qed

text \<open>
  Property C11. The polling loop loses, repeats and reorders nothing and delivers in time. Any
  number of its turns reads the clock and then every register once in order, turn by turn. The
  changes handed over in batches, followed by those still pending, are exactly those of the values
  read: one for each register and turn whose value differs, in a bit outside its mask, from the
  one of the turn before (for the first turn, from the value the monitor came with; without
  one there is no change), with the time of the turn in units of 1024 ns and the delay since the
  change before. A batch is never empty and is handed over when it has 200 changes or its
  oldest is 5000000 units old; after every turn fewer are pending, and none that old.
\<close>

theorem MonLoop_complete:
  assumes "runs (mon_iters n collect no_cfn start (ms, \<lparr>change = [], lastChangeTime = 0, ext = []\<rparr>)) tr
    (Done (ms', st'))"
  shows "\<exists>ns vss. length ns = n \<and> length vss = n \<and> (\<forall>vs \<in> set vss. length vs = length ms) \<and>
    tr = concat (map2 (pass_events ms) ns vss) \<and>
    spaced 0 (concat (ext st') @ change st') \<and>
    map undelayed (concat (ext st') @ change st') = expected start ms ns vss \<and>
    (\<forall>b \<in> set (ext st'). b \<noteq> [] \<and>
       (200 \<le> length b \<or> (\<exists>t \<in> set ns. 5000000 \<le> word_of_int ((t - start) div 1024) - Time (b ! 0)))) \<and>
    (0 < n \<longrightarrow> length (change st') < 200 \<and>
       (change st' \<noteq> [] \<longrightarrow> word_of_int ((last ns - start) div 1024) - Time (change st' ! 0) < 5000000))"
  using mon_iters_run [OF assms] by simp

text \<open>A register that counts the reads.\<close>

definition counting :: "nat handler" where
  "counting q n = (case q of Rd32 _ _ \<Rightarrow> (Inr (RU32 (of_nat n)), Suc n) | _ \<Rightarrow> (Inr (quiet q), n))"

definition sample_mon :: Monitor where
  "sample_mon = \<lparr>M = AstMem [] 0 64, Off = 4, Mask = 1, OldVal = 0, OldValid = False\<rparr>"

theorem MonLoop_complete_witness:
  "\<exists>tr ns vss ms' st'. length vss = 4 \<and> tr = concat (map2 (pass_events [sample_mon]) ns vss) \<and>
     map undelayed (concat (ext st') @ change st') = expected 0 [sample_mon] ns vss \<and>
     map (\<lambda>c. (Mon c, Old c, New c)) (change st') = [(0, 1, 2)] \<and>
     runs (mon_iters 4 collect no_cfn 0 ([sample_mon], \<lparr>change = [], lastChangeTime = 0, ext = []\<rparr>)) tr (Done (ms', st'))"
proof -
  let ?p = "mon_iters 4 collect no_cfn 0 ([sample_mon], \<lparr>change = [], lastChangeTime = 0, ext = []\<rparr>)"
  have "case fst (exec counting ?p 0) of Done (ms, st) \<Rightarrow> map (\<lambda>c. (Mon c, Old c, New c)) (change st) = [(0, 1, 2)]
    | Failed e \<Rightarrow> False"
    by code_simp
  then obtain ms st u where e: "exec counting ?p 0 = (Done (ms, st), u)"
      "map (\<lambda>c. (Mon c, Old c, New c)) (change st) = [(0, 1, 2)]"
    by (cases "exec counting ?p 0") (auto split: outcome.splits)
  from exec_done_runs [OF e(1)] obtain tr where r: "runs ?p tr (Done (ms, st))" ..
  from MonLoop_complete [OF r] obtain ns vss where "length vss = 4" "tr = concat (map2 (pass_events [sample_mon]) ns vss)"
      "map undelayed (concat (ext st) @ change st) = expected 0 [sample_mon] ns vss"
    by blast
  with r e(2) show ?thesis by (intro exI conjI)
qed

end
