(* ===== verification/CmdAst.thy ===== *)
theory CmdAst
  imports Bmc Monitor
begin

text \<open>
  The command \<open>ast\<close> (cmds/ast/ast.go): the environment block of a flash image, writing an image
  to the flash and verifying it, decoding the traffic of the I2C controllers, \<open>main\<close>.

  The first part shows what \<open>spiMakeEnv\<close> stores can be read back, and that an image written
  sector by sector is in the flash; the second what the decoder prints of a byte received by DMA.
\<close>

section \<open>The environment of an image\<close>

text \<open>\<open>crc32.ChecksumIEEE\<close>: the reflected polynomial, bit by bit.\<close>

definition crc_bit :: "u32 \<Rightarrow> u32" where
  "crc_bit c = (if c AND 1 \<noteq> 0 then drop_bit 1 c XOR 0xEDB88320 else drop_bit 1 c)"

definition crc_byte :: "u32 \<Rightarrow> u8 \<Rightarrow> u32" where
  "crc_byte c b = (crc_bit ^^ 8) (c XOR ucast b)"

definition crc32 :: "u8 list \<Rightarrow> u32" where
  "crc32 bs = NOT (foldl crc_byte 0xFFFFFFFF bs)"

text \<open>An assignment to an element of a slice.\<close>

definition set_at :: "u8 list \<Rightarrow> nat \<Rightarrow> u8 \<Rightarrow> failure + u8 list" where
  "set_at s i c = (if i < length s then Inr (s[i := c]) else Inl (Panic ''index out of range''))"

text \<open>The loop over the bytes of a variable, and the loop over the variables.\<close>

fun env_bytes :: "u8 list \<Rightarrow> nat \<Rightarrow> u8 list \<Rightarrow> failure + (u8 list \<times> nat)" where
  "env_bytes s pos [] = Inr (s, pos)"
| "env_bytes s pos (c # cs) =
     (case set_at s pos c of Inl e \<Rightarrow> Inl e | Inr s \<Rightarrow> env_bytes s (Suc pos) cs)"

fun env_vars :: "u8 list \<Rightarrow> nat \<Rightarrow> string list \<Rightarrow> failure + (u8 list \<times> nat)" where
  "env_vars s pos [] = Inr (s, pos)"
| "env_vars s pos (v # vs) =
     (case env_bytes s pos (bytes_of v) of
        Inl e \<Rightarrow> Inl e
      | Inr (s, pos) \<Rightarrow> (case set_at s pos 0 of Inl e \<Rightarrow> Inl e | Inr s \<Rightarrow> env_vars s (Suc pos) vs))"

text \<open>Where the 64 KiB block is in an image of \<open>n\<close> bytes.\<close>

definition env_start :: "nat \<Rightarrow> nat option" where
  "env_start n = (if n = 0x2000000 then Some 0x1fc0000 else if n = 0x10000 then Some 0 else None)"

definition fill_env :: "u8 list \<Rightarrow> string \<Rightarrow> failure + u8 list" where
  "fill_env sector env =
     (if list_ex (\<lambda>c. c \<noteq> 0xff) sector then Inl (Fatal ''Env sector not originally cleared'' [])
      else case set_at sector 4 1 of
          Inl e \<Rightarrow> Inl e
        | Inr s \<Rightarrow>
           (case env_vars s 5 (Split newline env) of
              Inl e \<Rightarrow> Inl e
            | Inr (s, pos) \<Rightarrow>
               (case set_at s pos 0 of
                  Inl e \<Rightarrow> Inl e
                | Inr s \<Rightarrow> Inr (put32 (crc32 (drop 5 s)) @ drop 4 s))))"

text \<open>The sector is a slice of the image, so the image is what changes.\<close>

definition spiMakeEnv :: "u8 list \<Rightarrow> string \<Rightarrow> failure + u8 list" where
  "spiMakeEnv b env =
     (case env_start (length b) of
        None \<Rightarrow> Inl (Fatal ''Where to put env in image len 0x%x?!!'' [AI (int (length b))])
      | Some a \<Rightarrow>
         (case fill_env (take 0x10000 (drop a b)) env of
            Inl e \<Rightarrow> Inl e
          | Inr s \<Rightarrow> Inr (take a b @ s @ drop (a + 0x10000) b)))"

section \<open>Writing an image\<close>

text \<open>
  The loop over the erase blocks, from offset \<open>x\<close> of the image. An erase size that is not
  positive would keep it from advancing; the database of chips has none.
\<close>

function write_sectors :: "config \<Rightarrow> Fmc \<Rightarrow> int \<Rightarrow> int \<Rightarrow> u8 list \<Rightarrow> int \<Rightarrow> unit io" where
  "write_sectors cfg f spiOff spiLen buf x =
     (if \<not> x < spiLen then Ret ()
      else if EraseSize (Chip f) \<le> 0 then Fail OutOfFuel
      else
        let sec = i64 (x + spiOff);
            n = (if spiLen - x < EraseSize (Chip f) then spiLen - x else EraseSize (Chip f));
            new = take (nat n) (drop (nat x) buf)
        in bind (SpiRead cfg f sec n) (\<lambda>oldData.
             seq (if oldData = new then print ''Skipping sector 0x%x: no change'' [AI sec]
                  else seq (print ''Erasing sector 0x%07x   (%2d%%)          '' [AI sec, AI (x * 100 div spiLen)])
                    (seq (EraseBlock cfg f sec)
                    (seq (print ''Writing sector 0x%07x   (%2d%%)          '' [AI sec, AI ((x * 100 + 50) div spiLen)])
                         (Write cfg f sec new))))
               (write_sectors cfg f spiOff spiLen buf (x + EraseSize (Chip f)))))"
  by auto
termination by (relation "measure (\<lambda>(cfg, f, spiOff, spiLen, buf, x). nat (spiLen - x))") auto

declare write_sectors.simps [simp del]

definition make_env :: "u8 list \<Rightarrow> string \<Rightarrow> u8 list io" where
  "make_env b env = (if env = [] then Ret b
     else case spiMakeEnv b env of Inl e \<Rightarrow> Fail e | Inr b \<Rightarrow> Ret b)"

definition doSpiWrite :: "config \<Rightarrow> string \<Rightarrow> int \<Rightarrow> int \<Rightarrow> string \<Rightarrow> maps \<Rightarrow> maps io" where
  "doSpiWrite cfg spiWrite spiOff spiLen spiEnv s =
     bind (read_file spiWrite) (\<lambda>r. case r of
       None \<Rightarrow> Fail (Fatal ''%v'' [])
     | Some buf \<Rightarrow>
        bind (make_env buf spiEnv) (\<lambda>buf.
          if 0 < spiLen \<and> int (length buf) < spiLen
          then Fail (Fatal ''%s too small for -spilen 0x%x'' [AS spiWrite, AI spiLen])
          else let spiLen = (if spiLen \<le> 0 then int (length buf) else spiLen)
           in bind (Bmc.New cfg s) (\<lambda>(a, s).
              bind (FmcNew cfg a s) (\<lambda>(f, s).
                if spiOff AND (EraseSize (Chip f) - 1) \<noteq> 0
                then Fail (Fatal ''Cannot write non-block aligned data to flash'' [])
                else seq (write_sectors cfg f spiOff spiLen buf 0)
                  (seq (print ''Verifying...'' [])
                  (bind (SpiRead cfg f spiOff spiLen) (\<lambda>reread.
                    if reread \<noteq> take (nat spiLen) buf
                    then Fail (Fatal ''Reread comparison failed!'' [])
                    else Ret s)))))))"

section \<open>What is stored in the environment can be read back\<close>

text \<open>A check of the algorithm: the CRC of the letter a.\<close>

lemma crc32_check: "crc32 [0x61] = 0xE8B7BE43"
  by code_simp

text \<open>
  The reader's view of the block: the variables up to the first empty one, each ended by a NUL.
\<close>

fun decode_env :: "u8 list \<Rightarrow> u8 list \<Rightarrow> u8 list list" where
  "decode_env cur [] = []"
| "decode_env cur (b # bs) =
     (if b = 0 then if cur = [] then [] else cur # decode_env [] bs else decode_env (cur @ [b]) bs)"

definition encode_env :: "string list \<Rightarrow> u8 list" where
  "encode_env vs = concat (map (\<lambda>v. bytes_of v @ [0]) vs)"

lemma env_bytes_eq:
  "pos + length cs \<le> length s \<Longrightarrow>
     env_bytes s pos cs = Inr (take pos s @ cs @ drop (pos + length cs) s, pos + length cs)"
proof (induction cs arbitrary: s pos)
  case (Cons c cs)
  then have "env_bytes (s[pos := c]) (Suc pos) cs
      = Inr (take (Suc pos) (s[pos := c]) @ cs @ drop (Suc pos + length cs) (s[pos := c]), Suc pos + length cs)"
    by simp
  moreover have "take (Suc pos) (s[pos := c]) = take pos s @ [c]"
    using Cons.prems by (simp add: take_Suc_conv_app_nth)
  ultimately show ?case using Cons.prems by (simp add: set_at_def)
qed simp

lemma env_vars_eq:
  "pos + length (encode_env vs) \<le> length s \<Longrightarrow>
     env_vars s pos vs = Inr (take pos s @ encode_env vs @ drop (pos + length (encode_env vs)) s,
       pos + length (encode_env vs))"
proof (induction vs arbitrary: s pos)
  case (Cons v vs)
  let ?b = "bytes_of v" and ?n = "pos + length v"
  let ?s = "take pos s @ ?b @ drop ?n s"
  have len: "?n + Suc (length (encode_env vs)) \<le> length s"
    using Cons.prems by (simp add: encode_env_def)
  then have s: "length ?s = length s" "?n < length s" by simp_all
  have set: "?s[?n := 0] = take pos s @ (?b @ [0]) @ drop (Suc ?n) s"
    using len by (simp add: list_update_append drop_Cons' flip: Cons_nth_drop_Suc)
  have "env_vars (?s[?n := 0]) (Suc ?n) vs = Inr (take (Suc ?n) (?s[?n := 0]) @ encode_env vs @
      drop (Suc ?n + length (encode_env vs)) (?s[?n := 0]), Suc ?n + length (encode_env vs))"
    by (rule Cons.IH) (use len in simp)
  then show ?case
    using len s unfolding set by (simp add: env_bytes_eq set_at_def set encode_env_def ac_simps)
qed (simp add: encode_env_def)

lemma decode_env_var:
  "0 \<notin> set v \<Longrightarrow> cur @ v \<noteq> [] \<Longrightarrow> decode_env cur (v @ 0 # bs) = (cur @ v) # decode_env [] bs"
  by (induction v arbitrary: cur) auto

lemma decode_encode:
  "(\<And>v. v \<in> set vs \<Longrightarrow> v \<noteq> [] \<and> CHR 0x00 \<notin> set v) \<Longrightarrow>
     decode_env [] (encode_env vs @ 0 # rest) = map bytes_of vs"
proof (induction vs)
  case (Cons v vs)
  have "v \<noteq> []" "CHR 0x00 \<notin> set v" using Cons.prems by simp_all
  then have "0 \<notin> set (bytes_of v)" "bytes_of v \<noteq> []"
    by (auto simp: bytes_of_def of_char_0)
  then show ?case using Cons by (simp add: encode_env_def decode_env_var)
qed (simp add: encode_env_def)


text \<open>
  Property C6. The environment block: for variables that are not empty and hold neither NUL nor a
  newline and that fit, \<open>spiMakeEnv\<close> changes only the erased 64 KiB block of the image; the block
  it stores has the CRC of its data at the front, the flag 1, and decodes back to exactly these
  variables.
\<close>

theorem spiMakeEnv_roundtrip:
  assumes "env_start (length b) = Some a" "\<forall>i<0x10000. b ! (a + i) = 0xff"
    and "vs \<noteq> []" "\<forall>v \<in> set vs. v \<noteq> [] \<and> CHR 0x00 \<notin> set v \<and> newline \<notin> set v"
    and "length (encode_env vs) + 6 \<le> 0x10000"
  shows "\<exists>s. spiMakeEnv b (Join newline vs) = Inr (take a b @ s @ drop (a + 0x10000) b) \<and>
     length s = 0x10000 \<and> get32 s = Some (crc32 (drop 5 s)) \<and> s ! 4 = 1 \<and>
     decode_env [] (drop 5 s) = map bytes_of vs"
proof -
  let ?sec = "take 0x10000 (drop a b)" and ?n = "5 + length (encode_env vs)"
  have len: "a + 0x10000 \<le> length b"
    using assms(1) by (auto simp: env_start_def split: if_splits)
  then have sec: "length ?sec = 0x10000" by simp
  have ff: "\<not> list_ex (\<lambda>c. c \<noteq> 0xff) ?sec"
    using assms(2) sec len by (auto simp: list_ex_iff in_set_conv_nth)
  have split: "Split newline (Join newline vs) = vs"
    using assms(3,4) by (intro Split_Join) auto
  let ?s4 = "?sec[4 := 1]"
  let ?s5 = "take 5 ?s4 @ encode_env vs @ drop ?n ?s4"
  let ?s6 = "?s5[?n := 0]"
  have 1: "set_at ?sec 4 1 = Inr ?s4" using sec by (simp add: set_at_def)
  have 2: "env_vars ?s4 5 vs = Inr (?s5, ?n)"
    by (rule env_vars_eq) (use sec assms(5) in simp)
  have l5: "length ?s5 = 0x10000" using sec assms(5) by simp
  then have 3: "set_at ?s5 ?n 0 = Inr ?s6" using assms(5) by (simp only: set_at_def) simp
  let ?s = "put32 (crc32 (drop 5 ?s6)) @ drop 4 ?s6"
  have fill: "fill_env ?sec (Join newline vs) = Inr ?s"
    unfolding fill_env_def split using ff 1 2 3 by simp
  have l6: "length ?s6 = 0x10000" using l5 by simp
  have d5: "drop 5 ?s = drop 5 ?s6" by (simp add: le32.length_enc)
  have dn: "drop ?n ?s4 = ?s4 ! ?n # drop (Suc ?n) ?s4"
    by (rule Cons_nth_drop_Suc [symmetric]) (use sec assms(5) in simp)
  have "drop 5 ?s6 = (encode_env vs @ drop ?n ?s4)[?n - 5 := 0]"
    using sec by (simp add: drop_update_swap)
  also have "\<dots> = encode_env vs @ 0 # drop (Suc ?n) ?s4"
    unfolding dn by (simp add: list_update_append)
  finally have enc: "drop 5 ?s6 = encode_env vs @ 0 # drop (Suc ?n) ?s4" .
  have "?s ! 4 = ?s6 ! 4" using l6 by (simp add: nth_append le32.length_enc)
  also have "\<dots> = 1" using sec by (simp add: nth_append)
  finally have flag: "?s ! 4 = 1" .
  have "spiMakeEnv b (Join newline vs) = Inr (take a b @ ?s @ drop (a + 0x10000) b)"
    unfolding spiMakeEnv_def assms(1) by (simp add: fill)
  moreover have "length ?s = 0x10000" using l6 by (simp add: le32.length_enc)
  moreover have "get32 ?s = Some (crc32 (drop 5 ?s))" unfolding d5 by (rule le32.dec_enc)
  moreover have "decode_env [] (drop 5 ?s) = map bytes_of vs"
    unfolding trans [OF d5 enc] by (rule decode_encode) (use assms(4) in auto)
  ultimately show ?thesis using flag by blast
qed

theorem spiMakeEnv_roundtrip_witness:
  "\<exists>b. spiMakeEnv (replicate 0x10000 0xff) ''bootdelay=3'' = Inr b \<and> get32 b = Some (crc32 (drop 5 b)) \<and>
     decode_env [] (drop 5 b) = [bytes_of ''bootdelay=3'']"
proof -
  have "env_start (length (replicate 0x10000 (0xff :: u8))) = Some 0" by (simp add: env_start_def)
  moreover have "\<forall>i<0x10000. replicate 0x10000 (0xff :: u8) ! (0 + i) = 0xff" by simp
  moreover have "[''bootdelay=3''] \<noteq> []" by simp
  moreover have "\<forall>v \<in> set [''bootdelay=3'']. v \<noteq> [] \<and> CHR 0x00 \<notin> set v \<and> newline \<notin> set v" by simp
  moreover have "length (encode_env [''bootdelay=3'']) + 6 \<le> 0x10000" by (simp add: encode_env_def bytes_of_def)
  ultimately show ?thesis
    using spiMakeEnv_roundtrip [of "replicate 0x10000 0xff" 0 "[''bootdelay=3'']"] by auto
qed

section \<open>What is written is in the flash\<close>

text \<open>
  The answers to read commands come from the cells, as they are when the command is given.
\<close>

definition reads_right :: "xfer \<Rightarrow> flash \<Rightarrow> bool" where
  "reads_right t s = (case fst t of
       c # bs \<Rightarrow> c = FREAD4B \<longrightarrow> (case get32be bs of
           Some a \<Rightarrow> snd t = bytes_at (cells s) (uint a) (length (snd t)) | None \<Rightarrow> True)
     | [] \<Rightarrow> True)"

fun honest :: "int \<Rightarrow> xfer list \<Rightarrow> flash \<Rightarrow> bool" where
  "honest es [] s = True"
| "honest es (t # ts) s = (reads_right t s \<and> honest es ts (flash_xfer es t s))"

lemma honest_append: "honest es (ts @ us) s = (honest es ts s \<and> honest es us (flash_run es ts s))"
  by (induction ts arbitrary: s) auto

text \<open>The read transaction, and its effect on the flash.\<close>

definition read_xfer :: "u32 \<Rightarrow> u8 list \<Rightarrow> xfer" where
  "read_xfer a bs = (FREAD4B # put32be a @ [0], bs)"

lemma flash_read: "flash_xfer es (read_xfer a bs) s = s"
  using be32.dec_enc [of a "[0]"] by (simp add: read_xfer_def flash_xfer_def flash_cmd_def spi_ops)

lemma honest_read: "reads_right (read_xfer a bs) s \<longleftrightarrow> bs = bytes_at (cells s) (uint a) (length bs)"
  using be32.dec_enc [of a "[0]"] by (simp add: read_xfer_def reads_right_def)

lemma wp_SpiRead:
  assumes "fmc_ok f" "read_op f = FREAD4B" "0 \<le> n"
    and "\<And>bs. int (length bs) = n \<Longrightarrow> Q bs (idle (l @ [read_xfer (word_of_int off) bs]))"
  shows "wp (spi_step f) (\<lambda>_. True) (SpiRead cfg f off n) Q (idle l)"
proof -
  have eq: "SpiRead cfg f off n = spiXfer f (FREAD4B # put32be (word_of_int off) @ [0]) n"
    by (simp add: SpiRead_def spiXferAddr_def assms(2))
  show ?thesis
  proof (cases "n mod 4 = 0")
    case True
    show ?thesis unfolding eq
      by (rule wp_spiXfer) (use assms True in \<open>simp_all add: read_xfer_def\<close>)
  next
    case False
    show ?thesis unfolding eq
      by (rule wp_of_runs) (use spiXfer_fails [OF False] in blast)
  qed
qed

text \<open>Erasing, as a step of a longer run.\<close>

lemma wp_EraseBlock:
  assumes "fmc_ok f" "erase_op f = ERASE4B" "0 \<le> off" "off < 2 ^ 32"
    and "\<And>ts. (\<And>s. cells (flash_run es ts s) = erase_block es off (cells s)) \<Longrightarrow> Q () (idle (l @ ts))"
  shows "wp (spi_step f) (\<lambda>_. True) (EraseBlock cfg f off) Q (idle l)"
  unfolding EraseBlock_def assms(2)
proof (rule wp_command [OF assms(1)])
  fix ts
  assume ts: "\<And>s. flash_run es ts s = flash_cmd es ERASE4B (word_of_int off) [] (s\<lparr>wel := True\<rparr>)"
  have "uint (word_of_int off :: u32) = off" using assms(3,4) by (simp add: uint_word_of_int)
  then have "cells (flash_run es ts s) = erase_block es off (cells s)" for s
    unfolding ts by (simp add: flash_cmd_def spi_ops)
  from assms(5) [OF this]
  show "wp (spi_step f) (\<lambda>_. True)
      (if (0 :: u8) \<noteq> 0 then Fail (Fatal ''While erasing sector 0x%x:  status = 0x%02x'' [AI off, AW (0 :: u8)])
       else Ret ()) Q (idle (l @ ts))"
    by simp
qed simp

text \<open>The bytes an erase clears, for an address at the start of its block.\<close>

lemma erase_block_aligned:
  assumes "0 < es" "sec mod es = 0"
  shows "erase_block es sec c = (\<lambda>y. if sec \<le> y \<and> y < sec + es then 0xff else c y)"
proof -
  obtain k where k: "sec = es * k" using assms(2) by (auto simp: mod_eq_0_iff_dvd)
  have "y div es = sec div es \<longleftrightarrow> sec \<le> y \<and> y < sec + es" for y
  proof -
    have "y div es = k \<longleftrightarrow> es * k \<le> y \<and> y < es * k + es"
    proof
      assume "y div es = k"
      then have "y = es * k + y mod es" by (metis mult_div_mod_eq)
      then show "es * k \<le> y \<and> y < es * k + es"
        using pos_mod_bound [OF assms(1), of y] pos_mod_sign [OF assms(1), of y] by linarith
    next
      assume *: "es * k \<le> y \<and> y < es * k + es"
      then have "y = es * k + (y - es * k)" "0 \<le> y - es * k" "y - es * k < es" by linarith+
      then show "y div es = k"
        by (metis add.commute add.right_neutral assms(1) div_mult_self4 div_pos_pos_trivial order_less_irrefl)
    qed
    then show ?thesis using k assms(1) by simp
  qed
  then show ?thesis by (auto simp: erase_block_def fun_eq_iff)
qed

text \<open>
  The image is in the cells from offset \<open>x\<close> on, and outside the blocks of the range from \<open>x\<close>
  nothing changed: what the transactions \<open>ts\<close> of the loop leave.
\<close>

definition block_end :: "int \<Rightarrow> int \<Rightarrow> int" where
  "block_end es n = es * ((n + es - 1) div es)"

definition image_at :: "int \<Rightarrow> int \<Rightarrow> int \<Rightarrow> int \<Rightarrow> u8 list \<Rightarrow> xfer list \<Rightarrow> bool" where
  "image_at es off x n buf ts \<longleftrightarrow> (\<forall>s. honest es ts s \<longrightarrow>
     (\<forall>i. x \<le> i \<and> i < n \<longrightarrow> cells (flash_run es ts s) (off + i) = buf ! nat i) \<and>
     (\<forall>y. y < off + x \<or> off + block_end es n \<le> y \<longrightarrow> cells (flash_run es ts s) y = cells s y))"

lemma block_end_ge:
  assumes "0 < es" "x mod es = 0" "x < n"
  shows "x + es \<le> block_end es n"
proof -
  obtain k where k: "x = es * k" using assms(2) by (auto simp: mod_eq_0_iff_dvd)
  have "es * (k + 1) \<le> n + es - 1" using assms(3) k by (simp add: algebra_simps)
  then have "es * (k + 1) div es \<le> (n + es - 1) div es" using assms(1) by (rule zdiv_mono1)
  then have "k + 1 \<le> (n + es - 1) div es" using assms(1) by simp
  then have "es * (k + 1) \<le> block_end es n"
    using assms(1) by (simp add: block_end_def)
  then show ?thesis using k by (simp add: algebra_simps)
qed

text \<open>One block: read, then skipped or erased and programmed.\<close>

lemma image_block:
  assumes "0 < es" "x mod es = 0" "off mod es = 0" "0 \<le> x" "x < n" "n \<le> int (length buf)"
    and c: "c = (if n - x < es then n - x else es)" "new = take (nat c) (drop (nat x) buf)"
    and b: "\<And>s. honest es ts s \<Longrightarrow>
      cells (flash_run es ts s) = cells s \<and> bytes_at (cells s) (off + x) (nat c) = new \<or>
      cells (flash_run es ts s) = put_bytes (erase_block es (off + x) (cells s)) (off + x) new"
    and rest: "image_at es off (x + es) n buf us"
  shows "image_at es off x n buf (ts @ us)"
  unfolding image_at_def
proof (intro allI impI)
  fix s
  let ?t = "flash_run es ts s"
  assume h: "honest es (ts @ us) s"
  then have h: "honest es ts s" "honest es us ?t" by (simp_all add: honest_append)
  have c': "0 < c" "c \<le> es" "c \<le> n - x" using assms(1,5) c(1) by auto
  have new: "int (length new) = c" using c' assms(4,6) by (simp add: c(2))
  have nth: "new ! nat (i - x) = buf ! nat i" if "x \<le> i" "i < x + c" for i
    using that assms(4,6) c' by (simp add: c(2) nat_diff_distrib')
  have "(off + x) mod es = 0" using assms(2,3) by (simp add: mod_add_eq [symmetric, of off])
  note er = erase_block_aligned [OF assms(1) this]
  have block: "cells ?t (off + i) = buf ! nat i" if "x \<le> i" "i < x + c" for i
    using b [OF h(1)]
  proof
    assume "cells ?t = cells s \<and> bytes_at (cells s) (off + x) (nat c) = new"
    then have "cells ?t (off + i) = new ! nat (i - x)"
      using that c' by (auto simp: bytes_at_def)
    then show ?thesis using nth that by simp
  next
    assume "cells ?t = put_bytes (erase_block es (off + x) (cells s)) (off + x) new"
    then show ?thesis using nth that new by (simp add: put_bytes_def)
  qed
  have same: "cells ?t y = cells s y" if "y < off + x \<or> off + x + es \<le> y" for y
    using b [OF h(1)] that c' new by (auto simp: put_bytes_def er)
  from rest h(2) have
    r: "\<And>i. x + es \<le> i \<Longrightarrow> i < n \<Longrightarrow> cells (flash_run es us ?t) (off + i) = buf ! nat i"
       "\<And>y. y < off + (x + es) \<or> off + block_end es n \<le> y \<Longrightarrow> cells (flash_run es us ?t) y = cells ?t y"
    by (auto simp: image_at_def)
  have "cells (flash_run es us ?t) (off + i) = buf ! nat i" if "x \<le> i" "i < n" for i
  proof (cases "i < x + es")
    case True
    then have "i < x + c" using that c(1) by auto
    then show ?thesis using r(2) [of "off + i"] block [of i] True that by simp
  qed (use r(1) that in simp)
  moreover have "cells (flash_run es us ?t) y = cells s y" if "y < off + x \<or> off + block_end es n \<le> y" for y
    using r(2) [of y] same [of y] that assms(1) block_end_ge [OF assms(1,2,5)] by auto
  ultimately show "(\<forall>i. x \<le> i \<and> i < n \<longrightarrow> cells (flash_run es (ts @ us) s) (off + i) = buf ! nat i) \<and>
      (\<forall>y. y < off + x \<or> off + block_end es n \<le> y \<longrightarrow> cells (flash_run es (ts @ us) s) y = cells s y)"
    by simp
qed


lemma wp_write_sectors:
  assumes "fmc_ok f" "read_op f = FREAD4B" "program_op f = PPROGRAM4B" "erase_op f = ERASE4B"
    and "EraseSize (Chip f) = es" "0 < es" "off mod es = 0" "0 \<le> off" "off + block_end es n \<le> 2 ^ 32"
    and "n \<le> int (length buf)" "0 \<le> x" "x mod es = 0"
  shows "wp (spi_step f) (\<lambda>_. True) (write_sectors cfg f off n buf x)
    (\<lambda>_ s. \<exists>ts. s = idle (l @ ts) \<and> image_at es off x n buf ts) (idle l)"
  using assms
proof (induction cfg f off n buf x arbitrary: l rule: write_sectors.induct)
  case (1 cfg f off n buf x)
  note ok = "1.prems"
  show ?case
  proof (cases "x < n")
    case False
    then show ?thesis
      by (subst write_sectors.simps) (auto simp: image_at_def intro!: exI [of _ "[]"] simp: block_end_def)
  next
    case True
    define c where "c = (if n - x < es then n - x else es)"
    define new where "new = take (nat c) (drop (nat x) buf)"
    define sec where "sec = off + x"
    let ?Q = "\<lambda>_ s. \<exists>ts. s = idle (l @ ts) \<and> image_at es off x n buf ts"
    have c: "0 < c" "c \<le> es" "int (length new) = c"
      using True ok(6,10,11) by (auto simp: c_def new_def)
    have "off + x + es \<le> 2 ^ 32" using block_end_ge [OF ok(6,12) True] ok(9) by simp
    then have sec: "i64 (x + off) = sec" "0 \<le> sec" "sec + c \<le> 2 ^ 32" "sec < 2 ^ 32"
      using ok(6,8,11) c by (simp_all add: sec_def add.commute)
    have sec_aligned: "sec mod es = 0"
      using ok(7,12) by (simp add: sec_def mod_add_eq [symmetric, of off])
    have uint: "uint (word_of_int sec :: u32) = sec" using sec by (simp add: uint_word_of_int)
    have es: "\<not> EraseSize (Chip f) \<le> 0" using ok(5,6) by simp
    have "(x + es) mod es = 0" using ok(12) by simp
    then have go_on: "wp (spi_step f) (\<lambda>_. True) (write_sectors cfg f off n buf (x + es)) ?Q (idle (l @ ts))"
      if "\<And>s. honest es ts s \<Longrightarrow>
        cells (flash_run es ts s) = cells s \<and> bytes_at (cells s) sec (nat c) = new \<or>
        cells (flash_run es ts s) = put_bytes (erase_block es sec (cells s)) sec new" for ts
      using "1.IH" [OF _ es refl refl refl, of "l @ ts"] True ok
        image_block [OF ok(6,12,7,11) True ok(10) c_def new_def that [unfolded sec_def]]
      by (auto elim!: wp_mono)
    have "wp (spi_step f) (\<lambda>_. True) (bind (SpiRead cfg f sec c) (\<lambda>oldData.
             seq (if oldData = new then print ''Skipping sector 0x%x: no change'' [AI sec]
                  else seq (print ''Erasing sector 0x%07x   (%2d%%)          '' [AI sec, AI (x * 100 div n)])
                    (seq (EraseBlock cfg f sec)
                    (seq (print ''Writing sector 0x%07x   (%2d%%)          '' [AI sec, AI ((x * 100 + 50) div n)])
                         (Write cfg f sec new))))
               (write_sectors cfg f off n buf (x + es)))) ?Q (idle l)"
      unfolding wp_bind
    proof (rule wp_SpiRead [OF ok(1,2) less_imp_le [OF c(1)]])
      fix bs :: "u8 list"
      assume bs: "int (length bs) = c"
      let ?r = "read_xfer (word_of_int sec) bs"
      have read: "bs = bytes_at (cells s) sec (nat c)" if "reads_right ?r s" for s
        using that [unfolded honest_read uint] bs by (metis nat_int)
      show "wp (spi_step f) (\<lambda>_. True) (if bs = new then print ''Skipping sector 0x%x: no change'' [AI sec]
                  else seq (print ''Erasing sector 0x%07x   (%2d%%)          '' [AI sec, AI (x * 100 div n)])
                    (seq (EraseBlock cfg f sec)
                    (seq (print ''Writing sector 0x%07x   (%2d%%)          '' [AI sec, AI ((x * 100 + 50) div n)])
                         (Write cfg f sec new))))
          (\<lambda>_. wp (spi_step f) (\<lambda>_. True) (write_sectors cfg f off n buf (x + es)) ?Q) (idle (l @ [?r]))"
      proof (cases "bs = new")
        case True
        have "wp (spi_step f) (\<lambda>_. True) (write_sectors cfg f off n buf (x + es)) ?Q (idle (l @ [?r]))"
          by (rule go_on) (use read True in \<open>auto simp: flash_read\<close>)
        then show ?thesis using True by (simp add: spi_step_simps)
      next
        case False
        have "wp (spi_step f) (\<lambda>_. True) (EraseBlock cfg f sec)
          (\<lambda>_. wp (spi_step f) (\<lambda>_. True) (Write cfg f sec new)
            (\<lambda>_. wp (spi_step f) (\<lambda>_. True) (write_sectors cfg f off n buf (x + es)) ?Q)) (idle (l @ [?r]))"
        proof (rule wp_EraseBlock [OF ok(1,4) sec(2,4)])
          fix ts
          assume ts: "\<And>s. cells (flash_run es ts s) = erase_block es sec (cells s)"
          show "wp (spi_step f) (\<lambda>_. True) (Write cfg f sec new)
            (\<lambda>_. wp (spi_step f) (\<lambda>_. True) (write_sectors cfg f off n buf (x + es)) ?Q) (idle ((l @ [?r]) @ ts))"
          proof (rule wp_mono [OF wp_Write [OF ok(1,3) sec(2)]])
            show "sec + int (length new) \<le> 2 ^ 32" using sec(3) c(3) by simp
            fix u s'
            assume "\<exists>us. s' = idle (((l @ [?r]) @ ts) @ us) \<and> programmed es sec new us"
            then obtain us where us: "s' = idle (l @ (?r # ts @ us))" "programmed es sec new us" by auto
            have er: "erased (erase_block es sec d) sec (length new)" for d
              using c sec_aligned by (auto simp: erased_def erase_block_aligned [OF ok(6)])
            show "wp (spi_step f) (\<lambda>_. True) (write_sectors cfg f off n buf (x + es)) ?Q s'"
              unfolding us(1)
              by (rule go_on) (use us(2) er ts in \<open>auto simp: programmed_def flash_read\<close>)
          qed
        qed
        then show ?thesis using False
          by (auto simp: wp_bind spi_step_simps elim!: wp_mono [of _ _ "EraseBlock cfg f sec"])
      qed
    qed
    then show ?thesis
      unfolding write_sectors.simps [of cfg f off n buf x] Let_def ok(5) sec(1)
        c_def [symmetric] new_def [symmetric]
      using True ok(6) by simp
  qed
qed


text \<open>The flash handle of the host, and an offset that passes the test of \<open>doSpiWrite\<close>.\<close>

definition flash_handle :: "Fmc \<Rightarrow> bool" where
  "flash_handle f \<longleftrightarrow> fmc_ok f \<and> read_op f = FREAD4B \<and> program_op f = PPROGRAM4B \<and>
     erase_op f = ERASE4B \<and> EraseSize (Chip f) \<in> {0x10000, 0x40000}"

lemma FmcInit_handle: "runs (FmcInit cfg r m) tr (Done f) \<Longrightarrow> r \<noteq> m \<Longrightarrow> flash_handle f"
  using FmcInit_result [of cfg r m tr f] spiDb_chip
  by (fastforce simp: flash_handle_def set_ops_def fmc_ok_def fmc_start_def)

lemma AstMap_bar:
  assumes "archName cfg \<noteq> ''armv6l''" "n \<noteq> 0" "runs (AstMap cfg nm addr w n s) tr (Done (r, s'))"
  shows "r = AstMem '''' addr n"
  using assms by (auto simp: AstMap_host elim!: runs_bindE)

lemma FmcNew_handle:
  assumes "archName cfg \<noteq> ''armv6l''" "runs (FmcNew cfg a s) tr (Done (f, s'))"
  shows "flash_handle f"
proof -
  from assms(2) obtain rg m s1 s2 tr1 tr2 tr3 where
    r: "runs (AstMap cfg ''fmc'' FMC_ADDR True 4096 s) tr1 (Done (rg, s1))"
      "runs (AstMap cfg ''fmc-mem'' FMC_MEM True (64 * 1024 * 1024) s1) tr2 (Done (m, s2))"
      "runs (FmcInit cfg rg m) tr3 (Done f)"
    unfolding FmcNew_def by (auto elim!: runs_bindE split: region.splits)
  have "rg = AstMem '''' FMC_ADDR 4096" "m = AstMem '''' FMC_MEM (64 * 1024 * 1024)"
    using AstMap_bar [OF assms(1) _ r(1)] AstMap_bar [OF assms(1) _ r(2)] by simp_all
  then show ?thesis using FmcInit_handle [OF r(3)] by simp
qed

lemma aligned_off:
  assumes "flash_handle f" "off AND (EraseSize (Chip f) - 1) = 0"
  shows "off mod EraseSize (Chip f) = 0"
proof -
  have "off AND mask k = off mod 2 ^ k" for k using take_bit_eq_mask [of k off] by (simp add: take_bit_eq_mod)
  from this [of 16] this [of 18] show ?thesis
    using assms by (auto simp: flash_handle_def mask_eq_exp_minus_1)
qed

text \<open>
  Property C5. Writing an image: when \<open>doSpiWrite\<close> returns, the flash was re-read and gave
  exactly the bytes requested of the image (the file, with its environment block if one is
  asked for); and of a flash whose read commands answer with its cells, the writing loop leaves
  these bytes in the cells from the offset on and changes no cell outside the erase blocks of
  the range, whatever was stored before and whichever blocks were skipped.
\<close>

theorem doSpiWrite_flashed:
  assumes "archName cfg \<noteq> ''armv6l''" "0 \<le> off"
    and "runs (doSpiWrite cfg file off len env s) tr (Done s')"
  shows "\<exists>f img buf n es pre mid rd. tr = (ReadFile file, RFile img) # pre @ mid @ (Print ''Verifying...'' [], RUnit) # rd \<and>
     make_env img env = Ret buf \<and> n = (if len \<le> 0 then int (length buf) else len) \<and> n \<le> int (length buf) \<and>
     runs (SpiRead cfg f off n) rd (Done (take (nat n) buf)) \<and>
     es = EraseSize (Chip f) \<and> es \<in> {0x10000, 0x40000} \<and> off mod es = 0 \<and>
     (off + block_end es n \<le> 2 ^ 32 \<longrightarrow>
        (\<exists>ts. track (spi_step f) mid (idle []) = idle ts \<and> image_at es off 0 n buf ts))"
proof -
  from assms(3) obtain img tr1 where 1: "tr = (ReadFile file, RFile img) # tr1"
    "runs (bind (make_env img env) (\<lambda>buf.
          if 0 < len \<and> int (length buf) < len
          then Fail (Fatal ''%s too small for -spilen 0x%x'' [AS file, AI len])
          else let spiLen = (if len \<le> 0 then int (length buf) else len)
           in bind (Bmc.New cfg s) (\<lambda>(a, s).
              bind (FmcNew cfg a s) (\<lambda>(f, s).
                if off AND (EraseSize (Chip f) - 1) \<noteq> 0
                then Fail (Fatal ''Cannot write non-block aligned data to flash'' [])
                else seq (write_sectors cfg f off spiLen buf 0)
                  (seq (print ''Verifying...'' [])
                  (bind (SpiRead cfg f off spiLen) (\<lambda>reread.
                    if reread \<noteq> take (nat spiLen) buf
                    then Fail (Fatal ''Reread comparison failed!'' [])
                    else Ret s))))))) tr1 (Done s')"
    unfolding doSpiWrite_def by auto
  from 1(2) obtain buf where buf: "make_env img env = Ret buf"
    by (auto simp: make_env_def split: if_splits sum.splits)
  define n where "n = (if len \<le> 0 then int (length buf) else len)"
  from 1(2) [unfolded buf bind.simps Let_def, folded n_def] obtain a s1 f s2 pre1 pre2 mid rd where
    le: "\<not> (0 < len \<and> int (length buf) < len)"
    and f: "runs (FmcNew cfg a s1) pre2 (Done (f, s2))" "off AND (EraseSize (Chip f) - 1) = 0"
    and w: "runs (write_sectors cfg f off n buf 0) mid (Done ())"
    and r: "runs (SpiRead cfg f off n) rd (Done (take (nat n) buf))"
    and tr1: "tr1 = (pre1 @ pre2) @ mid @ (Print ''Verifying...'' [], RUnit) # rd"
    by (auto elim!: runs_bindE split: if_splits)
  have n: "n \<le> int (length buf)" using le by (auto simp: n_def)
  note h = FmcNew_handle [OF assms(1) f(1)]
  let ?es = "EraseSize (Chip f)"
  have "\<exists>ts. track (spi_step f) mid (idle []) = idle ts \<and> image_at ?es off 0 n buf ts"
    if "off + block_end ?es n \<le> 2 ^ 32"
  proof -
    have "wp (spi_step f) (\<lambda>_. True) (write_sectors cfg f off n buf 0)
      (\<lambda>_ s. \<exists>ts. s = idle ([] @ ts) \<and> image_at ?es off 0 n buf ts) (idle [])"
      by (rule wp_write_sectors) (use h that n assms(2) aligned_off [OF h f(2)] in \<open>auto simp: flash_handle_def\<close>)
    from wp_track [OF this _ w] show ?thesis by simp
  qed
  moreover have "?es \<in> {0x10000, 0x40000}" using h by (simp add: flash_handle_def)
  ultimately show ?thesis
    using 1(1) tr1 buf n_def n r aligned_off [OF h f(2)]
    by (intro exI [of _ f] exI [of _ img] exI [of _ buf] exI [of _ n] exI [of _ ?es]
        exI [of _ "pre1 @ pre2"] exI [of _ mid] exI [of _ rd] conjI) simp_all
qed

text \<open>A host with a BMC whose flash reads as zero, and an image of four zeros.\<close>

definition flash_host :: "u8 handler" where
  "flash_host q c = (case q of
       Wr8 r off b \<Rightarrow> (Inr RUnit, b)
     | Rd32 r off \<Rightarrow> (Inr (RU32 (case r of
           AstMem nm a n \<Rightarrow> if a = FMC_MEM then (if c = 0x9f then 0x001920c2 else 0)
             else if off = SCU_REVID then 0x04030303 else 0
         | _ \<Rightarrow> 0)), c)
     | ReadFile p \<Rightarrow> (Inr (RFile [0, 0, 0, 0]), c)
     | _ \<Rightarrow> (fst (two_devs q ()), c))"

theorem doSpiWrite_flashed_witness:
  "\<exists>tr s' f n buf rd. runs (doSpiWrite plain_config ''image'' 0 (- 1) [] no_maps) tr (Done s') \<and>
     runs (SpiRead plain_config f 0 n) rd (Done (take (nat n) buf)) \<and> n = int (length buf)"
proof -
  let ?p = "doSpiWrite plain_config ''image'' 0 (- 1) [] no_maps"
  have "case fst (exec flash_host ?p 0) of Done s \<Rightarrow> True | Failed e \<Rightarrow> False"
    by code_simp
  then obtain s' u where e: "exec flash_host ?p 0 = (Done s', u)"
    by (cases "exec flash_host ?p 0") (auto split: outcome.splits)
  from exec_done_runs [OF e] obtain tr where r: "runs ?p tr (Done s')" ..
  have a: "archName plain_config \<noteq> ''armv6l''" by simp
  from doSpiWrite_flashed [OF a order_refl r] r show ?thesis by auto
qed

section \<open>Flashing ends\<close>

lemma in_time_write_sectors [in_time_intros]:
  "1000001 \<le> fuel cfg \<Longrightarrow> 0 < EraseSize (Chip f) \<Longrightarrow> in_time (write_sectors cfg f off len buf x)"
proof (induction cfg f off len buf x rule: write_sectors.induct)
  case (1 cfg f off len buf x)
  show ?case
  proof (cases "x < len")
    case True
    have "in_time (write_sectors cfg f off len buf (x + EraseSize (Chip f)))"
      using "1.IH" True "1.prems" by simp
    then show ?thesis
      using True "1.prems" by (subst write_sectors.simps) (auto simp: Let_def intro!: in_time_intros)
  qed (simp add: write_sectors.simps)
qed

text \<open>
  Property C28. Flashing always comes to an end: on a clock that moves on, writing the sectors of
  an image to any chip of the database returns or ends the process with a message, whatever the
  flash answers, however large the image; 1000001 turns outlast the ten seconds of each wait.
\<close>

theorem flashing_ends:
  assumes "runs (write_sectors cfg f off len buf x) tr out" "clocked t tr" "1000001 \<le> fuel cfg"
    and "spiDb i = Some (Chip f)"
  shows "out \<noteq> Failed OutOfFuel"
proof -
  have "0 < EraseSize (Chip f)" using spiDb_chip [OF assms(4)] by auto
  then show ?thesis using in_timeD [OF in_time_write_sectors] assms(1-3) by blast
qed

theorem flashing_ends_witness:
  "\<exists>tr out. runs (write_sectors (plain_config\<lparr>fuel := 1000001\<rparr>) sample_fmc 0 65536 (replicate 65536 7) 0) tr out \<and>
     clocked 0 tr \<and> out \<noteq> Failed OutOfFuel"
proof -
  obtain tr out where r: "runs (write_sectors (plain_config\<lparr>fuel := 1000001\<rparr>) sample_fmc 0 65536 (replicate 65536 7) 0) tr out"
    and c: "clocked 0 tr"
    using clocked_run by blast
  have "spiDb 0xc22019 = Some (Chip sample_fmc)"
    by (simp add: sample_fmc_def set_ops_def fmc_start_def spiDb_def)
  from flashing_ends [OF r c _ this] r c show ?thesis by auto
qed

section \<open>Decoding the I2C controllers\<close>

text \<open>The states of the controller the decoder knows: idle, mtxd, mrx and mtxack.\<close>

definition I2C_IDLE :: u32 where "I2C_IDLE = 0"
definition MTXD :: u32 where "MTXD = 12"
definition MRX :: u32 where "MRX = 14"
definition MTXACK :: u32 where "MTXACK = 15"

text \<open>
  One context per monitor; the handle and the DRAM region, the same in all of them, are
  arguments of the callbacks.
\<close>

record i2cCtxt =
  poolBase :: int
  dmaAddr :: u32
  dmaLen :: u32
  rx :: bool
  cCmd :: u32
  rbytes :: u32
  cBus :: int

definition stateStrs :: "string list" where
  "stateStrs = [''idle'', ''swait'', ''2'', ''recover'', ''srx'', ''stxack'', ''stxd'', ''srxack'', ''mactive'',
     ''mstart'', ''mstartr'', ''mstop'', ''mtxd'', ''mrxack'', ''mrx'', ''mtxack'']"

definition i2cNotSupported :: "u32 \<Rightarrow> u32 \<Rightarrow> unit io" where
  "i2cNotSupported state cmd =
     print ''X  i2c monitoring/decoder: not yet supported i2c controller sequence:state=%s,cmd=%#x''
       [AS (stateStrs ! unat state), AW cmd]"

definition i2c_state :: "GpioChange \<Rightarrow> u32" where
  "i2c_state c = drop_bit 19 (New c) AND 0xf"

definition i2c_cmd :: "GpioChange \<Rightarrow> u32" where
  "i2c_cmd c = New c AND 0x3ff"

text \<open>What \<open>i2cSmart\<close> prints of one change.\<close>

definition smart_one :: "i2cCtxt \<Rightarrow> GpioChange \<Rightarrow> unit io" where
  "smart_one ctxt c =
     (let state = i2c_state c; cmd = i2c_cmd c; (a0, a1, a2) = Aux c
      in if state = MTXD
         then if cmd \<noteq> 2 \<and> cmd \<noteq> 0x102 \<and> cmd \<noteq> 0x122
              then seq (i2cNotSupported state cmd) (GpioRes [c])
              else print ''T%d %02x '' [AI (cBus ctxt), AW (a0 AND 0xff)]
         else if state = MTXACK
         then if cmd \<noteq> 0x98 \<and> cmd \<noteq> 0x238 \<and> cmd \<noteq> 0x20
              then seq (i2cNotSupported state cmd) (GpioRes [c])
              else let b = put32 a1; rxptr = drop_bit 24 a0
                in if rxptr AND 0x1f = 0
                   then Fail (Fatal ''MTXACK state: bufpool ptrs = %#08x'' [AW a0])
                   else print ''R%d %02x '' [AI (cBus ctxt), AW (b ! unat ((rxptr - 1) AND 3))]
         else if state = I2C_IDLE then print [newline] []
         else Ret ())"

definition i2cSmart :: "i2cCtxt list batch_fn" where
  "i2cSmart cs ctxts = seq (forM cs (\<lambda>c. smart_one (ctxts ! Mon c) c)) (Ret ctxts)"

text \<open>What \<open>i2cExtra\<close> adds to a change, and to the context of its monitor.\<close>

definition extra_one :: "region \<Rightarrow> region \<Rightarrow> GpioChange \<Rightarrow> i2cCtxt \<Rightarrow> (GpioChange \<times> i2cCtxt) io" where
  "extra_one i2c dr c ctxt =
     (let state = i2c_state c; cmd = i2c_cmd c; b = Addr c AND NOT 0x3f; (a0, a1, a2) = Aux c
      in if state = MRX
         then if \<not> rx ctxt
              then bind (read32 i2c (b + 0x24)) (\<lambda>addr.
                   bind (read32 i2c (b + 0x28)) (\<lambda>len.
                     Ret (c, ctxt\<lparr>dmaAddr := addr, dmaLen := len, cCmd := cmd, rbytes := 0, rx := True\<rparr>)))
              else Ret (c, ctxt)
         else if state = MTXD
         then bind (read32 i2c (b + 0x20)) (\<lambda>v. Ret (c\<lparr>Aux := (v, a1, a2)\<rparr>, ctxt))
         else if state = MTXACK
         then if cCmd ctxt = 0x98
              then bind (read32 i2c (b + 0x1c)) (\<lambda>p.
                let rxptr = drop_bit 24 p; poolOff = poolBase ctxt + uint ((rxptr - 1) AND NOT 3)
                in bind (read32 i2c poolOff) (\<lambda>v.
                     Ret (c\<lparr>Aux := (p, v, word_of_int poolOff)\<rparr>, ctxt)))
              else if cCmd ctxt = 0x238 \<or> cCmd ctxt = 0x20
              then if \<not> rx ctxt \<or> dmaLen ctxt \<le> rbytes ctxt
                   then Fail (Fatal ''MTXACK, ctxt: %#v'' [])
                   else bind (read32 dr (uint ((dmaAddr ctxt + rbytes ctxt) AND NOT 3))) (\<lambda>v.
                     Ret (c\<lparr>Aux := (push_bit 24 (rbytes ctxt + 1), v, 0xffffffff)\<rparr>,
                          ctxt\<lparr>rbytes := rbytes ctxt + 1\<rparr>))
              else seq (i2cNotSupported state cmd) (Ret (c, ctxt\<lparr>rx := False\<rparr>))
         else Ret (c, ctxt\<lparr>rx := False\<rparr>))"

definition i2cExtra :: "region \<Rightarrow> region \<Rightarrow> i2cCtxt list change_fn" where
  "i2cExtra i2c dr c ctxts =
     bind (extra_one i2c dr c (ctxts ! Mon c)) (\<lambda>(c, ctxt). Ret (c, ctxts[Mon c := ctxt]))"

definition i2cDec :: "i2cCtxt list batch_fn" where
  "i2cDec cs ctxts = seq (forM cs (\<lambda>c.
     if Addr c AND 0x3f = 0x14
     then print ''t=%d SCL=%d,SDA=%d,cmd=%#x state=%s''
       [AW (Delay c), AW (drop_bit 18 (New c) AND 1), AW (drop_bit 17 (New c) AND 1),
        AW (i2c_cmd c), AS (stateStrs ! unat (i2c_state c))]
     else GpioRes [c])) (Ret ctxts)"

text \<open>The registers of bus \<open>i\<close>, as the decoder computes them.\<close>

definition mon_base :: "nat \<Rightarrow> int" where
  "mon_base i = (if 7 \<le> i then (int i - 7) * 0x40 + 0x300 else int i * 0x40 + 0x40)"

definition pool_base :: "AstHandle \<Rightarrow> nat \<Rightarrow> int io" where
  "pool_base a i =
     (if 25 \<le> Family a then Ret (0x200 + 16 * int i)
      else bind (read32 (I2c a) (mon_base i)) (\<lambda>v. Ret (0x800 + uint (drop_bit 20 v AND 7) * 0x100)))"

definition mon_at :: "AstHandle \<Rightarrow> int \<Rightarrow> u32 \<Rightarrow> Monitor" where
  "mon_at a off m = \<lparr>M = I2c a, Off = off, Mask = m, OldVal = 0, OldValid = False\<rparr>"

text \<open>The monitors of one bus, and the context in decoding mode.\<close>

definition bus_mons :: "bool \<Rightarrow> AstHandle \<Rightarrow> nat \<Rightarrow> int \<Rightarrow> Monitor list \<times> i2cCtxt list" where
  "bus_mons raw a i p =
     (if \<not> raw
      then ([mon_at a (mon_base i + 0x14) (NOT 0x00780000)],
            [\<lparr>poolBase = p, dmaAddr = 0, dmaLen = 0, rx = False, cCmd = 0, rbytes = 0, cBus = int i\<rparr>])
      else (map (\<lambda>off. mon_at a (mon_base i + off) 0) [0x14, 0x18, 0x1c, 0x20, 0x24, 0x28], []))"

fun i2c_mons :: "bool \<Rightarrow> AstHandle \<Rightarrow> int \<Rightarrow> u32 \<Rightarrow> nat list \<Rightarrow> (Monitor list \<times> i2cCtxt list) io" where
  "i2c_mons raw a busno enabled [] = Ret ([], [])"
| "i2c_mons raw a busno enabled (i # is) =
     bind (if (busno = - 1 \<or> word_of_int busno = (word_of_nat i :: u32)) \<and> enabled AND push_bit i 1 \<noteq> 0
           then bind (read32 (I2c a) (mon_base i)) (\<lambda>v.
             if v \<noteq> 0 then bind (pool_base a i) (\<lambda>p. Ret (bus_mons raw a i p)) else Ret ([], []))
           else Ret ([], [])) (\<lambda>(ms, xs).
       bind (i2c_mons raw a busno enabled is) (\<lambda>(ms', xs'). Ret (ms @ ms', xs @ xs')))"

definition doI2cMon :: "config \<Rightarrow> bool \<Rightarrow> int \<Rightarrow> maps \<Rightarrow> unit io" where
  "doI2cMon cfg raw busno s =
     bind (Bmc.New cfg s) (\<lambda>(a, s).
     bind (Dram cfg a s) (\<lambda>(dr, a, s).
     bind (I2cEnabledSet a) (\<lambda>enabled.
     bind (i2c_mons raw a busno enabled [0..<14]) (\<lambda>(mons, ctxts).
       if \<not> raw then MonLoopFun cfg mons i2cSmart (i2cExtra (I2c a) dr) ctxts
       else MonLoopFun cfg mons i2cDec no_cfn ctxts))))"

section \<open>The command\<close>

text \<open>The flags of \<open>main\<close>; those of package \<open>ast\<close> are in \<open>config\<close>.\<close>

record ast_flags =
  astReset :: bool
  i2c3Speed :: bool
  i2c3Disable :: bool
  spiInfo :: bool
  spiRead :: string
  spiWrite :: string
  spiEnv :: string
  spiOff :: int
  spiLen :: int
  i2cMon :: int
  i2cMonRaw :: bool
  mii :: bool

text \<open>A method that uses its receiver at once: the handle is nil for an unknown chip.\<close>

definition with_handle :: "AstHandle option \<Rightarrow> (AstHandle \<Rightarrow> 'a io) \<Rightarrow> 'a io" where
  "with_handle a f = (case a of None \<Rightarrow> nil_deref | Some a \<Rightarrow> f a)"

definition ast_SpiInfo :: "config \<Rightarrow> AstHandle option \<Rightarrow> maps \<Rightarrow> maps io" where
  "ast_SpiInfo cfg a s =
     (case a of
        Some a \<Rightarrow> SpiInfo cfg a s
      | None \<Rightarrow> bind (AstMap cfg ''fmc'' FMC_ADDR True 4096 s) (\<lambda>_. nil_deref))"

definition ast_spiread :: "config \<Rightarrow> ast_flags \<Rightarrow> AstHandle option \<Rightarrow> maps \<Rightarrow> (int \<times> maps) io" where
  "ast_spiread cfg o1 a s =
     (if spiRead o1 = [] then Ret (spiLen o1, s)
      else with_handle a (\<lambda>a. bind (FmcNew cfg a s) (\<lambda>(f, s).
        let n = (if spiLen o1 \<le> 0 then Size (Chip f) else spiLen o1)
        in bind (SpiRead cfg f (spiOff o1) n) (\<lambda>buf.
           bind (write_file (spiRead o1) buf) (\<lambda>ok.
             if \<not> ok then Fail (Fatal ''%v'' []) else Ret (n, s))))))"

definition ast_main :: "config \<Rightarrow> ast_flags \<Rightarrow> unit io" where
  "ast_main cfg o1 =
     bind (AstInfo cfg \<lparr>pm = pmem_init, bar = None\<rparr>) (\<lambda>((chip, step), s).
     seq (print ''AST%s-A%d'' [AS chip, AI step])
    (bind (if chip \<in> {''2400'', ''2500'', ''2600''}
           then bind (Bmc.New cfg s) (\<lambda>(a, s). Ret (Some a, s)) else Ret (None, s)) (\<lambda>(a, s).
     bind (if mii o1 then with_handle a (\<lambda>a. MiiInfo cfg a s) else Ret s) (\<lambda>s.
     bind (if spiInfo o1 then ast_SpiInfo cfg a s else Ret s) (\<lambda>s.
     seq (whenM (i2c3Speed o1) (with_handle a (AstI2c3Speed (fuel cfg))))
    (seq (whenM (i2c3Disable o1) (with_handle a (AstI2c3Disable cfg)))
    (seq (whenM (astReset o1) (with_handle a (\<lambda>a.
            if ThisIsMe a then AstResume cfg a else AstReset cfg a)))
    (seq (whenM (i2cMon o1 \<noteq> - 2) (doI2cMon cfg (i2cMonRaw o1) (i2cMon o1) s))
    (bind (ast_spiread cfg o1 a s) (\<lambda>(n, s).
       whenM (spiWrite o1 \<noteq> [])
         (bind (doSpiWrite cfg (spiWrite o1) (spiOff o1) n (spiEnv o1) s) (\<lambda>_. Ret ()))))))))))))"

section \<open>What the decoder watches and prints\<close>

text \<open>The base the decoder computes is the one of the I2C driver exactly on the chips up to the AST2500.\<close>

lemma mon_base_I2cBase: "mon_base i = I2cBase a (int i) \<longleftrightarrow> Family a \<le> 25"
  by (auto simp: mon_base_def I2cBase_def)

text \<open>
  The buses the decoder is asked for: those of the command line (all for -1) whose pins are enabled.
  Where their registers are on the chips up to the AST2500, which is what the decoder assumes of
  every chip.
\<close>

definition asked :: "int \<Rightarrow> u32 \<Rightarrow> nat \<Rightarrow> bool" where
  "asked busno enabled i \<longleftrightarrow> (busno = - 1 \<or> word_of_int busno = (word_of_nat i :: u32)) \<and> bit enabled i"

definition bus_at :: "nat \<Rightarrow> int" where
  "bus_at i = (if i < 7 then 0x40 * int i + 0x40 else 0x40 * (int i - 7) + 0x300)"

text \<open>The reads of the control register of a bus, answered \<open>v\<close> and \<open>p\<close>, on a chip of family \<open>fam\<close>.\<close>

definition bus_reads :: "region \<Rightarrow> int \<Rightarrow> (nat \<Rightarrow> u32) \<Rightarrow> (nat \<Rightarrow> u32) \<Rightarrow> nat \<Rightarrow> event list" where
  "bus_reads r fam v p i = (Rd32 r (bus_at i), RU32 (v i)) #
     (if v i \<noteq> 0 \<and> fam < 25 then [(Rd32 r (bus_at i), RU32 (p i))] else [])"

definition bus_pool :: "int \<Rightarrow> (nat \<Rightarrow> u32) \<Rightarrow> nat \<Rightarrow> int" where
  "bus_pool fam p i = (if 25 \<le> fam then 0x200 + 16 * int i else 0x800 + uint (drop_bit 20 (p i) AND 7) * 0x100)"

lemma bit_enabled: "(w :: u32) AND push_bit i 1 \<noteq> 0 \<longleftrightarrow> bit w i"
  by (simp add: bit_iff_and_push_bit_not_eq_0)

lemma mon_base_at: "mon_base i = bus_at i"
  by (simp add: mon_base_def bus_at_def)

lemma one_bus_run:
  assumes "runs (if (busno = - 1 \<or> word_of_int busno = (word_of_nat i :: u32)) \<and> enabled AND push_bit i 1 \<noteq> 0
      then bind (read32 (I2c a) (mon_base i)) (\<lambda>v.
        if v \<noteq> 0 then bind (pool_base a i) (\<lambda>p. Ret (bus_mons raw a i p)) else Ret ([], []))
      else Ret ([], [])) tr (Done (ms, xs))"
  shows "\<exists>w q. tr = (if asked busno enabled i then bus_reads (I2c a) (Family a) (\<lambda>_. w) (\<lambda>_. q) i else []) \<and>
    (ms, xs) = (if asked busno enabled i \<and> w \<noteq> 0 then bus_mons raw a i (bus_pool (Family a) (\<lambda>_. q) i) else ([], []))"
proof (cases "asked busno enabled i")
  case False
  then have no: "\<not> ((busno = - 1 \<or> word_of_int busno = (word_of_nat i :: u32)) \<and> enabled AND push_bit i 1 \<noteq> 0)"
    unfolding asked_def bit_enabled .
  then show ?thesis using assms [unfolded if_not_P [OF no]] False by simp
next
  case True
  then have yes: "(busno = - 1 \<or> word_of_int busno = (word_of_nat i :: u32)) \<and> enabled AND push_bit i 1 \<noteq> 0"
    unfolding asked_def bit_enabled .
  from assms [unfolded if_P [OF yes]] have "runs (bind (read32 (I2c a) (mon_base i)) (\<lambda>v.
        if v \<noteq> 0 then bind (pool_base a i) (\<lambda>p. Ret (bus_mons raw a i p)) else Ret ([], []))) tr (Done (ms, xs))" .
  then obtain w tr' where w: "tr = (Rd32 (I2c a) (bus_at i), RU32 w) # tr'"
      "runs (if w \<noteq> 0 then bind (pool_base a i) (\<lambda>p. Ret (bus_mons raw a i p)) else Ret ([], [])) tr' (Done (ms, xs))"
    by (auto simp: mon_base_at)
  show ?thesis
  proof (cases "w \<noteq> 0 \<and> Family a < 25")
    case True
    then obtain q where "tr' = [(Rd32 (I2c a) (bus_at i), RU32 q)]"
        "(ms, xs) = bus_mons raw a i (bus_pool (Family a) (\<lambda>_. q) i)"
      using w(2) by (auto simp: pool_base_def bus_pool_def mon_base_at)
    then show ?thesis using w(1) True \<open>asked busno enabled i\<close>
      by (intro exI [of _ w] exI [of _ q]) (simp add: bus_reads_def)
  next
    case False
    then have "tr' = []" "(ms, xs) = (if w \<noteq> 0 then bus_mons raw a i (bus_pool (Family a) (\<lambda>_. 0) i) else ([], []))"
      using w(2) by (auto simp: pool_base_def bus_pool_def split: if_splits)
    then show ?thesis using w(1) False \<open>asked busno enabled i\<close>
      by (intro exI [of _ w] exI [of _ 0]) (simp add: bus_reads_def)
  qed
qed

lemma i2c_mons_run:
  assumes "runs (i2c_mons raw a busno enabled is) tr (Done (ms, xs))" "distinct is"
  shows "\<exists>v p. tr = concat (map (bus_reads (I2c a) (Family a) v p) (filter (asked busno enabled) is)) \<and>
    ms = concat (map (\<lambda>i. fst (bus_mons raw a i (bus_pool (Family a) p i)))
      (filter (\<lambda>i. v i \<noteq> 0) (filter (asked busno enabled) is))) \<and>
    xs = concat (map (\<lambda>i. snd (bus_mons raw a i (bus_pool (Family a) p i)))
      (filter (\<lambda>i. v i \<noteq> 0) (filter (asked busno enabled) is)))"
  using assms
proof (induction "is" arbitrary: tr ms xs)
  case (Cons i "is")
  from Cons.prems(1) obtain tr1 tr2 ms1 xs1 ms2 xs2 where t: "tr = tr1 @ tr2" "ms = ms1 @ ms2" "xs = xs1 @ xs2"
    and 1: "runs (if (busno = - 1 \<or> word_of_int busno = (word_of_nat i :: u32)) \<and> enabled AND push_bit i 1 \<noteq> 0
      then bind (read32 (I2c a) (mon_base i)) (\<lambda>v.
        if v \<noteq> 0 then bind (pool_base a i) (\<lambda>p. Ret (bus_mons raw a i p)) else Ret ([], []))
      else Ret ([], [])) tr1 (Done (ms1, xs1))"
    and 2: "runs (i2c_mons raw a busno enabled is) tr2 (Done (ms2, xs2))"
    unfolding i2c_mons.simps by (auto simp del: runs_bind_read32 elim!: runs_bindE split: prod.splits)
  from one_bus_run [OF 1] obtain w q where
    w: "tr1 = (if asked busno enabled i then bus_reads (I2c a) (Family a) (\<lambda>_. w) (\<lambda>_. q) i else [])"
      "(ms1, xs1) = (if asked busno enabled i \<and> w \<noteq> 0 then bus_mons raw a i (bus_pool (Family a) (\<lambda>_. q) i) else ([], []))"
    by blast
  from Cons.IH [OF 2] Cons.prems(2) obtain v p where
    IH: "tr2 = concat (map (bus_reads (I2c a) (Family a) v p) (filter (asked busno enabled) is))"
      "ms2 = concat (map (\<lambda>i. fst (bus_mons raw a i (bus_pool (Family a) p i)))
        (filter (\<lambda>i. v i \<noteq> 0) (filter (asked busno enabled) is)))"
      "xs2 = concat (map (\<lambda>i. snd (bus_mons raw a i (bus_pool (Family a) p i)))
        (filter (\<lambda>i. v i \<noteq> 0) (filter (asked busno enabled) is)))"
    by auto
  let ?v = "v(i := w)" and ?p = "p(i := q)"
  let ?is = "filter (asked busno enabled) is"
  have i: "i \<notin> set ?is" using Cons.prems(2) by simp
  have e1: "map (bus_reads (I2c a) (Family a) ?v ?p) ?is = map (bus_reads (I2c a) (Family a) v p) ?is"
    and e2: "filter (\<lambda>i. ?v i \<noteq> 0) ?is = filter (\<lambda>i. v i \<noteq> 0) ?is"
    using i by (auto simp: bus_reads_def intro!: map_cong filter_cong)
  have e3: "map (\<lambda>i. f (bus_mons raw a i (bus_pool (Family a) ?p i))) (filter P ?is) =
      map (\<lambda>i. f (bus_mons raw a i (bus_pool (Family a) p i))) (filter P ?is)" for f :: "_ \<Rightarrow> 'z list" and P
    using i by (intro map_cong) (auto simp: bus_pool_def)
  have e4: "bus_reads (I2c a) (Family a) ?v ?p i = bus_reads (I2c a) (Family a) (\<lambda>_. w) (\<lambda>_. q) i"
    and e5: "bus_pool (Family a) ?p i = bus_pool (Family a) (\<lambda>_. q) i"
    by (simp_all add: bus_reads_def bus_pool_def)
  have e6: "filter (\<lambda>i. ?v i \<noteq> 0) (filter (asked busno enabled) (i # is)) =
      (if asked busno enabled i \<and> w \<noteq> 0 then i # filter (\<lambda>i. v i \<noteq> 0) ?is else filter (\<lambda>i. v i \<noteq> 0) ?is)"
    by (cases "asked busno enabled i") (simp_all only: filter.simps fun_upd_same e2 if_True if_False simp_thms)
  have m1: "ms1 = (if asked busno enabled i \<and> w \<noteq> 0 then fst (bus_mons raw a i (bus_pool (Family a) (\<lambda>_. q) i)) else [])"
    using w(2) by (cases "asked busno enabled i \<and> w \<noteq> 0") (simp_all only: if_True if_False prod.inject, metis fst_conv)
  have x1: "xs1 = (if asked busno enabled i \<and> w \<noteq> 0 then snd (bus_mons raw a i (bus_pool (Family a) (\<lambda>_. q) i)) else [])"
    using w(2) by (cases "asked busno enabled i \<and> w \<noteq> 0") (simp_all only: if_True if_False prod.inject, metis snd_conv)
  have "tr = concat (map (bus_reads (I2c a) (Family a) ?v ?p) (filter (asked busno enabled) (i # is)))"
    using t(1) w(1) IH(1) by (cases "asked busno enabled i")
      (simp_all only: filter.simps if_True if_False list.map concat.simps append_Nil e1 e4)
  moreover have "ms = concat (map (\<lambda>i. fst (bus_mons raw a i (bus_pool (Family a) ?p i)))
      (filter (\<lambda>i. ?v i \<noteq> 0) (filter (asked busno enabled) (i # is))))"
    unfolding e6 using t(2) m1 IH(2) by (cases "asked busno enabled i \<and> w \<noteq> 0")
      (simp_all only: if_True if_False list.map concat.simps append_Nil simp_thms e3 [of fst] e5)
  moreover have "xs = concat (map (\<lambda>i. snd (bus_mons raw a i (bus_pool (Family a) ?p i)))
      (filter (\<lambda>i. ?v i \<noteq> 0) (filter (asked busno enabled) (i # is))))"
    unfolding e6 using t(3) x1 IH(3) by (cases "asked busno enabled i \<and> w \<noteq> 0")
      (simp_all only: if_True if_False list.map concat.simps append_Nil simp_thms e3 [of snd] e5)
  ultimately show ?case by blast
qed simp

text \<open>
  Property C19. The registers the I2C decoder watches, exactly. Of the buses that were asked for and
  are enabled it reads the control register, in order (twice on an AST2400 when it is not zero);
  those whose register is zero are left out. In decoding mode each of the others has one monitor,
  of the command register 0x14 bytes after the base of the bus with all but its bits 19 to 22
  masked, and one context, which starts empty with the number of the bus and the base of its
  buffer pool; in raw mode it has monitors of its six registers from 0x14 on, and no context. The
  addresses are those of the chips up to the AST2500, whatever the chip.
\<close>

theorem i2c_mons_registers:
  assumes "runs (i2c_mons raw a busno enabled [0..<14]) tr (Done (ms, xs))"
  shows "\<exists>v p. let wanted = filter (asked busno enabled) [0..<14]; on = filter (\<lambda>i. v i \<noteq> 0) wanted;
      mon = (\<lambda>off msk. \<lparr>M = I2c a, Off = off, Mask = msk, OldVal = 0, OldValid = False\<rparr>)
    in tr = concat (map (bus_reads (I2c a) (Family a) v p) wanted) \<and>
      (if raw
       then ms = concat (map (\<lambda>i. map (\<lambda>off. mon (bus_at i + off) 0) [0x14, 0x18, 0x1c, 0x20, 0x24, 0x28]) on) \<and> xs = []
       else ms = map (\<lambda>i. mon (bus_at i + 0x14) 0xff87ffff) on \<and>
         xs = map (\<lambda>i. \<lparr>poolBase = bus_pool (Family a) p i, dmaAddr = 0, dmaLen = 0, rx = False, cCmd = 0,
           rbytes = 0, cBus = int i\<rparr>) on)"
proof -
  obtain v p where vp: "tr = concat (map (bus_reads (I2c a) (Family a) v p) (filter (asked busno enabled) [0..<14]))"
    "ms = concat (map (\<lambda>i. fst (bus_mons raw a i (bus_pool (Family a) p i)))
      (filter (\<lambda>i. v i \<noteq> 0) (filter (asked busno enabled) [0..<14])))"
    "xs = concat (map (\<lambda>i. snd (bus_mons raw a i (bus_pool (Family a) p i)))
      (filter (\<lambda>i. v i \<noteq> 0) (filter (asked busno enabled) [0..<14])))"
    using i2c_mons_run [OF assms] by auto
  have "concat (map (\<lambda>i. [f i]) ls) = map f ls" "concat (map (\<lambda>i. []) ls) = []" for f :: "nat \<Rightarrow> 'z" and ls
    by (induction ls) simp_all
  then show ?thesis
    unfolding Let_def vp by (intro exI [of _ v] exI [of _ p])
      (simp add: bus_mons_def mon_at_def mon_base_at)
qed

theorem i2c_mons_registers_witness:
  "\<exists>tr v p xs. runs (i2c_mons False (host_handle 25) (- 1) 0xc [0..<14]) tr
       (Done (map (\<lambda>i. \<lparr>M = I2c (host_handle 25), Off = bus_at i + 0x14, Mask = 0xff87ffff, OldVal = 0, OldValid = False\<rparr>)
         (filter (\<lambda>i. v i \<noteq> 0) [2, 3]), xs)) \<and>
     tr = bus_reads (I2c (host_handle 25)) 25 v p 2 @ bus_reads (I2c (host_handle 25)) 25 v p 3"
proof -
  let ?p = "i2c_mons False (host_handle 25) (- 1) 0xc [0..<14]"
  have "case fst (exec (\<lambda>q s. (Inr (case q of Rd32 _ _ \<Rightarrow> RU32 1 | _ \<Rightarrow> RUnit), s)) ?p ()) of
      Done (ms, xs) \<Rightarrow> length ms = 2 | Failed e \<Rightarrow> False"
    by code_simp
  then obtain ms xs u where e: "exec (\<lambda>q s. (Inr (case q of Rd32 _ _ \<Rightarrow> RU32 1 | _ \<Rightarrow> RUnit), s)) ?p () = (Done (ms, xs), u)"
    by (cases "exec (\<lambda>q s. (Inr (case q of Rd32 _ _ \<Rightarrow> RU32 1 | _ \<Rightarrow> RUnit), s)) ?p ()") (auto split: outcome.splits)
  from exec_done_runs [OF e] obtain tr where r: "runs ?p tr (Done (ms, xs))" ..
  have "filter (asked (- 1) 0xc) [0..<14] = [2, 3]" by code_simp
  with i2c_mons_registers [OF r] obtain v p where
    "ms = map (\<lambda>i. \<lparr>M = I2c (host_handle 25), Off = bus_at i + 0x14, Mask = 0xff87ffff, OldVal = 0, OldValid = False\<rparr>)
      (filter (\<lambda>i. v i \<noteq> 0) [2, 3])"
    "tr = bus_reads (I2c (host_handle 25)) 25 v p 2 @ bus_reads (I2c (host_handle 25)) 25 v p 3"
    by (auto simp: Let_def simp del: filter.simps)
  with r show ?thesis by blast
qed

text \<open>The byte of a word that is printed, and the counter in the change.\<close>

lemma low_bits: "take_bit 2 (take_bit 8 (n + 1) - 1) = take_bit 2 (n :: u32)"
proof transfer
  fix n :: int
  have "((n + 1) mod 256 - 1) mod 4 = ((n + 1) mod 256 mod 4 - 1) mod 4" by (simp add: mod_diff_left_eq)
  also have "\<dots> = n mod 4" by (simp add: mod_mod_cancel mod_diff_left_eq)
  finally have "((n + 1) mod 256 - 1) mod 4 = n mod 4" .
  then show "take_bit LENGTH(32) (take_bit (min LENGTH(32) 2) (take_bit (min LENGTH(32) 8) (n + 1) - 1))
      = take_bit LENGTH(32) (take_bit (min LENGTH(32) 2) n)"
    by (simp add: take_bit_eq_mod)
qed

lemma count_byte:
  "drop_bit 24 (push_bit 24 (n + 1)) AND 0x1f = (n + 1) AND (0x1f :: u32)"
  "(drop_bit 24 (push_bit 24 (n + 1)) - 1) AND 3 = n AND (3 :: u32)"
proof -
  have m: "(0x1f :: u32) = mask 5" "(3 :: u32) = mask 2" by (simp_all add: mask_eq_exp_minus_1)
  have p: "drop_bit 24 (push_bit 24 w) = take_bit 8 (w :: u32)" for w
    by (rule bit_eqI) (auto simp: bit_simps dest: bit_imp_le_length)
  show "drop_bit 24 (push_bit 24 (n + 1)) AND 0x1f = (n + 1) AND (0x1f :: u32)"
    by (simp add: p m take_bit_eq_mask [symmetric])
  show "(drop_bit 24 (push_bit 24 (n + 1)) - 1) AND 3 = n AND (3 :: u32)"
    using low_bits [of n] by (simp add: p m take_bit_eq_mask [symmetric])
qed


lemma dma_place: "(a + n) AND 3 = n AND 3 \<longleftrightarrow> a AND (3 :: u32) = 0"
proof -
  have m: "w AND (3 :: u32) = take_bit 2 w" for w
    by (simp add: take_bit_eq_mask mask_eq_exp_minus_1)
  show ?thesis unfolding m
  proof transfer
    fix a n :: int
    have "(a + n) mod 4 = n mod 4 \<longleftrightarrow> a mod 4 = 0" by presburger
    then show "take_bit LENGTH(32) (take_bit (min LENGTH(32) 2) (a + n)) = take_bit LENGTH(32) (take_bit (min LENGTH(32) 2) n)
      \<longleftrightarrow> take_bit LENGTH(32) (take_bit (min LENGTH(32) 2) a) = take_bit LENGTH(32) 0"
      by (simp add: take_bit_eq_mod)
  qed
qed

text \<open>
  Property C18. Decoding a byte received by DMA: the decoder reads the aligned DRAM word that
  holds the byte of address \<open>dmaAddr + rbytes\<close> and counts it, but prints the byte whose place in
  that word is \<open>rbytes\<close> modulo 4. That is the received byte only if the DMA buffer is aligned to
  words; and at every 32nd byte the process ends instead.
\<close>

theorem dma_byte:
  assumes "i2c_state c = MTXACK" "i2c_cmd c \<in> {0x98, 0x238, 0x20}" "cCmd ctxt \<in> {0x238, 0x20}"
    and "rx ctxt" "rbytes ctxt < dmaLen ctxt"
    and "runs (bind (extra_one i2c dr c ctxt) (\<lambda>(c', ctxt'). seq (smart_one ctxt' c') (Ret ctxt'))) tr out"
  shows "\<exists>v tr'. tr = (Rd32 dr (uint ((dmaAddr ctxt + rbytes ctxt) AND NOT 3)), RU32 v) # tr' \<and>
     (if (rbytes ctxt + 1) AND 0x1f = 0 then tr' = [] \<and> (\<exists>m a. out = Failed (Fatal m a))
      else tr' = [(Print ''R%d %02x '' [AI (cBus ctxt), AW (put32 v ! unat (rbytes ctxt AND 3))], RUnit)] \<and>
        out = Done (ctxt\<lparr>rbytes := rbytes ctxt + 1\<rparr>)) \<and>
     ((dmaAddr ctxt + rbytes ctxt) AND 3 = rbytes ctxt AND 3 \<longleftrightarrow> dmaAddr ctxt AND 3 = 0)"
proof -
  let ?word = "\<lambda>v. (push_bit 24 (rbytes ctxt + 1), v, 0xffffffff)"
  have st: "MTXACK \<noteq> MRX" "MTXACK \<noteq> MTXD" by (simp_all add: MTXACK_def MRX_def MTXD_def)
  have extra: "extra_one i2c dr c ctxt =
    bind (read32 dr (uint ((dmaAddr ctxt + rbytes ctxt) AND NOT 3))) (\<lambda>v.
      Ret (c\<lparr>Aux := ?word v\<rparr>, ctxt\<lparr>rbytes := rbytes ctxt + 1\<rparr>))"
    using assms(1,3-5) st by (auto simp: extra_one_def Let_def split: prod.splits)
  have smart: "smart_one (ctxt\<lparr>rbytes := n\<rparr>) (c\<lparr>Aux := ?word v\<rparr>) =
     (if (rbytes ctxt + 1) AND 0x1f = 0
      then Fail (Fatal ''MTXACK state: bufpool ptrs = %#08x'' [AW (push_bit 24 (rbytes ctxt + 1))])
      else print ''R%d %02x '' [AI (cBus ctxt), AW (put32 v ! unat (rbytes ctxt AND 3))])" for n v
    using assms(1,2) st count_byte [of "rbytes ctxt"]
    by (auto simp: smart_one_def Let_def i2c_state_def i2c_cmd_def)
  show ?thesis
    using assms(6) dma_place [of "dmaAddr ctxt" "rbytes ctxt"]
    unfolding extra by (auto simp: smart split: if_splits)
qed

theorem dma_byte_witness:
  "\<exists>tr v. runs (bind (extra_one (AstMem [] 0 64) (AstMem [] 64 64)
       \<lparr>Time = 0, Bank = [], Addr = 0x54, Old = 0, New = 0x780238, Delay = 0, cMask = 0, Aux = (0, 0, 0), Mon = 0\<rparr>
       \<lparr>poolBase = 0, dmaAddr = 1, dmaLen = 8, rx = True, cCmd = 0x238, rbytes = 0, cBus = 3\<rparr>)
       (\<lambda>(c', ctxt'). seq (smart_one ctxt' c') (Ret ctxt')))
     [(Rd32 (AstMem [] 64 64) 0, RU32 v), (Print ''R%d %02x '' [AI 3, AW (put32 v ! 0)], RUnit)] tr"
proof -
  let ?c = "\<lparr>Time = 0, Bank = [], Addr = 0x54, Old = 0, New = 0x780238, Delay = 0, cMask = 0, Aux = (0, 0, 0), Mon = 0\<rparr>"
  let ?x = "\<lparr>poolBase = 0, dmaAddr = 1, dmaLen = 8, rx = True, cCmd = 0x238, rbytes = 0, cBus = 3\<rparr>"
  let ?p = "bind (extra_one (AstMem [] 0 64) (AstMem [] 64 64) ?c ?x) (\<lambda>(c', ctxt'). seq (smart_one ctxt' c') (Ret ctxt'))"
  have h: "i2c_state ?c = MTXACK" "i2c_cmd ?c \<in> {0x98, 0x238, 0x20}" "cCmd ?x \<in> {0x238, 0x20}"
    "rx ?x" "rbytes ?x < dmaLen ?x"
    by (simp_all add: i2c_state_def i2c_cmd_def MTXACK_def)
  obtain tr out where r: "runs ?p tr out" using runs_exists by blast
  from dma_byte [OF h r] r show ?thesis by auto
qed

end
