(* ===== verification/Pcimon.thy ===== *)
theory Pcimon
  imports Pci
begin

text \<open>
  The PCIe link monitor (cmds/pcimon/pcimon.go): reading and clearing the error registers of
  devices, listing the links with their negotiated and possible speeds, and polling the links
  for errors, the ones that recently had some at a higher rate.

  The monitor's own record of a device is kept by the index of the device, as \<open>App\<close> points to
  it: the ports that have a link child and the children are different devices (their types
  differ, theorem \<open>PciInit_world\<close>), so no record is shared. The counters are \<open>int64\<close> and are
  not made to wrap. Of the printed rates the count and the duration are kept, not the quotient.
\<close>

section \<open>Settings and records\<close>

record pcimon_flags =
  aerUncUrMask :: u32
  aerCorrUrMask :: u32
  devExpErrMask :: u16
  verbose :: bool

definition default_flags :: pcimon_flags where
  "default_flags = \<lparr>aerUncUrMask = push_bit 20 1, aerCorrUrMask = push_bit 13 1 OR push_bit 15 1,
     devExpErrMask = 0x9, verbose = False\<rparr>"

record AppDev =
  errs :: int
  corrErrs :: "int list"
  uncErrs :: "int list"

definition new_app :: AppDev where
  "new_app = \<lparr>errs = 0, corrErrs = replicate 32 0, uncErrs = replicate 32 0\<rparr>"

type_synonym apps = "nat \<rightharpoonup> AppDev"

definition aerCorrErrDesc :: "(nat \<times> string) list" where
  "aerCorrErrDesc = [(0, ''rcv-error''), (6, ''bad-tlp''), (7, ''bad-dllp''),
     (8, ''replay-rollover''), (12, ''replay-timer''), (13, ''advisory-nf''), (15, ''log-overflow'')]"

definition aerUncErrDesc :: "(nat \<times> string) list" where
  "aerUncErrDesc = [(4, ''data-link-error''), (5, ''surprise-down''), (12, ''poisoned-tlp''),
     (13, ''flow-ctl''), (14, ''cpl-timeout''), (15, ''cpl-abort''),
     (16, ''unexp-cpl''), (17, ''rcv-overflow''), (18, ''malformed-tlp''), (20, ''UR''), (21, ''ACS-err'')]"

definition pciExpErrDesc :: "(nat \<times> string) list" where
  "pciExpErrDesc = [(0, ''corr''), (1, ''nonFatal''), (2, ''Fatal''), (3, ''UR'')]"

section \<open>Counting errors\<close>

text \<open>The loop over the bits of a status word, from bit \<open>i\<close> on: the counters and the number found.\<close>

function count_errs :: "nat \<Rightarrow> u32 \<Rightarrow> int list \<Rightarrow> int list \<times> int" where
  "count_errs i err cs =
     (if err = 0 then (cs, 0)
      else let one = err AND 1 \<noteq> 0;
               (cs', n) = count_errs (Suc i) (drop_bit 1 err) (if one then cs[i := cs ! i + 1] else cs)
           in (cs', n + of_bool one))"
  by auto
termination
proof (relation "measure (\<lambda>(i, err, cs). unat err)")
  fix i :: nat and err :: u32 and cs :: "int list"
  assume "err \<noteq> 0"
  then have "0 < unat err" by (simp add: unat_gt_0)
  then show "((Suc i, drop_bit 1 err, if one then cs[i := cs ! i + 1] else cs), i, err, cs)
      \<in> measure (\<lambda>(i, err, cs). unat err)" for one
    by (simp add: drop_bit_eq_div unat_div)
qed simp

declare count_errs.simps [simp del]

definition aer :: "PciDev \<Rightarrow> int" where
  "aer d = at (Ecap d) PCI_ECAP_ID_AER"

text \<open>
  The two halves of \<open>errPoll\<close> are the same code on the two status registers: clear the unmasked
  bits that are set, and count them.
\<close>

definition poll_reg :: "PciDev \<Rightarrow> int \<Rightarrow> u32 \<Rightarrow> int list \<Rightarrow> (int list \<times> int) io" where
  "poll_reg d off msk cs =
     bind (PciRead32 d off) (\<lambda>v.
       let err = v AND NOT msk
       in if err \<noteq> 0 then seq (PciWrite32 d off err) (Ret (count_errs 0 err cs))
          else Ret (cs, 0))"

definition errPoll :: "pcimon_flags \<Rightarrow> PciDev \<Rightarrow> AppDev \<Rightarrow> (int \<times> AppDev) io" where
  "errPoll k d a =
     bind (poll_reg d (aer d + 0x10) (aerCorrUrMask k) (corrErrs a)) (\<lambda>(cs, n1).
       let a = a\<lparr>corrErrs := cs, errs := errs a + n1\<rparr>
       in bind (poll_reg d (aer d + 0x4) (aerUncUrMask k) (uncErrs a)) (\<lambda>(us, n2).
            Ret (n1 + n2, a\<lparr>uncErrs := us, errs := errs a + n2\<rparr>)))"

text \<open>One line per counter that is not zero; an undescribed bit is named by its type and number.\<close>

definition statsGen :: "int \<Rightarrow> int list \<Rightarrow> (nat \<times> string) list \<Rightarrow> string \<Rightarrow> unit io" where
  "statsGen duration es desc errType =
     forM [0..<32] (\<lambda>i.
       whenM (0 < es ! i)
         (let errDesc = (case map_of desc i of Some s \<Rightarrow> s | None \<Rightarrow> errType @ ''-'' @ dec_str i)
          in print ''    %s, count=%d: rate=%g err/s'' [AS errDesc, AI (es ! i), AI duration]))"

definition stats :: "PciDev \<Rightarrow> AppDev \<Rightarrow> int \<Rightarrow> unit io" where
  "stats d a duration =
     seq (print ''%s:'' [AS (Path d)])
       (seq (statsGen duration (corrErrs a) aerCorrErrDesc ''corr'')
         (seq (statsGen duration (uncErrs a) aerUncErrDesc ''unc'')
           (print '''' [])))"

section \<open>Links\<close>

text \<open>The exceptions of the code: a root port without AER, and internal links.\<close>

definition upQual :: "PciDev \<Rightarrow> bool \<Rightarrow> bool" where
  "upQual d aerOnly \<longleftrightarrow>
     (0 < aer d \<and> (Vendor d \<noteq> 0x1022 \<or> Device d \<noteq> 0x1484)) \<or>
     (\<not> aerOnly \<and> Vendor d = 0x1022 \<and> Device d = 0x1483)"

definition speed_str :: "string \<Rightarrow> int \<Rightarrow> int \<Rightarrow> string" where
  "speed_str s width speed = s @ int_str width @ ''.gen'' @ int_str speed"

text \<open>What is printed about a link after its two names: a mismatch and the capabilities.\<close>

definition buggy :: "PciDev \<Rightarrow> PciDev \<Rightarrow> bool" where
  "buggy d c \<longleftrightarrow> LnkWidth c \<noteq> LnkWidth d \<or> LnkSpeed c \<noteq> LnkSpeed d \<or>
     LnkWidth d \<noteq> min (LnkCapWidth d) (LnkCapWidth c) \<or> LnkSpeed d \<noteq> min (LnkCapSpeed d) (LnkCapSpeed c)"

definition link_other :: "bool \<Rightarrow> PciDev \<Rightarrow> PciDev \<Rightarrow> string" where
  "link_other verb d c =
     (if LnkWidth c \<noteq> LnkWidth d \<or> LnkSpeed c \<noteq> LnkSpeed d
      then speed_str ''down=x'' (LnkWidth c) (LnkSpeed c) @ '' '' else '''') @
     (if buggy d c \<or> verb
      then speed_str ''upcap=x'' (LnkCapWidth d) (LnkCapSpeed d) @ '' '' @
           speed_str ''downcap=x'' (LnkCapWidth c) (LnkCapSpeed c) else '''')"

text \<open>One turn of \<open>showLinks\<close>: the device \<open>i\<close>, if it is a link to show, is queried and listed.\<close>

definition show_link :: "pcimon_flags \<Rightarrow> bool \<Rightarrow> nat \<Rightarrow> World \<Rightarrow> apps \<Rightarrow> (nat list \<times> World \<times> apps) io" where
  "show_link k aerOnly i w ap =
     (case LnkChild (dev w i) of
        None \<Rightarrow> Ret ([], w, ap)
      | Some j \<Rightarrow>
          seq (whenM (verbose k) (print ''%s:%d:%d'' [AS (Name (dev w i)), AI (aer (dev w i)), AI (aer (dev w j))]))
            (if upQual (dev w i) aerOnly \<and> 0 < aer (dev w j)
             then bind (GetSpeed (dev w i)) (\<lambda>d.
               let w = upd i (\<lambda>_. d) w
               in bind (GetSpeed (dev w j)) (\<lambda>c.
                 let w = upd j (\<lambda>_. c) w;
                     d = dev w i
                 in seq (print ''%s (%s <-> %s)  (x%d.gen%d) %s''
                      [AS (Path c), AS (Name d), AS (Name c), AI (LnkWidth d), AI (LnkSpeed d),
                       AS (link_other (verbose k) d c)])
                    (Ret ([i], w, ap(i \<mapsto> new_app, j \<mapsto> new_app)))))
             else Ret ([], w, ap)))"

fun show_loop :: "pcimon_flags \<Rightarrow> bool \<Rightarrow> nat list \<Rightarrow> World \<Rightarrow> apps \<Rightarrow> (nat list \<times> World \<times> apps) io" where
  "show_loop k aerOnly [] w ap = Ret ([], w, ap)"
| "show_loop k aerOnly (i # is) w ap =
     bind (show_link k aerOnly i w ap) (\<lambda>(l, w, ap).
       bind (show_loop k aerOnly is w ap) (\<lambda>(ls, w, ap). Ret (l @ ls, w, ap)))"

definition showLinks :: "pcimon_flags \<Rightarrow> bool \<Rightarrow> World \<Rightarrow> (nat list \<times> World \<times> apps) io" where
  "showLinks k aerOnly w = show_loop k aerOnly (Devs w) w Map.empty"

section \<open>Monitoring\<close>

text \<open>\<open>errPoll\<close> on the record of a device; a missing record fails the type assertion of \<open>Child\<close>.\<close>

definition poll_app :: "pcimon_flags \<Rightarrow> World \<Rightarrow> nat \<Rightarrow> apps \<Rightarrow> (int \<times> apps) io" where
  "poll_app k w i ap =
     (case ap i of
        None \<Rightarrow> Fail (Panic ''interface conversion'')
      | Some a \<Rightarrow> bind (errPoll k (dev w i) a) (\<lambda>(n, a). Ret (n, ap(i \<mapsto> a))))"

definition Child :: "World \<Rightarrow> nat \<Rightarrow> nat io" where
  "Child w i = (case LnkChild (dev w i) of
     Some j \<Rightarrow> Ret j | None \<Rightarrow> Fail (Panic ''nil pointer dereference''))"

definition poll_link :: "pcimon_flags \<Rightarrow> World \<Rightarrow> nat \<Rightarrow> apps \<Rightarrow> (int \<times> apps) io" where
  "poll_link k w i ap =
     bind (poll_app k w i ap) (\<lambda>(n1, ap).
       bind (Child w i) (\<lambda>j.
         bind (poll_app k w j ap) (\<lambda>(n2, ap). Ret (n1 + n2, ap))))"

text \<open>The first phase of an iteration: all links, and which of them to poll again.\<close>

fun poll_all :: "pcimon_flags \<Rightarrow> World \<Rightarrow> nat list \<Rightarrow> (nat \<Rightarrow> bool) \<Rightarrow> apps
    \<Rightarrow> (int \<times> nat list \<times> (nat \<Rightarrow> bool) \<times> apps) io" where
  "poll_all k w [] prev ap = Ret (0, [], prev, ap)"
| "poll_all k w (i # is) prev ap =
     bind (poll_link k w i ap) (\<lambda>(n, ap).
       bind (poll_all k w is (prev(i := 0 < n)) ap) (\<lambda>(m, ls, prev', ap).
         Ret (n + m, (if 0 < n \<or> prev i then i # ls else ls), prev', ap)))"

text \<open>The second phase: the links with errors, again and again for a second.\<close>

fun poll_some :: "pcimon_flags \<Rightarrow> World \<Rightarrow> nat list \<Rightarrow> (nat \<Rightarrow> bool) \<Rightarrow> apps
    \<Rightarrow> (int \<times> (nat \<Rightarrow> bool) \<times> apps) io" where
  "poll_some k w [] prev ap = Ret (0, prev, ap)"
| "poll_some k w (i # is) prev ap =
     bind (poll_link k w i ap) (\<lambda>(n, ap).
       bind (poll_some k w is (if 0 < n then prev(i := True) else prev) ap) (\<lambda>(m, prev, ap).
         Ret (n + m, prev, ap)))"

fun fast_loop :: "nat \<Rightarrow> pcimon_flags \<Rightarrow> World \<Rightarrow> int \<Rightarrow> int \<Rightarrow> nat list \<Rightarrow> int \<Rightarrow> (nat \<Rightarrow> bool) \<Rightarrow> apps
    \<Rightarrow> (int \<times> (nat \<Rightarrow> bool) \<times> apps) io" where
  "fast_loop 0 k w start delay ls errors prev ap = Fail OutOfFuel"
| "fast_loop (Suc n) k w start delay ls errors prev ap =
     bind now (\<lambda>t.
       if start + 1000000000 < t then Ret (errors, prev, ap)
       else bind (poll_some k w ls prev ap) (\<lambda>(m, prev, ap).
         seq (sleep delay) (fast_loop n k w start delay ls (errors + m) prev ap)))"

definition mon_turn :: "config \<Rightarrow> pcimon_flags \<Rightarrow> World \<Rightarrow> int \<Rightarrow> nat list \<Rightarrow> int \<times> (nat \<Rightarrow> bool) \<times> apps
    \<Rightarrow> (int \<times> (nat \<Rightarrow> bool) \<times> apps) io" where
  "mon_turn cfg k w delay links s =
     (case s of (tot, prev, ap) \<Rightarrow>
        bind (poll_all k w links prev ap) (\<lambda>(errors, ls, prev, ap).
          bind now (\<lambda>start.
            bind (if ls \<noteq> [] then fast_loop (fuel cfg) k w start delay ls errors prev ap
                  else seq (sleep (if 1000000000 < delay then delay else 1000000000)) (Ret (errors, prev, ap)))
              (\<lambda>(errors, prev, ap).
                 seq (print ''Errors=%d (total=%d)'' [AI errors, AI (tot + errors)])
                   (Ret (tot + errors, prev, ap))))))"

fun mon_turns :: "nat \<Rightarrow> config \<Rightarrow> pcimon_flags \<Rightarrow> World \<Rightarrow> int \<Rightarrow> nat list \<Rightarrow> int \<Rightarrow> int
    \<Rightarrow> int \<times> (nat \<Rightarrow> bool) \<times> apps \<Rightarrow> (int \<times> (nat \<Rightarrow> bool) \<times> apps) io" where
  "mon_turns 0 cfg k w delay links i nbIter s =
     (if i < nbIter \<or> nbIter = -1 then Fail OutOfFuel else Ret s)"
| "mon_turns (Suc n) cfg k w delay links i nbIter s =
     (if i < nbIter \<or> nbIter = -1
      then bind (mon_turn cfg k w delay links s) (mon_turns n cfg k w delay links (i + 1) nbIter)
      else Ret s)"

text \<open>The report at the end: the links, then their other ends, that had errors.\<close>

definition final_stats :: "World \<Rightarrow> apps \<Rightarrow> int \<Rightarrow> nat \<Rightarrow> unit io" where
  "final_stats w ap duration i =
     (case ap i of
        None \<Rightarrow> Fail (Panic ''interface conversion'')
      | Some a \<Rightarrow>
          seq (whenM (0 < errs a) (stats (dev w i) a duration))
            (bind (Child w i) (\<lambda>j.
              (case ap j of
                 None \<Rightarrow> Fail (Panic ''interface conversion'')
               | Some b \<Rightarrow> whenM (0 < errs b) (stats (dev w j) b duration)))))"

definition monLinks :: "config \<Rightarrow> pcimon_flags \<Rightarrow> World \<Rightarrow> int \<Rightarrow> int \<Rightarrow> World io" where
  "monLinks cfg k w nbIter delay =
     bind (showLinks k True w) (\<lambda>(links, w, ap).
       seq (print ''Monitoring %d links'' [AI (int (length links))])
         (bind now (\<lambda>globalStart.
           bind (mon_turns (fuel cfg) cfg k w delay links 0 nbIter (0, \<lambda>_. False, ap)) (\<lambda>(tot, prev, ap).
             bind now (\<lambda>t.
               seq (forM links (final_stats w ap (t - globalStart))) (Ret w))))))"

section \<open>Browsing errors\<close>

text \<open>The words of a status, lowest bit first.\<close>

function bit_status :: "nat \<Rightarrow> u64 \<Rightarrow> (nat \<times> string) list \<Rightarrow> string" where
  "bit_status i val desc =
     (if val = 0 then ''''
      else (if val AND 1 \<noteq> 0
            then (case map_of desc i of Some s \<Rightarrow> s @ ''+ '' | None \<Rightarrow> ''bit-'' @ dec_str i @ '' '')
            else '''') @ bit_status (Suc i) (drop_bit 1 val) desc)"
  by auto
termination
proof (relation "measure (\<lambda>(i, val, desc). unat val)")
  fix i :: nat and val :: u64 and desc :: "(nat \<times> string) list"
  assume "val \<noteq> 0"
  then have "0 < unat val" by (simp add: unat_gt_0)
  then show "((Suc i, drop_bit 1 val, desc), i, val, desc) \<in> measure (\<lambda>(i, val, desc). unat val)"
    by (simp add: drop_bit_eq_div unat_div)
qed simp

declare bit_status.simps [simp del]

definition bitStatus :: "u64 \<Rightarrow> (nat \<times> string) list \<Rightarrow> string" where
  "bitStatus val desc = bit_status 0 val desc"

text \<open>The four registers of a device in turn; each adds a line to the report.\<close>

definition browse_serr :: "PciDev \<Rightarrow> bool \<Rightarrow> string list io" where
  "browse_serr d clear =
     bind (PciStatus d) (\<lambda>st.
       if st AND PCI_STATUS_SERR \<noteq> 0
       then seq (whenM clear (PciWrite16 d PCI_STATUS PCI_STATUS_SERR)) (Ret [''Sta: SERR''])
       else Ret [])"

definition browse_exp :: "pcimon_flags \<Rightarrow> PciDev \<Rightarrow> bool \<Rightarrow> string list io" where
  "browse_exp k d clear =
     (if 0 < at (Ocap d) PCI_CAP_ID_EXP
      then let devStatReg = at (Ocap d) PCI_CAP_ID_EXP + 0xa
           in bind (PciRead16 d devStatReg) (\<lambda>v.
             let eStat = (v AND 0xf) AND NOT (devExpErrMask k)
             in if eStat \<noteq> 0
                then seq (whenM clear (PciWrite16 d devStatReg eStat))
                  (Ret [''DevExtSta: '' @ bitStatus (ucast eStat) pciExpErrDesc])
                else Ret [])
      else Ret [])"

definition browse_aer :: "string \<Rightarrow> PciDev \<Rightarrow> int \<Rightarrow> u32 \<Rightarrow> (nat \<times> string) list \<Rightarrow> bool \<Rightarrow> string list io" where
  "browse_aer title d off msk desc clear =
     bind (PciRead32 d off) (\<lambda>v.
       let eStat = v AND NOT msk
       in if eStat \<noteq> 0
          then seq (whenM clear (PciWrite32 d off eStat)) (Ret [title @ bitStatus (ucast eStat) desc])
          else Ret [])"

definition browse_dev :: "pcimon_flags \<Rightarrow> bool \<Rightarrow> PciDev \<Rightarrow> unit io" where
  "browse_dev k clear d =
     bind (browse_serr d clear) (\<lambda>r1.
     bind (browse_exp k d clear) (\<lambda>r2.
     bind (if 0 < aer d
           then bind (browse_aer ''AerUncSta: '' d (aer d + 0x4) (aerUncUrMask k) aerUncErrDesc clear) (\<lambda>u.
             bind (browse_aer ''AerCorrSta: '' d (aer d + 0x10) (aerCorrUrMask k) aerCorrErrDesc clear) (\<lambda>c.
               Ret (u @ c)))
           else Ret []) (\<lambda>r3.
       let report = r1 @ r2 @ r3
       in whenM (report \<noteq> [])
            (seq (print ''%s (%s):'' [AS (Path d), AS (Name d)])
              (forM report (\<lambda>s. print ''    %s'' [AS s]))))))"

definition errBrowse :: "pcimon_flags \<Rightarrow> World \<Rightarrow> bool \<Rightarrow> unit io" where
  "errBrowse k w clear = forM (Devs w) (\<lambda>i. browse_dev k clear (dev w i))"

section \<open>The command\<close>

record pcimon_opts =
  delayOpt :: int \<comment> \<open>nanoseconds\<close>
  nbIterOpt :: int
  monLinkOpt :: bool
  errShowOpt :: bool
  clearErrOpt :: bool
  optReportUR :: bool
  verboseOpt :: bool

definition pcimon_Main :: "config \<Rightarrow> pcimon_opts \<Rightarrow> unit io" where
  "pcimon_Main cfg opts =
     (let k = (if optReportUR opts
               then \<lparr>aerUncUrMask = 0, aerCorrUrMask = 0, devExpErrMask = 0, verbose = verboseOpt opts\<rparr>
               else default_flags\<lparr>verbose := verboseOpt opts\<rparr>)
      in bind (PciInit cfg) (\<lambda>w.
        bind (if monLinkOpt opts then monLinks cfg k w (nbIterOpt opts) (delayOpt opts) else Ret w) (\<lambda>w.
        seq (whenM (errShowOpt opts) (errBrowse k w True))
       (seq (whenM (clearErrOpt opts) (errBrowse k w True))
         (if \<not> monLinkOpt opts \<and> \<not> errShowOpt opts \<and> \<not> clearErrOpt opts
          then bind (showLinks k False w) (\<lambda>_. Ret ())
          else Ret ())))))"

section \<open>A poll counts every error once\<close>

lemma odd_iff_and_1: "(w :: 'a::len word) AND 1 \<noteq> 0 \<longleftrightarrow> bit w 0"
  by (simp add: bit_0 and_one_eq odd_iff_mod_2_eq_one)

lemma card_bits_step:
  "card {p. bit (w :: u32) p} = of_bool (bit w 0) + card {p. bit (drop_bit 1 w) p}"
proof -
  have fin: "finite {p. bit (drop_bit 1 w) p}"
    by (rule finite_subset [of _ "{..<32}"]) (auto dest: bit_imp_le_length)
  have "{p. bit w p} = (if bit w 0 then {0} else {}) \<union> Suc ` {p. bit (drop_bit 1 w) p}"
  proof (rule set_eqI)
    fix p
    show "p \<in> {p. bit w p} \<longleftrightarrow> p \<in> (if bit w 0 then {0} else {}) \<union> Suc ` {p. bit (drop_bit 1 w) p}"
      by (cases p) (auto simp: bit_simps)
  qed
  moreover have "card (Suc ` {p. bit (drop_bit 1 w) p}) = card {p. bit (drop_bit 1 w) p}"
    by (simp add: card_image)
  ultimately show ?thesis using fin by auto
qed

lemma count_errs_spec:
  assumes "\<And>p. bit err p \<Longrightarrow> i + p < length cs"
  shows "count_errs i err cs =
    (map (\<lambda>j. cs ! j + of_bool (i \<le> j \<and> bit err (j - i))) [0..<length cs], int (card {p. bit err p}))"
  using assms
proof (induction i err cs rule: count_errs.induct)
  case (1 i err cs)
  show ?case
  proof (cases "err = 0")
    case True
    then show ?thesis by (subst count_errs.simps) (simp add: map_nth bot_set_def [symmetric])
  next
    case False
    define cs1 where "cs1 = (if err AND 1 \<noteq> 0 then cs[i := cs ! i + 1] else cs)"
    have len: "length cs1 = length cs" by (simp add: cs1_def)
    have in1: "Suc i + p < length cs1" if "bit (drop_bit 1 err) p" for p
      using "1.prems" [of "Suc p"] that by (simp add: bit_simps len)
    have IH: "count_errs (Suc i) (drop_bit 1 err) cs1 =
      (map (\<lambda>j. cs1 ! j + of_bool (Suc i \<le> j \<and> bit (drop_bit 1 err) (j - Suc i))) [0..<length cs1],
       int (card {p. bit (drop_bit 1 err) p}))"
      unfolding cs1_def by (rule "1.IH" [OF False refl]) (use in1 in \<open>simp add: cs1_def\<close>)
    have elem: "cs1 ! j + of_bool (Suc i \<le> j \<and> bit (drop_bit 1 err) (j - Suc i)) =
      cs ! j + of_bool (i \<le> j \<and> bit err (j - i))" if "j < length cs" for j
    proof (cases "j = i")
      case True
      then show ?thesis using that odd_iff_and_1 [of err] by (simp add: cs1_def)
    next
      case neq: False
      then have "j - i = Suc (j - Suc i)" if "i \<le> j" using that by simp
      then show ?thesis using neq by (auto simp: cs1_def bit_simps)
    qed
    have step: "count_errs i err cs = (case count_errs (Suc i) (drop_bit 1 err) cs1 of
        (cs', n) \<Rightarrow> (cs', n + of_bool (err AND 1 \<noteq> 0)))"
      by (subst count_errs.simps) (simp add: False Let_def cs1_def)
    show ?thesis
      unfolding step IH using elem card_bits_step [of err] odd_iff_and_1 [of err] by (simp add: len)
  qed
qed

lemma count_errs_32:
  assumes "length cs = 32"
  shows "count_errs 0 err cs = (map (\<lambda>j. cs ! j + of_bool (bit err j)) [0..<32], int (card {p. bit err p}))"
proof -
  have "bit err p \<Longrightarrow> p < 32" for p using bit_imp_le_length [of err p] by simp
  then show ?thesis using count_errs_spec [of err 0 cs] assms by simp
qed

lemma PciWrite_runs:
  "runs (PciWrite d off data) tr (Done u) \<Longrightarrow> ops tr = [WriteAt (config_path (Name d)) off data]"
  by (auto simp: PciWrite_def io_defs split: if_splits)

definition file_writes :: "event list \<Rightarrow> op list" where
  "file_writes tr = filter (\<lambda>q. case q of WriteAt _ _ _ \<Rightarrow> True | _ \<Rightarrow> False) (ops tr)"

lemma file_writes_simps [simp]:
  "file_writes [] = []" "file_writes (tr @ tr') = file_writes tr @ file_writes tr'"
  by (simp_all add: file_writes_def)

lemma file_writes_read: "runs (PciRead32 d off) tr (Done v) \<Longrightarrow> file_writes tr = []"
  using PciRead32_runs by (fastforce simp: file_writes_def)

lemma file_writes_write:
  "runs (PciWrite32 d off w) tr (Done u) \<Longrightarrow> file_writes tr = [WriteAt (config_path (Name d)) off (put32 w)]"
  using PciWrite_runs by (simp add: PciWrite32_eq file_writes_def)

lemma read32_at_append: "read32_at d off v tr \<or> read32_at d off v tr' \<Longrightarrow> read32_at d off v (tr @ tr')"
  unfolding read32_at_def by auto

lemma PciRead32_read: "runs (PciRead32 d off) tr (Done v) \<Longrightarrow> read32_at d off v tr"
  using PciRead32_runs unfolding read32_at_def by fastforce

definition bit_set :: "u32 \<Rightarrow> nat set" where
  "bit_set w = {p. bit w p}"

definition counted :: "int list \<Rightarrow> u32 \<Rightarrow> int list" where
  "counted cs err = map (\<lambda>j. cs ! j + of_bool (bit err j)) [0..<32]"

lemma bit_set_0 [simp]: "bit_set 0 = {}"
  by (simp add: bit_set_def)

lemma counted_0: "length cs = 32 \<Longrightarrow> counted cs 0 = cs"
  by (simp add: counted_def) (metis map_nth)

definition clear_of :: "PciDev \<Rightarrow> int \<Rightarrow> u32 \<Rightarrow> op list" where
  "clear_of d off err = (if err \<noteq> 0 then [WriteAt (config_path (Name d)) off (put32 err)] else [])"

lemma poll_reg_runs:
  assumes "runs (poll_reg d off msk cs) tr (Done (cs', n))" "length cs = 32"
  shows "\<exists>v. read32_at d off v tr \<and> cs' = counted cs (v AND NOT msk) \<and>
     n = int (card (bit_set (v AND NOT msk))) \<and> file_writes tr = clear_of d off (v AND NOT msk)"
proof -
  from assms(1) obtain v tr1 tr2 where r: "runs (PciRead32 d off) tr1 (Done v)" "tr = tr1 @ tr2"
    and k: "runs (if v AND NOT msk \<noteq> 0
      then seq (PciWrite32 d off (v AND NOT msk)) (Ret (count_errs 0 (v AND NOT msk) cs))
      else Ret (cs, 0)) tr2 (Done (cs', n))"
    unfolding poll_reg_def Let_def by (elim runs_bindE) auto
  have "cs' = counted cs (v AND NOT msk) \<and> n = int (card (bit_set (v AND NOT msk))) \<and>
      file_writes tr2 = clear_of d off (v AND NOT msk)"
  proof (cases "v AND NOT msk = 0")
    case True
    then show ?thesis using k assms(2) by (simp add: clear_of_def counted_0)
  next
    case False
    then show ?thesis
      using k count_errs_32 [OF assms(2), folded counted_def bit_set_def]
      by (auto simp: runs_bind clear_of_def dest!: file_writes_write)
  qed
  then show ?thesis
    using r PciRead32_read [OF r(1)] by (intro exI [of _ v]) (simp add: read32_at_append file_writes_read)
qed

text \<open>
  Property C10. \<open>errPoll\<close> counts every error once. It reads the two status registers of the AER
  capability; each unmasked bit that is set adds one to that bit's counter, to the device's
  total and to the result, and nothing else changes; and what it writes back, to clear it, is
  exactly the bits it counted (nothing when there are none). No counter is indexed out of
  range, and the loops over the bits end.
\<close>

theorem errPoll_counts:
  assumes "runs (errPoll k d a) tr (Done (n, a'))"
    and "length (corrErrs a) = 32" "length (uncErrs a) = 32"
  shows "\<exists>v u. read32_at d (aer d + 0x10) v tr \<and> read32_at d (aer d + 0x4) u tr \<and>
    (let c = v AND NOT (aerCorrUrMask k); e = u AND NOT (aerUncUrMask k)
     in a' = \<lparr>errs = errs a + n, corrErrs = counted (corrErrs a) c, uncErrs = counted (uncErrs a) e\<rparr> \<and>
        n = int (card (bit_set c)) + int (card (bit_set e)) \<and>
        file_writes tr = clear_of d (aer d + 0x10) c @ clear_of d (aer d + 0x4) e)"
proof -
  from assms(1) obtain cs n1 us n2 tr1 tr2 where t: "tr = tr1 @ tr2"
    and 1: "runs (poll_reg d (aer d + 0x10) (aerCorrUrMask k) (corrErrs a)) tr1 (Done (cs, n1))"
    and 2: "runs (poll_reg d (aer d + 0x4) (aerUncUrMask k) (uncErrs a)) tr2 (Done (us, n2))"
    and r: "n = n1 + n2" "a' = \<lparr>errs = errs a + n, corrErrs = cs, uncErrs = us\<rparr>"
    unfolding errPoll_def Let_def by (auto simp: runs_bind)
  from poll_reg_runs [OF 1 assms(2)] poll_reg_runs [OF 2 assms(3)] obtain v u where
    "read32_at d (aer d + 0x10) v tr1" "cs = counted (corrErrs a) (v AND NOT (aerCorrUrMask k))"
    "n1 = int (card (bit_set (v AND NOT (aerCorrUrMask k))))"
    "file_writes tr1 = clear_of d (aer d + 0x10) (v AND NOT (aerCorrUrMask k))"
    "read32_at d (aer d + 0x4) u tr2" "us = counted (uncErrs a) (u AND NOT (aerUncUrMask k))"
    "n2 = int (card (bit_set (u AND NOT (aerUncUrMask k))))"
    "file_writes tr2 = clear_of d (aer d + 0x4) (u AND NOT (aerUncUrMask k))" by blast
  then show ?thesis
    using t r by (intro exI [of _ v] exI [of _ u]) (simp add: Let_def read32_at_append)
qed

section \<open>Only what was seen is cleared\<close>

text \<open>
  A monitor of the status registers: the last register read, with what it read, and whether
  every write so far was allowed, that is, asked for by \<open>clear\<close> and a nonzero part of the bits
  the same register had just shown.
\<close>

record clr =
  seen_reg :: "(string \<times> int \<times> u8 list) option"
  fine :: bool

definition part_of :: "u8 list \<Rightarrow> u8 list \<Rightarrow> bool" where
  "part_of ws data \<longleftrightarrow> length ws = length data \<and> map2 (AND) ws data = ws \<and> (\<exists>b \<in> set ws. b \<noteq> 0)"

definition covers :: "(string \<times> int \<times> u8 list) option \<Rightarrow> string \<Rightarrow> int \<Rightarrow> u8 list \<Rightarrow> bool" where
  "covers l p off ws = (case l of None \<Rightarrow> False | Some (p', off', data) \<Rightarrow> p = p' \<and> off = off' \<and> part_of ws data)"

definition clr_step :: "bool \<Rightarrow> clr monitor" where
  "clr_step clear q x s = (case q of
       ReadAt p off n \<Rightarrow> (case x of RAt bs e \<Rightarrow> s\<lparr>seen_reg := Some (p, off, filled n bs)\<rparr> | _ \<Rightarrow> s)
     | WriteAt p off ws \<Rightarrow> s\<lparr>fine := fine s \<and> clear \<and> covers (seen_reg s) p off ws\<rparr>
     | _ \<Rightarrow> s)"

lemma clr_step_simps [simp]:
  "clr_step clear (ReadAt p off n) (RAt bs e) s = s\<lparr>seen_reg := Some (p, off, filled n bs)\<rparr>"
  "clr_step clear (WriteAt p off ws) x s = s\<lparr>fine := fine s \<and> clear \<and> covers (seen_reg s) p off ws\<rparr>"
  "clr_step clear (Print f as) x s = s"
  by (simp_all add: clr_step_def)

lemma wp_PciRead:
  assumes "fine s" "\<And>b. length b = n \<Longrightarrow> Q b (s\<lparr>seen_reg := Some (config_path (Name d), off, b)\<rparr>)"
  shows "wp (clr_step clear) fine (PciRead d off n) Q s"
  unfolding PciRead_def using assms by (simp add: wp_bind filled_def [symmetric])

lemma wp_PciRead16:
  assumes "fine s" "\<And>v. Q v (s\<lparr>seen_reg := Some (config_path (Name d), off, put16 v)\<rparr>)"
  shows "wp (clr_step clear) fine (PciRead16 d off) Q s"
proof -
  have "wp (clr_step clear) fine (case get16 b of Some x \<Rightarrow> Ret x | None \<Rightarrow> Fail (Panic ''index out of range'')) Q
      (s\<lparr>seen_reg := Some (config_path (Name d), off, b)\<rparr>)" if "length b = 2" for b
    using that assms(2) le16.enc_dec [of b] by (auto split: option.split)
  then show ?thesis
    unfolding PciRead16_eq wp_bind using assms(1) by (intro wp_PciRead) auto
qed

lemma wp_PciRead32:
  assumes "fine s" "\<And>v. Q v (s\<lparr>seen_reg := Some (config_path (Name d), off, put32 v)\<rparr>)"
  shows "wp (clr_step clear) fine (PciRead32 d off) Q s"
proof -
  have "wp (clr_step clear) fine (case get32 b of Some x \<Rightarrow> Ret x | None \<Rightarrow> Fail (Panic ''index out of range'')) Q
      (s\<lparr>seen_reg := Some (config_path (Name d), off, b)\<rparr>)" if "length b = 4" for b
    using that assms(2) le32.enc_dec [of b] by (auto split: option.split)
  then show ?thesis
    unfolding PciRead32_eq wp_bind using assms(1) by (intro wp_PciRead) auto
qed

lemma wp_PciWrite:
  assumes "fine s" "clear" "covers (seen_reg s) (config_path (Name d)) off ws" "Q () (s\<lparr>fine := True\<rparr>)"
  shows "wp (clr_step clear) fine (PciWrite d off ws) Q s"
  unfolding PciWrite_def using assms by (simp add: wp_bind)

lemma zero_iff_bytes:
  "(w :: u32) = 0 \<longleftrightarrow> (\<forall>b \<in> set (put32 w). b = 0)" "(v :: u16) = 0 \<longleftrightarrow> (\<forall>b \<in> set (put16 v). b = 0)"
proof -
  show "w = 0 \<longleftrightarrow> (\<forall>b \<in> set (put32 w). b = 0)"
  proof
    assume "\<forall>b \<in> set (put32 w). b = 0"
    then have "put32 w = put32 0" by (simp add: put32_def)
    then show "w = 0" by (rule le32.enc_inj)
  qed (simp add: put32_def)
  show "v = 0 \<longleftrightarrow> (\<forall>b \<in> set (put16 v). b = 0)"
  proof
    assume "\<forall>b \<in> set (put16 v). b = 0"
    then have "put16 v = put16 0" by (simp add: put16_def)
    then show "v = 0" by (rule le16.enc_inj)
  qed (simp add: put16_def)
qed

lemma part_of_put32: "w AND v = w \<Longrightarrow> w \<noteq> 0 \<Longrightarrow> part_of (put32 w) (put32 v)"
proof -
  assume a: "w AND v = w" "w \<noteq> 0"
  have "map2 (AND) (put32 w) (put32 v) = put32 (w AND v)"
    by (auto simp: put32_def intro!: bit_word_eqI simp: bit_simps)
  then show ?thesis using a zero_iff_bytes(1) [of w] by (auto simp: part_of_def put32_def)
qed

lemma part_of_put16: "w AND v = w \<Longrightarrow> w \<noteq> 0 \<Longrightarrow> part_of (put16 w) (put16 v)"
proof -
  assume a: "w AND v = w" "w \<noteq> 0"
  have "map2 (AND) (put16 w) (put16 v) = put16 (w AND v)"
    by (auto simp: put16_def intro!: bit_word_eqI simp: bit_simps)
  then show ?thesis using a zero_iff_bytes(2) [of w] by (auto simp: part_of_def put16_def)
qed

abbreviation clr_wp :: "bool \<Rightarrow> 'a io \<Rightarrow> clr \<Rightarrow> bool" where
  "clr_wp clear p s \<equiv> wp (clr_step clear) fine p (\<lambda>_. fine) s"

lemma and_bit_14:
  assumes "v AND 0x4000 \<noteq> 0"
  shows "0x4000 AND v = (0x4000 :: u16)"
proof -
  have "\<forall>n \<in> set [0..<16]. bit (0x4000 :: u16) n = (n = 14)" by code_simp
  then have b: "bit (0x4000 :: u16) n \<longleftrightarrow> n = 14" for n
    using bit_imp_le_length [of "0x4000 :: u16" n] by (cases "n < 16") auto
  from assms obtain n where "bit (v AND 0x4000) n" by (auto simp: bit_eq_iff)
  then have "bit v 14" unfolding bit_and_iff b by blast
  then show ?thesis by (intro bit_word_eqI) (auto simp only: bit_and_iff b)
qed

lemma wp_browse_serr: "fine s \<Longrightarrow> clr_wp clear (browse_serr d clear) s"
  unfolding browse_serr_def PciStatus_eq PciWrite16_eq wp_bind
  by (auto intro!: wp_PciRead16 wp_PciWrite part_of_put16 and_bit_14 simp: wp_bind covers_def)

lemma masked_part: "(w AND m) AND w = w AND (m :: 'a::len word)"
  by (simp add: ac_simps)

lemma wp_browse_exp: "fine s \<Longrightarrow> clr_wp clear (browse_exp k d clear) s"
proof -
  have p: "((v AND 0xf) AND NOT m) AND v = (v AND 0xf) AND NOT (m :: u16)" for v m
    by (rule bit_word_eqI) (auto simp: bit_simps)
  show "fine s \<Longrightarrow> ?thesis"
    unfolding browse_exp_def Let_def PciWrite16_eq wp_bind
    by (auto intro!: wp_PciRead16 wp_PciWrite part_of_put16 p simp: wp_bind covers_def)
qed

lemma wp_browse_aer: "fine s \<Longrightarrow> clr_wp clear (browse_aer title d off msk desc clear) s"
  unfolding browse_aer_def Let_def PciWrite32_eq wp_bind
  by (auto intro!: wp_PciRead32 wp_PciWrite part_of_put32 masked_part simp: wp_bind covers_def)

lemma wp_prints: "fine s \<Longrightarrow> clr_wp clear (forM xs (\<lambda>x. print f (g x))) s"
  by (induction xs) (simp_all add: wp_bind)

lemma wp_browse_dev:
  assumes "fine s"
  shows "clr_wp clear (browse_dev k clear d) s"
proof -
  have rep: "clr_wp clear (whenM (r \<noteq> []) (seq (print ''%s (%s):'' [AS (Path d), AS (Name d)])
      (forM r (\<lambda>s. print ''    %s'' [AS s])))) s" if "fine s" for r s
    using that wp_prints [of s clear r] by (simp add: wp_bind)
  have aer: "clr_wp clear (if 0 < aer d
      then bind (browse_aer ''AerUncSta: '' d (aer d + 0x4) (aerUncUrMask k) aerUncErrDesc clear) (\<lambda>u.
        bind (browse_aer ''AerCorrSta: '' d (aer d + 0x10) (aerCorrUrMask k) aerCorrErrDesc clear) (\<lambda>c.
          Ret (u @ c))) else Ret []) s" if "fine s" for s
  proof (cases "0 < aer d")
    case True
    show ?thesis
      unfolding if_P [OF True]
      by (rule wp_bindI [OF wp_browse_aer [OF that]], rule wp_bindI [OF wp_browse_aer]) simp_all
  qed (use that in simp)
  show ?thesis
    unfolding browse_dev_def Let_def
    by (rule wp_bindI [OF wp_browse_serr [OF assms]], rule wp_bindI [OF wp_browse_exp], assumption,
        rule wp_bindI [OF aer], assumption, rule rep)
qed

lemma clr_step_back:
  "fine (clr_step False q x s) \<Longrightarrow> fine s \<and> \<not> (case q of WriteAt _ _ _ \<Rightarrow> True | _ \<Rightarrow> False)"
  by (cases q; cases x) (auto simp: clr_step_def)

lemma unasked_writes: "fine (track (clr_step False) tr s) \<Longrightarrow> fine s \<and> file_writes tr = []"
proof (induction tr rule: rev_induct)
  case (snoc e tr)
  then show ?case
    using clr_step_back [of "fst e" "snd e" "track (clr_step False) tr s"] by (simp add: file_writes_def)
qed simp

text \<open>
  Property C17. Browsing clears only what it saw. Every write \<open>errBrowse\<close> makes goes to a register
  it has just read, and writes back, to clear them, a nonzero part of the bits that were set, so
  an error that shows up after the read is not lost; and without \<open>clear\<close> it writes nothing.
\<close>

theorem errBrowse_clears:
  assumes "runs (errBrowse k w clear) tr out"
  shows "fine (track (clr_step clear) (take n tr) \<lparr>seen_reg = None, fine = True\<rparr>) \<and>
    (\<not> clear \<longrightarrow> file_writes tr = [])"
proof -
  let ?s = "\<lparr>seen_reg = None, fine = True\<rparr>"
  have "clr_wp clear (errBrowse k w clear) ?s"
    unfolding errBrowse_def by (rule wp_forM) (auto intro: wp_browse_dev)
  from wp_track [OF this _ assms] have all: "fine (track (clr_step clear) (take n tr) ?s)" for n by simp
  have "file_writes tr = []" if "\<not> clear"
    using that all [of "length tr"] unasked_writes [of tr ?s] by simp
  with all show ?thesis by blast
qed

section \<open>Witnesses\<close>

text \<open>A device with two correctable and one uncorrectable error, and its record.\<close>

definition faulty :: PciDev where
  "faulty = zero_dev\<lparr>Ecap := [1 \<mapsto> 0x100]\<rparr>"

definition aer_regs :: "unit handler" where
  "aer_regs = sysfs [] (\<lambda>_. [(0x104, 0x10), (0x110, 0x41)])"

theorem errPoll_counts_witness:
  "\<exists>tr n a' v u. runs (errPoll default_flags faulty new_app) tr (Done (n, a')) \<and> n = 3 \<and>
     read32_at faulty 0x110 v tr \<and> read32_at faulty 0x104 u tr \<and>
     n = int (card (bit_set (v AND NOT (aerCorrUrMask default_flags)))) +
         int (card (bit_set (u AND NOT (aerUncUrMask default_flags))))"
proof -
  let ?p = "errPoll default_flags faulty new_app"
  have "case fst (exec aer_regs ?p ()) of Done (n, a) \<Rightarrow> n = 3 | Failed e \<Rightarrow> False" by code_simp
  then obtain n a' where "fst (exec aer_regs ?p ()) = Done (n, a')" "n = 3"
    by (cases "fst (exec aer_regs ?p ())") auto
  then obtain tr where r: "runs ?p tr (Done (n, a'))"
    using exec_done_runs by (metis prod.collapse)
  have "length (corrErrs new_app) = 32" "length (uncErrs new_app) = 32" by (simp_all add: new_app_def)
  from errPoll_counts [OF r this] have "\<exists>v u. read32_at faulty (aer faulty + 0x10) v tr \<and>
      read32_at faulty (aer faulty + 0x4) u tr \<and>
      n = int (card (bit_set (v AND NOT (aerCorrUrMask default_flags)))) +
          int (card (bit_set (u AND NOT (aerUncUrMask default_flags))))"
    unfolding Let_def by blast
  moreover have "aer faulty = 0x100" by (simp add: aer_def faulty_def at_def)
  ultimately show ?thesis using r \<open>n = 3\<close> by auto
qed

theorem errBrowse_clears_witness:
  "\<exists>tr. fine (track (clr_step True) tr \<lparr>seen_reg = None, fine = True\<rparr>) \<and>
     runs (errBrowse default_flags (empty_world\<lparr>heap := [faulty], Devs := [0]\<rparr>) True) tr (Done ())"
proof -
  let ?p = "errBrowse default_flags (empty_world\<lparr>heap := [faulty], Devs := [0]\<rparr>) True"
  have "fst (exec aer_regs ?p ()) = Done ()" by code_simp
  then obtain tr where r: "runs ?p tr (Done ())"
    using exec_done_runs by (metis prod.collapse)
  from errBrowse_clears [OF r, of "length tr"] r show ?thesis by auto
qed

end
