(* ===== verification/Asti2c.thy ===== *)
theory Asti2c
  imports Bmc
begin

text \<open>
  The command \<open>asti2c\<close> (cmds/asti2c/asti2c.go): the EEPROM and the registers of an IDT PCIe
  switch behind the BMC's I2C bus 2.

  A transfer to a device is \<open>i2c.Dev.Tx\<close> of periph.io, which is not part of this repository: it
  is the argument \<open>tx\<close> of the definitions. By its documentation it is \<open>Bus.Tx\<close> with the address
  of the device, \<open>bus_tx\<close>; the main theorem says what \<open>idtWrite\<close> and \<open>idtRead\<close> do with an EEPROM
  that answers as the commands expect.
\<close>

section \<open>The commands of the switch\<close>

type_synonym dev = "i2cBus \<times> u16"
type_synonym dev_tx = "dev \<Rightarrow> u8 list \<Rightarrow> u8 list \<Rightarrow> (i2c_error option \<times> u8 list \<times> dev) io"

definition bus_tx :: "config \<Rightarrow> dev_tx" where
  "bus_tx cfg d w r = bind (Tx cfg (fst d) (snd d) w r) (\<lambda>(err, r, b). Ret (err, r, (b, snd d)))"

definition BIT :: "u32 \<Rightarrow> u32 \<Rightarrow> u32" where
  "BIT val i = drop_bit (unat i) val AND 1"

definition BCVSTS :: u32 where "BCVSTS = 0xc"

definition idt_eeread :: "dev_tx \<Rightarrow> dev \<Rightarrow> u32 \<Rightarrow> (u8 \<times> dev) io" where
  "idt_eeread tx d addr =
     (let lo = ucast (addr mod 256); hi = ucast (addr div 256)
      in bind (tx d [0x47, 4, 1, 0, lo, hi] []) (\<lambda>(err, _, d).
         if err \<noteq> None then Fail (Fatal ''idt_eeread:query-phase:%s'' [])
         else bind (tx d [0x47] (replicate 8 0)) (\<lambda>(err, rbuf, d).
           bind (if err \<noteq> None then tx d [0x47] rbuf else Ret (err, rbuf, d)) (\<lambda>(err, rbuf, d).
             if err \<noteq> None then Fail (Fatal ''idt_eeread:read-phase:%s'' [])
             else if rbuf ! 0 \<noteq> 5 \<or> rbuf ! 1 \<noteq> 1 \<or> rbuf ! 2 \<noteq> 0 \<or> rbuf ! 3 \<noteq> lo \<or> rbuf ! 4 \<noteq> hi
             then Fail (Fatal ''idt_eeread:invalid-recv-data:got: %02x'' (map AW rbuf))
             else Ret (rbuf ! 5, d)))))"

definition idt_eewrite :: "dev_tx \<Rightarrow> dev \<Rightarrow> u32 \<Rightarrow> u8 \<Rightarrow> dev io" where
  "idt_eewrite tx d addr b =
     bind (tx d [0x47, 5, 0, 0, ucast (addr mod 256), ucast (addr div 256), b] []) (\<lambda>(err, _, d).
       if err \<noteq> None then Fail (Fatal ''idt_eewrite:%s'' []) else Ret d)"

definition idt_reg :: "dev_tx \<Rightarrow> dev \<Rightarrow> u32 \<Rightarrow> (u32 \<times> dev) io" where
  "idt_reg tx d n =
     (let regI2c = n div 4; lo = ucast (regI2c mod 256); hi = ucast (regI2c div 256)
      in bind (tx d [0x43, 3, 0x1f, lo, hi] []) (\<lambda>(err, _, d).
         if err \<noteq> None then Fail (Fatal ''idt_reg:query-phase:%d'' [])
         else bind (tx d [0x43] (replicate 8 0)) (\<lambda>(err, rbuf, d).
           if err \<noteq> None then Fail (Fatal ''idt_reg:query-phase:%d'' [])
           else if rbuf ! 0 \<noteq> 7 \<or> rbuf ! 1 \<noteq> 0x1f \<or> rbuf ! 2 \<noteq> lo \<or> rbuf ! 3 \<noteq> hi
           then Fail (Fatal ''idt_reg:recv:got: %02x'' (map AW rbuf))
           else (case get32 (drop 4 rbuf) of Some v \<Rightarrow> Ret (v, d) | None \<Rightarrow> index_panic))))"

text \<open>
  The port layout of the two chips. The \<open>merge\<close> of each branch is a new variable, so the one
  printed at the end is still 0.
\<close>

definition idt_layout :: "u32 \<Rightarrow> u32 \<Rightarrow> string io" where
  "idt_layout i bcvsts =
     (if i = 0x80e4111d
      then let merge = BIT bcvsts 27 in Ret (if merge \<noteq> 0 then ''x8'' else ''x4 x4'')
      else if i = 0x80e0111d
      then let merge = drop_bit 27 bcvsts AND 7
        in Ret (if merge = 0 then ''x4 x4 x4 x4'' else if merge = 1 then ''x4 x4 x8''
          else if merge = 2 then ''x8 x4 x4'' else if merge = 3 then ''x8 x8'' else ''x16'')
      else Fail (Fatal ''Unknow chip: 0x%08x'' [AW i]))"

definition idtInfo :: "dev_tx \<Rightarrow> dev \<Rightarrow> dev io" where
  "idtInfo tx d =
     bind (idt_reg tx d 0) (\<lambda>(i, d).
     seq (print ''IDT id= 0x%08x'' [AW i])
    (bind (idt_reg tx d BCVSTS) (\<lambda>(bcvsts, d).
     bind (idt_layout i bcvsts) (\<lambda>s.
     seq (print ''MERGE = %d: %s'' [AW (0 :: u32), AS s]) (Ret d)))))"

text \<open>\<open>idtRead\<close> from address \<open>a\<close> on, \<open>n\<close> bytes; \<open>idtWrite\<close> from \<open>a\<close> on.\<close>

fun read_from :: "dev_tx \<Rightarrow> dev \<Rightarrow> u32 \<Rightarrow> nat \<Rightarrow> (u8 list \<times> dev) io" where
  "read_from tx d a 0 = Ret ([], d)"
| "read_from tx d a (Suc n) =
     bind (idt_eeread tx d a) (\<lambda>(b, d). bind (read_from tx d (a + 1) n) (\<lambda>(bs, d). Ret (b # bs, d)))"

definition idtRead :: "dev_tx \<Rightarrow> dev \<Rightarrow> (u8 list \<times> dev) io" where
  "idtRead tx d = read_from tx d 0 1024"

fun write_from :: "dev_tx \<Rightarrow> dev \<Rightarrow> u32 \<Rightarrow> u8 list \<Rightarrow> dev io" where
  "write_from tx d a [] = Ret d"
| "write_from tx d a (c # cs) = bind (idt_eewrite tx d a c) (\<lambda>d. write_from tx d (a + 1) cs)"

definition idtWrite :: "dev_tx \<Rightarrow> dev \<Rightarrow> u8 list \<Rightarrow> dev io" where
  "idtWrite tx d bs = write_from tx d 0 bs"

definition Tx_dev :: "dev_tx \<Rightarrow> dev \<Rightarrow> u8 list \<Rightarrow> u8 list \<Rightarrow> (u8 list \<times> dev) io" where
  "Tx_dev tx d w r = bind (tx d w r) (\<lambda>(err, r, d).
     if err \<noteq> None then Fail (Fatal ''%v'' []) else Ret (r, d))"

section \<open>The command\<close>

record asti2c_flags =
  info :: bool
  regno :: int
  eein :: string
  eeout :: string
  mux70 :: int

text \<open>The setting of the multiplexer is read, and changed if it is another one.\<close>

definition select_slot :: "dev_tx \<Rightarrow> dev \<Rightarrow> int \<Rightarrow> dev io" where
  "select_slot tx mux setting =
     bind (Tx_dev tx mux [] [0]) (\<lambda>(b, mux).
     seq (print ''mux70 current setting:0x%02x'' [AW (b ! 0)])
       (let mux70b = word_of_int setting
        in if b ! 0 \<noteq> mux70b
           then bind (Tx_dev tx mux [mux70b] []) (\<lambda>(_, mux).
             bind (Tx_dev tx mux [] b) (\<lambda>(b, mux).
             seq (print ''mux70 new setting:0x%02x'' [AW (b ! 0)]) (Ret mux)))
           else Ret mux))"

definition asti2c_main :: "dev_tx \<Rightarrow> config \<Rightarrow> asti2c_flags \<Rightarrow> unit io" where
  "asti2c_main tx cfg o1 =
     (let info1 = info o1 \<or> (regno o1 = - 1 \<and> eein o1 = [] \<and> eeout o1 = [])
      in bind (Bmc.New cfg \<lparr>pm = pmem_init, bar = None\<rparr>) (\<lambda>(a, s).
         seq (AstStop a)
        (bind (I2cDev a 2 0x72) (\<lambda>d.
         bind (I2cDev a 2 0x70) (\<lambda>mux.
         bind (select_slot tx mux (mux70 o1)) (\<lambda>_.
         bind (if info1 then idtInfo tx d else Ret d) (\<lambda>d.
         bind (if eeout o1 = [] then Ret d
               else bind (idtRead tx d) (\<lambda>(b, d). bind (write_file (eeout o1) b) (\<lambda>ok.
                 if \<not> ok then Fail (Fatal ''%v'' []) else Ret d))) (\<lambda>d.
           if eein o1 = [] then Ret ()
           else bind (read_file (eein o1)) (\<lambda>r. case r of
               None \<Rightarrow> Fail (Fatal ''%v'' [])
             | Some buf \<Rightarrow> seq (idtWrite tx d buf) (Ret ()))))))))))"

section \<open>What is written to the EEPROM can be read back\<close>

text \<open>
  An EEPROM behind \<open>tx\<close>, in an environment \<open>h\<close>: a write command stores its byte, a query is
  remembered, and reading answers it with an echo and the byte stored.
\<close>

definition ee_addr :: "u8 \<Rightarrow> u8 \<Rightarrow> nat" where
  "ee_addr lo hi = unat lo + 256 * unat hi"

definition eeprom :: "'s handler \<Rightarrow> dev_tx \<Rightarrow> ('s \<Rightarrow> nat \<Rightarrow> u8) \<Rightarrow> ('s \<Rightarrow> u8 \<times> u8) \<Rightarrow> bool" where
  "eeprom h tx cell query \<longleftrightarrow>
     (\<forall>d s lo hi b. \<exists>d' s'. exec h (tx d [0x47, 5, 0, 0, lo, hi, b] []) s = (Done (None, [], d'), s') \<and>
        cell s' = (cell s)(ee_addr lo hi := b)) \<and>
     (\<forall>d s lo hi. \<exists>d' s'. exec h (tx d [0x47, 4, 1, 0, lo, hi] []) s = (Done (None, [], d'), s') \<and>
        cell s' = cell s \<and> query s' = (lo, hi)) \<and>
     (\<forall>d s. \<exists>d' s' x y. cell s' = cell s \<and> exec h (tx d [0x47] (replicate 8 0)) s =
        (Done (None, [5, 1, 0, fst (query s), snd (query s),
          cell s (ee_addr (fst (query s)) (snd (query s))), x, y], d'), s'))"

lemma eeprom_write:
  assumes "eeprom h tx cell query"
  shows "\<exists>d' s'. exec h (tx d [0x47, 5, 0, 0, lo, hi, b] []) s = (Done (None, [], d'), s') \<and>
     cell s' = (cell s)(ee_addr lo hi := b)"
  using assms unfolding eeprom_def by blast

lemma eeprom_query:
  assumes "eeprom h tx cell query"
  shows "\<exists>d' s'. exec h (tx d [0x47, 4, 1, 0, lo, hi] []) s = (Done (None, [], d'), s') \<and>
     cell s' = cell s \<and> query s' = (lo, hi)"
  using assms unfolding eeprom_def by blast

lemma eeprom_read:
  assumes "eeprom h tx cell query"
  shows "\<exists>d' s' x y. cell s' = cell s \<and> exec h (tx d [0x47] (replicate 8 0)) s =
     (Done (None, [5, 1, 0, fst (query s), snd (query s),
       cell s (ee_addr (fst (query s)) (snd (query s))), x, y], d'), s')"
  using assms unfolding eeprom_def by blast

lemma ee_addr_of: "unat a < 65536 \<Longrightarrow> ee_addr (ucast (a mod 256)) (ucast (a div 256)) = unat (a :: u32)"
  by (simp add: ee_addr_def unsigned_ucast_eq unat_div unat_mod take_bit_eq_mod)

lemma unat_next: "unat a < 65536 \<Longrightarrow> unat (a + 1) = unat (a :: u32) + 1"
  by (simp add: unat_word_ariths)

lemma exec_eewrite:
  assumes "eeprom h tx cell query" "unat a < 65536"
  shows "\<exists>d' s'. exec h (idt_eewrite tx d a b) s = (Done d', s') \<and> cell s' = (cell s)(unat a := b)"
  using eeprom_write [OF assms(1), of d "ucast (a mod 256)" "ucast (a div 256)" b s] ee_addr_of [OF assms(2)]
  by (auto simp: idt_eewrite_def exec_bind)

lemma exec_eeread:
  assumes "eeprom h tx cell query" "unat a < 65536"
  shows "\<exists>d' s'. exec h (idt_eeread tx d a) s = (Done (cell s (unat a), d'), s') \<and> cell s' = cell s"
proof -
  obtain d1 s1 where q: "exec h (tx d [0x47, 4, 1, 0, ucast (a mod 256), ucast (a div 256)] []) s
      = (Done (None, [], d1), s1)" "cell s1 = cell s" "query s1 = (ucast (a mod 256), ucast (a div 256))"
    using eeprom_query [OF assms(1)] by blast
  obtain d2 s2 x y where r: "cell s2 = cell s1" "exec h (tx d1 [0x47] (replicate 8 0)) s1 =
      (Done (None, [5, 1, 0, ucast (a mod 256), ucast (a div 256), cell s (unat a), x, y], d2), s2)"
    using eeprom_read [OF assms(1), of s1 d1] ee_addr_of [OF assms(2)] q(2,3) by auto
  show ?thesis using q r by (simp add: idt_eeread_def exec_bind Let_def)
qed

definition stored :: "(nat \<Rightarrow> u8) \<Rightarrow> nat \<Rightarrow> u8 list \<Rightarrow> nat \<Rightarrow> u8" where
  "stored c a bs = (\<lambda>k. if a \<le> k \<and> k < a + length bs then bs ! (k - a) else c k)"

lemma stored_simps [simp]: "stored c a [] = c" "stored (c(a := b)) (a + 1) bs = stored c a (b # bs)"
  by (auto simp: stored_def fun_eq_iff nth_Cons')

lemma exec_write_from:
  assumes "eeprom h tx cell query" "unat a + length bs \<le> 65536"
  shows "\<exists>d' s'. exec h (write_from tx d a bs) s = (Done d', s') \<and> cell s' = stored (cell s) (unat a) bs"
  using assms(2)
proof (induction bs arbitrary: a d s)
  case (Cons b bs)
  have a: "unat a < 65536" "unat (a + 1) = unat a + 1"
    using Cons.prems by (simp_all add: unat_next)
  obtain d1 s1 where 1: "exec h (idt_eewrite tx d a b) s = (Done d1, s1)" "cell s1 = (cell s)(unat a := b)"
    using exec_eewrite [OF assms(1) a(1)] by blast
  obtain d2 s2 where 2: "exec h (write_from tx d1 (a + 1) bs) s1 = (Done d2, s2)"
    "cell s2 = stored (cell s1) (unat (a + 1)) bs"
    using Cons.IH [of "a + 1" d1 s1] Cons.prems a(2) by auto
  have "cell s2 = stored (cell s) (unat a) (b # bs)"
    unfolding 2(2) 1(2) a(2) by (rule stored_simps)
  then show ?case using 1 2 by (simp add: exec_bind)
qed simp

lemma exec_read_from:
  assumes "eeprom h tx cell query" "unat a + n \<le> 65536"
  shows "\<exists>d' s'. exec h (read_from tx d a n) s = (Done (map (cell s) [unat a..<unat a + n], d'), s') \<and>
     cell s' = cell s"
  using assms(2)
proof (induction n arbitrary: a d s)
  case (Suc n)
  have a: "unat a < 65536" "unat (a + 1) = unat a + 1"
    using Suc.prems by (simp_all add: unat_next)
  obtain d1 s1 where 1: "exec h (idt_eeread tx d a) s = (Done (cell s (unat a), d1), s1)" "cell s1 = cell s"
    using exec_eeread [OF assms(1) a(1)] by blast
  obtain d2 s2 where 2: "exec h (read_from tx d1 (a + 1) n) s1
      = (Done (map (cell s) [unat a + 1..<unat a + 1 + n], d2), s2)" "cell s2 = cell s"
    using Suc.IH [of "a + 1" d1 s1] Suc.prems a(2) 1(2) by auto
  have "[unat a..<unat a + Suc n] = unat a # [unat a + 1..<unat a + 1 + n]" by (simp add: upt_rec)
  then show ?case using 1 2 by (simp add: exec_bind)
qed simp

text \<open>
  Property C23. The EEPROM: writing an image of at most 64 KiB and reading the EEPROM back, in any
  environment in which the device answers its commands, returns the first 1024 bytes of the image;
  where the image is shorter, the bytes that were there before follow. Neither command can fail.
\<close>

theorem eeprom_roundtrip:
  assumes "eeprom h tx cell query" "length bs \<le> 65536"
  shows "\<exists>d' s'. exec h (bind (idtWrite tx d bs) (idtRead tx)) s =
     (Done (take 1024 bs @ map (cell s) [length bs..<1024], d'), s')"
proof -
  obtain d1 s1 where 1: "exec h (idtWrite tx d bs) s = (Done d1, s1)"
    "cell s1 = stored (cell s) 0 bs"
    using exec_write_from [OF assms(1), of 0 bs d s] assms(2) unfolding idtWrite_def unsigned_0 by auto
  obtain d2 s2 where 2: "exec h (idtRead tx d1) s1 = (Done (map (cell s1) [0..<1024], d2), s2)"
    using exec_read_from [OF assms(1), of 0 1024 d1 s1] unfolding idtRead_def unsigned_0 by auto
  have "map (cell s1) [0..<1024] = take 1024 bs @ map (cell s) [length bs..<1024]"
    by (rule nth_equalityI) (auto simp: 1(2) stored_def nth_append min_def)
  then show ?thesis using 1 2 by (simp add: exec_bind)
qed

text \<open>
  An EEPROM of zeros that answers at once; the program's \<open>tx\<close> becomes two operations of the
  environment, the write of the command to a file and the read of the answer.
\<close>

definition sample_tx :: dev_tx where
  "sample_tx d w r = bind (write_at ''dev'' 0 w) (\<lambda>_. bind (read_at ''dev'' 0 (length r)) (\<lambda>(bs, _). Ret (None, bs, d)))"

definition sample_ee :: "((nat \<Rightarrow> u8) \<times> (u8 \<times> u8)) handler" where
  "sample_ee q s = (case q of
       WriteAt p off w \<Rightarrow> (Inr (RWrote (length w) None),
         if length w = 7 then ((fst s)(ee_addr (w ! 4) (w ! 5) := w ! 6), snd s)
         else if length w = 6 then (fst s, (w ! 4, w ! 5)) else s)
     | ReadAt p off n \<Rightarrow> (Inr (RAt (take n [5, 1, 0, fst (snd s), snd (snd s),
           fst s (ee_addr (fst (snd s)) (snd (snd s))), 0, 0]) (if n \<le> 8 then None else Some EOF)), s)
     | _ \<Rightarrow> (Inr (quiet q), s))"

theorem eeprom_roundtrip_witness:
  "\<exists>d' s'. exec sample_ee (bind (idtWrite sample_tx (sample_bus, 0x72) [7, 8, 9]) (idtRead sample_tx)) (\<lambda>_. 0, (0, 0)) =
     (Done ([7, 8, 9] @ replicate 1021 0, d'), s')"
proof -
  have "eeprom sample_ee sample_tx fst snd"
    by (auto simp: eeprom_def sample_tx_def sample_ee_def write_at_def read_at_def)
  from eeprom_roundtrip [OF this, of "[7, 8, 9]" "(sample_bus, 0x72)" "(\<lambda>_. 0, (0, 0))"]
  show ?thesis by (simp add: map_replicate_const)
qed

end
