(* ===== verification/Fru.thy ===== *)
theory Fru
  imports GoIO GoText
begin

text \<open>
  The command \<open>fru\<close> (cmds/fru/fru.go): reading the FRU image of a board, in binary or as
  hexadecimal text, its header and its chassis, board and product areas.

  A slice's capacity is taken to be its length. The areas are filled by reflection in the code,
  field after field: here an area is the list of its strings.
\<close>

section \<open>Fields and areas\<close>

record Hdr =
  Version :: u8
  Internal :: u8
  Chassis :: u8
  Board :: u8
  Product :: u8
  Multirec :: u8
  Pad :: u8
  Checksum :: u8

text \<open>The fields of the three areas.\<close>

definition Chassis_fields :: "string list" where
  "Chassis_fields = [''Part'', ''Serial'']"

definition Board_fields :: "string list" where
  "Board_fields = [''Mfg'', ''Name'', ''Sn'', ''Part'', ''FruID'']"

definition Product_fields :: "string list" where
  "Product_fields = [''Mfg'', ''Name'', ''Part'', ''Version'', ''Serial'', ''Tag'', ''FruID'']"

text \<open>One string, and the rest of the buffer.\<close>

definition tlv :: "u8 list \<Rightarrow> (string \<times> u8 list) io" where
  "tlv buf =
     (case buf of
        [] \<Rightarrow> index_panic
      | b # rest \<Rightarrow>
          if b = 0xc1 then Ret (''INVALID:MISSING-STRING'', buf)
          else seq (whenM (b AND 0xc0 \<noteq> 0xc0) (print ''Not ascii code: 0x%x'' [AW b]))
            (let n = unat (b AND 0x3f)
             in if length rest < n then slice_panic
                else Ret (text_of (take n rest), drop n rest)))"

fun area_loop :: "string list \<Rightarrow> u8 list \<Rightarrow> (string \<times> string) list io" where
  "area_loop [] buf = Ret []"
| "area_loop (f # fs) buf =
     bind (tlv buf) (\<lambda>(s, buf). bind (area_loop fs buf) (\<lambda>l. Ret ((f, s) # l)))"

definition Area :: "string list \<Rightarrow> u8 list \<Rightarrow> nat \<Rightarrow> unit io" where
  "Area flds buf off =
     (if length buf < off then slice_panic
      else bind (area_loop flds (drop off buf)) (\<lambda>l.
        print ''%#v'' (concat (map (\<lambda>(f, s). [AS f, AS s]) l))))"

section \<open>The command\<close>

definition is_sep :: "char \<Rightarrow> bool" where
  "is_sep c \<longleftrightarrow> c = CHR '' '' \<or> c = CHR 0x0A"

text \<open>Splitting at the runs of spaces and newlines, as \<open>Regexp.Split\<close> with no limit does.\<close>

function ws_split :: "string \<Rightarrow> string list" where
  "ws_split [] = [[]]"
| "ws_split (c # cs) =
     (if is_sep c then [] # ws_split (dropWhile is_sep cs)
      else case ws_split cs of p # ps \<Rightarrow> (c # p) # ps | [] \<Rightarrow> [[c]])"
  by pat_completeness auto
termination
  by (relation "measure length") (auto simp: le_imp_less_Suc length_dropWhile_le)

fun parse_bytes :: "string list \<Rightarrow> u8 list io" where
  "parse_bytes [] = Ret []"
| "parse_bytes (v # vs) =
     (if v = [] then parse_bytes vs
      else let (c, e) = ParseUint v 16 8
        in if e \<noteq> None then Fail (Fatal ''byte %s: %s'' [AS v])
           else bind (parse_bytes vs) (\<lambda>bs. Ret (word_of_int c # bs)))"

definition from_ascii :: "u8 list \<Rightarrow> u8 list io" where
  "from_ascii buf =
     (let vals = ws_split (text_of buf)
      in seq (print ''number of vals = %d'' [AI (int (length vals))]) (parse_bytes vals))"

definition dump_bytes :: "u8 list \<Rightarrow> unit io" where
  "dump_bytes buf = forM (enumerate 0 buf) (\<lambda>(i, x).
     seq (print ''%02x '' [AW x]) (whenM (i mod 16 = 15) (print [CHR 0x0A] [])))"

definition read_hdr :: "u8 list \<Rightarrow> Hdr" where
  "read_hdr b = \<lparr>Version = b ! 0, Internal = b ! 1, Chassis = b ! 2, Board = b ! 3, Product = b ! 4,
     Multirec = b ! 5, Pad = b ! 6, Checksum = b ! 7\<rparr>"

text \<open>The buffer from an area on. The offset of the header is scaled as a byte.\<close>

definition area_at :: "u8 list \<Rightarrow> u8 \<Rightarrow> (u8 list \<Rightarrow> unit io) \<Rightarrow> unit io" where
  "area_at buf k f =
     (let off = unat (k * 8) in if length buf < off then slice_panic else f (drop off buf))"

definition board_area :: "u8 list \<Rightarrow> u8 \<Rightarrow> unit io" where
  "board_area buf k =
     (let lo = unat (k * 8 + 3); hi = unat (k * 8 + 6)
      in if hi < lo \<or> length buf < hi then slice_panic
         else case get32 (take (hi - lo) (drop lo buf) @ replicate (4 - (hi - lo)) 0) of
             None \<Rightarrow> index_panic
           | Some dateint \<Rightarrow>
               seq (print ''Mfg date:%s'' [AI (820483200 + uint dateint * 60)])
                 (area_at buf k (\<lambda>b. Area Board_fields b 6)))"

definition show_fru :: "string \<Rightarrow> u8 list \<Rightarrow> unit io" where
  "show_fru fName buf =
     seq (dump_bytes buf)
       (if length buf \<le> 8 then Fail (Fatal ''%s: File too small (%d) for fru'' [AS fName, AI (int (length buf))])
        else let sum = sum_list (take 8 buf); hdr = read_hdr buf
         in seq (whenM (sum \<noteq> 0) (print ''WARNING: header checksum is: 0x%02x'' [AW sum]))
           (seq (print ''Hdr=%#v'' (map AW (take 8 buf)))
           (seq (whenM (Chassis hdr \<noteq> 0) (area_at buf (Chassis hdr) (\<lambda>b. Area Chassis_fields b 3)))
           (seq (whenM (Board hdr \<noteq> 0) (board_area buf (Board hdr)))
             (whenM (Product hdr \<noteq> 0) (area_at buf (Product hdr) (\<lambda>b. Area Product_fields b 3)))))))"

definition fru_main :: "string \<Rightarrow> string \<Rightarrow> bool \<Rightarrow> unit io" where
  "fru_main fName outName ascii =
     seq (print ''Reading fru from: %s'' [AS fName])
    (bind (read_file fName) (\<lambda>r. case r of
       None \<Rightarrow> Fail (Fatal ''%v'' [])
     | Some buf \<Rightarrow>
        bind (if ascii then from_ascii buf else Ret buf) (\<lambda>buf.
          seq (if outName \<noteq> []
               then bind (write_file outName buf) (\<lambda>ok. if ok then Ret () else Fail (Panic ''write error''))
               else Ret ())
            (show_fru fName buf))))"

section \<open>Areas that are well formed are read as they were written\<close>

definition field_ok :: "string \<Rightarrow> bool" where
  "field_ok s \<longleftrightarrow> length s \<le> 63 \<and> length s \<noteq> 1"

text \<open>The encoding of a string: its type, ASCII, and its length, then its bytes.\<close>

definition put_field :: "string \<Rightarrow> u8 list" where
  "put_field s = (0xc0 OR of_nat (length s)) # bytes_of s"

lemma type_byte:
  assumes "n < 64"
  shows "(0xc0 OR of_nat n :: u8) AND 0xc0 = 0xc0 \<and> unat ((0xc0 OR of_nat n :: u8) AND 0x3f) = n \<and>
     ((0xc0 OR of_nat n :: u8) = 0xc1 \<longleftrightarrow> n = 1)"
proof -
  have "list_all (\<lambda>n. (0xc0 OR of_nat n :: u8) AND 0xc0 = 0xc0 \<and> unat ((0xc0 OR of_nat n :: u8) AND 0x3f) = n \<and>
     ((0xc0 OR of_nat n :: u8) = 0xc1 \<longleftrightarrow> n = 1)) [0..<64]"
    by code_simp
  then show ?thesis using assms by (simp add: list_all_iff)
qed

lemma tlv_field: "field_ok s \<Longrightarrow> tlv (put_field s @ rest) = Ret (s, rest)"
  using type_byte [of "length s"]
  by (simp add: tlv_def put_field_def field_ok_def Let_def)

lemma area_loop_fields:
  "list_all field_ok vals \<Longrightarrow> length fs = length vals \<Longrightarrow>
     area_loop fs (concat (map put_field vals) @ rest) = Ret (zip fs vals)"
proof (induction fs arbitrary: vals)
  case (Cons f fs)
  then obtain v vs where "vals = v # vs" by (cases vals) auto
  then show ?case using Cons by (simp add: tlv_field)
qed simp

lemma scaled: "(k + 32) * 8 = k * (8 :: u8)" "unat k < 32 \<Longrightarrow> unat (k * 8 :: u8) = 8 * unat k"
  by (simp_all add: distrib_right unat_word_ariths)

text \<open>The string of one character cannot be encoded: its type byte ends the area.\<close>

lemma area_loop_end: "area_loop fs (0xc1 # rest) = Ret (map (\<lambda>f. (f, ''INVALID:MISSING-STRING'')) fs)"
  by (induction fs) (simp_all add: tlv_def)

text \<open>
  Property C35. Reading an area: the strings encoded at the offset the header gives, none of them
  of one character, are printed with the names of the fields, whatever surrounds them; provided
  the offset is below 256 bytes. The scaling of the offset wraps around: an area placed 256 bytes
  further on in the image is read from the lower address.
\<close>

theorem area_roundtrip:
  assumes "0 < unat k" "unat k < 32" "drop (8 * unat k) buf = pre @ concat (map put_field vals) @ rest"
    and "list_all field_ok vals" "length fs = length vals" "8 * unat k < length buf"
  shows "area_at buf k (\<lambda>b. Area fs b (length pre)) = print ''%#v'' (concat (map2 (\<lambda>f s. [AS f, AS s]) fs vals))
    \<and> area_at buf (k + 32) = area_at buf k"
proof
  show "area_at buf k (\<lambda>b. Area fs b (length pre)) = print ''%#v'' (concat (map2 (\<lambda>f s. [AS f, AS s]) fs vals))"
    using assms area_loop_fields [OF assms(4,5), of rest] by (simp add: area_at_def Area_def scaled)
  show "area_at buf (k + 32) = area_at buf k"
    by (rule ext) (simp only: area_at_def scaled)
qed

theorem area_roundtrip_witness:
  "area_at ([1, 0, 1, 0, 0, 0, 0, 0xfe] @ [1, 2, 0x17] @ concat (map put_field [''X1'', ''ABC'']) @ [0xc1]) 1
     (\<lambda>b. Area Chassis_fields b 3) = print ''%#v'' [AS ''Part'', AS ''X1'', AS ''Serial'', AS ''ABC'']"
proof -
  let ?b = "[1, 0, 1, 0, 0, 0, 0, 0xfe] @ [1, 2, 0x17] @ concat (map put_field [''X1'', ''ABC'']) @ [0xc1]"
  have "drop (8 * unat (1 :: u8)) ?b = [1, 2, 0x17] @ concat (map put_field [''X1'', ''ABC'']) @ [0xc1]"
    by simp
  from area_roundtrip [OF _ _ this, of Chassis_fields]
  show ?thesis by (simp add: field_ok_def Chassis_fields_def numeral_3_eq_3)
qed

end
