(* ===== verification/Tools.thy ===== *)
theory Tools
  imports Pci
begin

text \<open>
  The small commands: the kernel log of a memory image (cmds/lmesg/lmesg.go),
  a core file around a memory image (cmds/elfcore/elfcore.go), the memory controllers of a
  Xeon (cmds/hwinfo/hwinfo.go). A slice's capacity is taken to be its length.
\<close>

section \<open>lmesg\<close>

record Printk =
  Nsec :: u64
  RecLen :: u16
  TextLen :: u16
  DictLen :: u16
  Facility :: u8
  Flags :: u8

text \<open>\<open>binary.Read\<close> of a record from 16 bytes.\<close>

definition read_printk :: "u8 list \<Rightarrow> Printk option" where
  "read_printk b =
     (case (get64 b, get16 (drop 8 b), get16 (drop 10 b), get16 (drop 12 b), drop 14 b) of
        (Some ns, Some r, Some t, Some d, fa # fl # _) \<Rightarrow>
          Some \<lparr>Nsec = ns, RecLen = r, TextLen = t, DictLen = d, Facility = fa, Flags = fl\<rparr>
      | _ \<Rightarrow> None)"

definition hdrLen :: u16 where "hdrLen = 16"

text \<open>The end of the text is computed in 16 bits.\<close>

function lmesg_loop :: "u8 list \<Rightarrow> unit io" where
  "lmesg_loop buf =
     (if length buf < 16 then Ret ()
      else case read_printk (take 16 buf) of
          None \<Rightarrow> Fail (Fatal ''%v'' [])
        | Some p \<Rightarrow>
            if RecLen p \<le> hdrLen then Fail (Fatal ''Rec invalid:%#v'' [AW (Nsec p), AW (RecLen p), AW (TextLen p)])
            else let hi = unat (hdrLen + TextLen p); n = unat (RecLen p)
              in if hi < 16 \<or> length buf < hi then slice_panic
                 else seq (print ''%6.6f: %s'' [AW (Nsec p), AS (text_of (take (hi - 16) (drop 16 buf)))])
                   (if length buf < n then slice_panic else lmesg_loop (drop n buf)))"
  by auto
termination
  by (relation "measure length") (auto simp: hdrLen_def word_le_nat_alt)

declare lmesg_loop.simps [simp del]

definition lmesg_main :: "string \<Rightarrow> unit io" where
  "lmesg_main inp =
     seq (print ''hello lmesg'' [])
       (bind (read_file inp) (\<lambda>r. case r of None \<Rightarrow> Fail (Fatal ''%v'' []) | Some buf \<Rightarrow> lmesg_loop buf))"

section \<open>elfcore\<close>

text \<open>The file header and the program header, as \<open>binary.Write\<close> encodes them.\<close>

record Header32 =
  Ident :: "u8 list"
  Type :: u16
  Machine :: u16
  eVersion :: u32
  Entry :: u32
  Phoff :: u32
  Shoff :: u32
  eFlags :: u32
  Ehsize :: u16
  Phentsize :: u16
  Phnum :: u16
  Shentsize :: u16
  Shnum :: u16
  Shstrndx :: u16

record Prog32 =
  pType :: u32
  pOff :: u32
  Vaddr :: u32
  Paddr :: u32
  Filesz :: u32
  Memsz :: u32
  pFlags :: u32
  Align :: u32

definition put_header :: "Header32 \<Rightarrow> u8 list" where
  "put_header e = Ident e @ put16 (Type e) @ put16 (Machine e) @ put32 (eVersion e) @ put32 (Entry e) @
     put32 (Phoff e) @ put32 (Shoff e) @ put32 (eFlags e) @ put16 (Ehsize e) @ put16 (Phentsize e) @
     put16 (Phnum e) @ put16 (Shentsize e) @ put16 (Shnum e) @ put16 (Shstrndx e)"

definition put_prog :: "Prog32 \<Rightarrow> u8 list" where
  "put_prog p = put32 (pType p) @ put32 (pOff p) @ put32 (Vaddr p) @ put32 (Paddr p) @
     put32 (Filesz p) @ put32 (Memsz p) @ put32 (pFlags p) @ put32 (Align p)"

definition core_header :: Header32 where
  "core_header = \<lparr>Ident = [0x7f, 0x45, 0x4c, 0x46, 1, 1, 1, 97] @ replicate 8 0, Type = 4, Machine = 40,
     eVersion = 1, Entry = 0, Phoff = 52, Shoff = 0, eFlags = 0, Ehsize = 52, Phentsize = 32, Phnum = 1,
     Shentsize = 0, Shnum = 0, Shstrndx = 0\<rparr>"

definition core_prog :: "nat \<Rightarrow> Prog32" where
  "core_prog n = \<lparr>pType = 1, pOff = Phoff core_header + ucast (Phentsize core_header) * ucast (Phnum core_header),
     Vaddr = 0x80000000, Paddr = 0, Filesz = of_nat n, Memsz = of_nat n, pFlags = 7, Align = 0\<rparr>"

text \<open>
  The errors of opening, reading and writing are ignored; a file that was not opened takes no
  writes, and each write starts where the last one ended.
\<close>

definition elfcore_main :: "string \<Rightarrow> unit io" where
  "elfcore_main inp =
     seq (print ''hello elfcode'' [])
    (bind (open_file ''a.out'') (\<lambda>ok.
     bind (read_file inp) (\<lambda>r.
       let data = (case r of Some bs \<Rightarrow> bs | None \<Rightarrow> [])
       in if \<not> ok then Ret ()
          else bind (write_at ''a.out'' 0 (put_header core_header)) (\<lambda>(n1, _).
               bind (write_at ''a.out'' (int n1) (put_prog (core_prog (length data)))) (\<lambda>(n2, _).
               bind (write_at ''a.out'' (int (n1 + n2)) data) (\<lambda>_. Ret ()))))))"

section \<open>hwinfo\<close>

text \<open>The controller is used before the test for nil.\<close>

definition tad_limits :: "PciDev \<Rightarrow> unit io" where
  "tad_limits imc = forM [0..<12] (\<lambda>x.
     bind (PciRead32 imc (0x80 + int x * 4)) (\<lambda>v.
       print ''TadLimit= 0x%08x , %d GB'' [AW v, AW (drop_bit 12 v div 16)]))"

definition show_imc :: "World \<Rightarrow> int \<Rightarrow> unit io" where
  "show_imc w d =
     (case DevFn w (BDF 0x64 d 0) of
        None \<Rightarrow> nil_deref
      | Some i \<Rightarrow>
          bind (PciRead16 (dev w i) 0) (\<lambda>vid.
          bind (PciRead16 (dev w i) 2) (\<lambda>did.
          seq (print ''vid, did= %04x:%04x'' [AW vid, AW did])
         (seq (tad_limits (dev w i))
         (bind (PciRead32 (dev w i) 0x87c) (\<lambda>v. print ''cfg: 0x%08x'' [AW v]))))))"

definition hwinfo_main :: "config \<Rightarrow> unit io" where
  "hwinfo_main cfg = bind (PciInit cfg) (\<lambda>w. forM [10, 12] (show_imc w))"

section \<open>Log records\<close>

definition put_printk :: "Printk \<Rightarrow> u8 list" where
  "put_printk p = put64 (Nsec p) @ put16 (RecLen p) @ put16 (TextLen p) @ put16 (DictLen p) @
     [Facility p, Flags p]"

lemma length_put [simp]: "length (put16 a) = 2" "length (put32 b) = 4" "length (put64 c) = 8"
  by (simp_all add: le16.length_enc le32.length_enc le64.length_enc)

lemma read_put_printk: "read_printk (put_printk p @ bs) = Some p"
  by (simp add: put_printk_def read_printk_def le64.dec_enc le16.dec_enc)

lemma put_read_printk:
  assumes "read_printk b = Some p"
  shows "put_printk p = take 16 b"
proof -
  from assms obtain ns r t d fa fl rest where
    g: "get64 b = Some ns" "get16 (drop 8 b) = Some r" "get16 (drop 10 b) = Some t"
       "get16 (drop 12 b) = Some d" "drop 14 b = fa # fl # rest"
    and p: "p = \<lparr>Nsec = ns, RecLen = r, TextLen = t, DictLen = d, Facility = fa, Flags = fl\<rparr>"
    by (auto simp: read_printk_def split: option.splits list.splits)
  have "take 16 b = take 8 b @ take 2 (drop 8 b) @ take 2 (drop 10 b) @ take 2 (drop 12 b) @ take 2 (drop 14 b)"
    using take_add [of 8 8 b] take_add [of 2 6 "drop 8 b"] take_add [of 2 4 "drop 10 b"] take_add [of 2 2 "drop 12 b"]
    by simp
  also have "\<dots> = put64 ns @ put16 r @ put16 t @ put16 d @ [fa, fl]"
    using le64.enc_dec [OF g(1)] le16.enc_dec [OF g(2)] le16.enc_dec [OF g(3)] le16.enc_dec [OF g(4)] g(5) by simp
  finally show ?thesis by (simp add: put_printk_def p)
qed

interpretation printk: codec put_printk read_printk 16
proof
  show "read_printk bs \<noteq> None" if len: "16 \<le> length bs" for bs
  proof -
    obtain fa fl rest where "drop 14 bs = fa # fl # rest"
      using len by (cases "drop 14 bs"; cases "tl (drop 14 bs)") (auto dest: arg_cong [where f = length])
    moreover have "get64 bs \<noteq> None" by (rule le64.dec_total) (use len in simp)
    moreover have "get16 (drop k bs) \<noteq> None" if "k \<le> 14" for k
      by (rule le16.dec_total) (use len that in simp)
    then obtain r t d where "get16 (drop 8 bs) = Some r" "get16 (drop 10 bs) = Some t" "get16 (drop 12 bs) = Some d"
      by fastforce
    ultimately show ?thesis by (auto simp: read_printk_def)
  qed
  show "length (put_printk p) = 16" for p by (simp add: put_printk_def)
  show "read_printk (put_printk p @ bs) = Some p" for p bs by (rule read_put_printk)
  show "put_printk p = take 16 bs" if "read_printk bs = Some p" for bs p using that by (rule put_read_printk)
qed simp


text \<open>A record with its text and what follows it (the dictionary and the padding).\<close>

type_synonym log_rec = "Printk \<times> string \<times> u8 list"

definition put_rec :: "log_rec \<Rightarrow> u8 list" where
  "put_rec r = (case r of (p, s, rest) \<Rightarrow> put_printk p @ bytes_of s @ rest)"

definition rec_ok :: "log_rec \<Rightarrow> bool" where
  "rec_ok r \<longleftrightarrow> (case r of (p, s, rest) \<Rightarrow>
     0 < length s + length rest \<and> 16 + length s + length rest < 2 ^ 16 \<and>
     TextLen p = of_nat (length s) \<and> RecLen p = of_nat (16 + length s + length rest))"

lemma lmesg_step:
  assumes "rec_ok (p, s, rest)"
  shows "lmesg_loop (put_rec (p, s, rest) @ bs) = seq (print ''%6.6f: %s'' [AW (Nsec p), AS s]) (lmesg_loop bs)"
proof -
  have len: "length (put_printk p) = 16" by (rule printk.length_enc)
  have n: "unat (RecLen p) = 16 + length s + length rest" "unat (hdrLen + TextLen p) = 16 + length s"
    using assms by (simp_all add: rec_ok_def hdrLen_def unat_of_nat unat_word_ariths take_bit_eq_mod)
  have "\<not> RecLen p \<le> hdrLen"
    using assms n(1) by (auto simp: rec_ok_def hdrLen_def word_le_nat_alt)
  moreover have "read_printk (take 16 (put_rec (p, s, rest) @ bs)) = Some p"
    by (simp add: put_rec_def len printk.dec_enc_id)
  ultimately show ?thesis
    by (subst lmesg_loop.simps) (simp add: put_rec_def len n Let_def)
qed

text \<open>
  Property C36. The kernel log: from records one after the other, whose lengths fit 16 bits and none
  of which is empty, \<open>lmesg\<close> prints the time and exactly the text of each, in order, and stops
  at the first bytes that are too few for a header.
\<close>

theorem lmesg_prints:
  assumes "list_all rec_ok rs" "length tail < 16"
  shows "lmesg_loop (concat (map put_rec rs) @ tail) =
     forM rs (\<lambda>(p, s, rest). print ''%6.6f: %s'' [AW (Nsec p), AS s])"
  using assms(1)
proof (induction rs)
  case Nil
  then show ?case using assms(2) by (subst lmesg_loop.simps) simp
next
  case (Cons r rs)
  then show ?case by (cases r) (simp add: lmesg_step)
qed

theorem lmesg_prints_witness:
  "lmesg_loop ([0, 0, 0, 0, 0, 0, 0, 0, 20, 0, 2, 0, 0, 0, 0, 6] @ [0x6f, 0x6b, 0, 0] @ [0, 0]) =
     print ''%6.6f: %s'' [AI 0, AS ''ok'']"
proof -
  let ?r = "(\<lparr>Nsec = 0, RecLen = 20, TextLen = 2, DictLen = 0, Facility = 0, Flags = 6\<rparr>, ''ok'', [0, 0 :: u8])"
  have "list_all rec_ok [?r]" by (simp add: rec_ok_def)
  moreover have "length [0, 0 :: u8] < 16" by simp
  ultimately show ?thesis
    using lmesg_prints [of "[?r]" "[0, 0]"]
    by (simp add: put_rec_def put_printk_def put64_def put16_def bytes_of_def)
qed

section \<open>A core file can be read\<close>

text \<open>What a reader takes from a 32-bit little-endian file with one loaded segment.\<close>

definition core_segment :: "u8 list \<Rightarrow> (u32 \<times> u8 list) option" where
  "core_segment b =
     (if take 7 b \<noteq> [0x7f, 0x45, 0x4c, 0x46, 1, 1, 1] then None
      else case (get32 (drop 28 b), get16 (drop 44 b)) of
          (Some ph, Some n) \<Rightarrow>
            (let h = drop (unat ph) b
             in case (get32 h, get32 (drop 4 h), get32 (drop 8 h), get32 (drop 16 h)) of
                  (Some t, Some off, Some va, Some sz) \<Rightarrow>
                    if n = 1 \<and> t = 1 then Some (va, take (unat sz) (drop (unat off) b)) else None
                | _ \<Rightarrow> None)
        | _ \<Rightarrow> None)"

lemma core_consts:
  "put32 1 = [1, 0, 0, 0]" "put32 84 = [84, 0, 0, 0]" "put32 0x80000000 = [0, 0, 0, 0x80]"
  "put32 0 = [0, 0, 0, 0]" "put32 7 = [7, 0, 0, 0]"
  by code_simp+

lemma core_layout:
  "put_header core_header = [0x7f, 0x45, 0x4c, 0x46, 1, 1, 1, 97, 0, 0, 0, 0, 0, 0, 0, 0, 4, 0, 40, 0,
     1, 0, 0, 0, 0, 0, 0, 0, 52, 0, 0, 0, 0, 0, 0, 0, 0, 0, 0, 0, 52, 0, 32, 0, 1, 0, 0, 0, 0, 0, 0, 0]"
  "put_prog (core_prog n) = [1, 0, 0, 0, 84, 0, 0, 0, 0, 0, 0, 0x80, 0, 0, 0, 0] @ put32 (of_nat n) @
     put32 (of_nat n) @ [7, 0, 0, 0, 0, 0, 0, 0]"
  subgoal by code_simp
  subgoal by (simp add: put_prog_def core_prog_def core_header_def core_consts)
  done

text \<open>
  The core file: when the writes are complete, a reader of the file finds one
  segment, loaded at 0x80000000, which is exactly the memory image, for images below 4 GiB.
\<close>

lemma elfcore_segment:
  assumes "length data < 2 ^ 32"
  shows "core_segment (put_header core_header @ put_prog (core_prog (length data)) @ data) = Some (0x80000000, data)"
proof -
  let ?b = "put_header core_header @ put_prog (core_prog (length data)) @ data"
  have h: "drop 52 ?b = put_prog (core_prog (length data)) @ data" by (simp add: core_layout(1))
  have "get32 (drop 28 ?b) = Some 52" "get16 (drop 44 ?b) = Some 1" "take 7 ?b = [0x7f, 0x45, 0x4c, 0x46, 1, 1, 1]"
    by (simp_all add: core_layout(1))
  moreover have "get32 (drop 52 ?b) = Some 1" "get32 (drop 4 (drop 52 ?b)) = Some 84"
    "get32 (drop 8 (drop 52 ?b)) = Some 0x80000000" "get32 (drop 16 (drop 52 ?b)) = Some (of_nat (length data))"
    unfolding h by (simp_all add: core_layout(2) le32.dec_enc)
  moreover have "drop 84 ?b = data" by (simp add: core_layout)
  moreover have "unat (of_nat (length data) :: u32) = length data"
    using assms by (simp add: unat_of_nat take_bit_eq_mod)
  ultimately show ?thesis by (simp add: core_segment_def Let_def)
qed

end
