(* ===== verification/Kpoke.thy ===== *)
theory Kpoke
  imports Bmc Monitor
begin

text \<open>
  The command \<open>kpoke\<close> (cmds/kpoke/kpoke.go, cmds/kpoke/dump.go): reading and writing physical
  memory or BMC registers, one access or a block, watching registers, and the dumps.

  \<open>mapFn\<close> is chosen by \<open>main\<close> among \<open>ast.Map\<close>, \<open>pmem.Map\<close> and \<open>pmem.FileMap\<close>; it is an
  argument of the functions that use it. Accesses of 8 and 2 bytes go around the region's
  methods, to the mapped slice.
\<close>

section \<open>Reading standard input\<close>

text \<open>\<open>ReadFull\<close>, with what was read so far. An error that comes with the last bytes is fatal.\<close>

function ReadFull :: "nat \<Rightarrow> u8 list \<Rightarrow> u8 list io" where
  "ReadFull n acc =
     (if n \<le> length acc then Ret acc
      else bind (stdin_read (n - length acc)) (\<lambda>(bs, e).
        if e \<or> bs = []
        then Fail (Fatal ''ReadFull(%d):%d,%s,prev=%d'' [AI (int n), AI (int (length bs)), AI (int (length acc))])
        else ReadFull n (acc @ bs)))"
  by auto
termination
  by (relation "measure (\<lambda>(n, acc). n - length acc)") (auto simp: neq_Nil_conv)

declare ReadFull.simps [simp del]

section \<open>Mapping\<close>

type_synonym map_fn = "string \<Rightarrow> int \<Rightarrow> bool \<Rightarrow> int \<Rightarrow> maps \<Rightarrow> (region \<times> maps) io"

text \<open>The two functions of package \<open>pmem\<close> as functions of the whole state.\<close>

definition in_pm :: "(pmem_state \<Rightarrow> (region \<times> pmem_state) io) \<Rightarrow> maps \<Rightarrow> (region \<times> maps) io" where
  "in_pm f s = bind (f (pm s)) (\<lambda>(r, st). Ret (r, s\<lparr>pm := st\<rparr>))"

definition choose_map :: "config \<Rightarrow> bool \<Rightarrow> bool \<Rightarrow> map_fn" where
  "choose_map cfg astVga mmapOp name hwaddr write n =
     (if astVga then AstMap cfg name hwaddr write n
      else if mmapOp then in_pm (Map cfg name hwaddr write n)
      else in_pm (FileMap cfg name hwaddr write n))"

section \<open>Watching\<close>

definition GPIO_ADDR :: int where "GPIO_ADDR = 0x1e780000"

definition watch :: "region \<Rightarrow> int \<Rightarrow> u32 \<Rightarrow> Monitor" where
  "watch r off m = \<lparr>M = r, Off = off, Mask = m, OldVal = 0, OldValid = False\<rparr>"

text \<open>
  The GPIO data registers come in pairs with their direction registers; the bits of a data
  register that are outputs are masked.
\<close>

definition gpio_regs :: "int list" where
  "gpio_regs = [0x0, 0x04, 0x20, 0x24, 0x70, 0x74, 0x78, 0x7c, 0x80, 0x84, 0x88, 0x8c]"

fun gpio_mons :: "region \<Rightarrow> int list \<Rightarrow> Monitor list io" where
  "gpio_mons r (data # oe # rs) =
     bind (read32 r oe) (\<lambda>dir. bind (gpio_mons r rs) (\<lambda>ms.
       Ret (watch r data (NOT dir) # watch r oe 0 # ms)))"
| "gpio_mons r _ = Ret []"

definition astGpioMon :: "config \<Rightarrow> map_fn \<Rightarrow> maps \<Rightarrow> unit io" where
  "astGpioMon cfg mapFn s =
     bind (mapFn ''scu'' SCU_ADDR False 0 s) (\<lambda>(scuMap, s).
     bind (mapFn ''gpio'' GPIO_ADDR False 0 s) (\<lambda>(gpioMap, s).
     bind (gpio_mons gpioMap gpio_regs) (\<lambda>ms.
       MonLoop cfg (ms @ [watch gpioMap 0x270 0, watch scuMap 0x70 0, watch scuMap 0x8C 0] @
         map (\<lambda>v. watch scuMap v 0) [0xc0, 0xc4, 0xc8, 0xcc, 0xd0, 0xd4, 0xd8, 0xdc]))))"

definition kpoke_i2cDec :: "unit batch_fn" where
  "kpoke_i2cDec cs x =
     (let a = concat (map (\<lambda>c. put32 (GpioChange.New c)) cs)
      in bind (stdout_write a) (\<lambda>(n, e).
        if n \<noteq> length a \<or> e then Fail (Fatal ''write(%d)->%d, %s'' [AI (int (length a)), AI (int n)])
        else seq (print ''Write %d entries to stdout'' [AI (int (length cs))]) (Ret x)))"

section \<open>Dumps\<close>

definition dump_regs :: "map_fn \<Rightarrow> string \<Rightarrow> int \<Rightarrow> string \<Rightarrow> nat \<Rightarrow> maps \<Rightarrow> maps io" where
  "dump_regs mapFn name addr fmt n s =
     bind (mapFn name addr False 4096 s) (\<lambda>(m, s).
       seq (forM [0..<n] (\<lambda>i. bind (read32 m (4 * int i)) (\<lambda>v. print fmt [AI (4 * int i), AW v]))) (Ret s))"

definition scuDump :: "map_fn \<Rightarrow> maps \<Rightarrow> maps io" where
  "scuDump mapFn = dump_regs mapFn ''scu'' SCU_ADDR ''scu[%x]=0x%x'' (0x1dc div 4 + 1)"

definition gpioDump :: "map_fn \<Rightarrow> maps \<Rightarrow> maps io" where
  "gpioDump mapFn = dump_regs mapFn ''gpio'' GPIO_ADDR ''gpio[%x]=0x%x'' (0x3a0 div 4 + 1)"

definition lpcDump :: "map_fn \<Rightarrow> maps \<Rightarrow> maps io" where
  "lpcDump mapFn = dump_regs mapFn ''gpio'' LPC_ADDR ''lpc[%x]=0x%x'' (0x25c div 4 + 1)"

text \<open>The name of a register, its offset and its expected value; a negative one is excluded.\<close>

definition iMxMuxs :: "(string \<times> int \<times> int) list" where
  "iMxMuxs = [(''PAD_SD2_DATA03'', 0x1f0, 3), (''PAD_I2C2_SDA'', 0xc0, - 8),
     (''PAD_SD2_DATA02'', 0x1ec, 3), (''PAD_I2C2_SCL'', 0xbc, - 8), (''PAD_GPIO3_IO01'', 0x108, 8),
     (''PAD_SD2_DATA00'', 0x1e4, 3), (''PAD_UART4_TX_DATA'', 0x340, - 8),
     (''PAD_SD2_DATA01'', 0x1e8, 3), (''UART4_RX_DATA'', 0x344, - 8), (''PAD_GPIO3_IO02'', 0x10c, 8),
     (''PAD_GPIO3_IO03'', 0x110, 8), (''PAD_GPIO3_IO04'', 0x114, 8)]"

definition iMxDaisy :: "(string \<times> int \<times> int) list" where
  "iMxDaisy = [(''ECSPI2_SCLK'', 0x544, 0), (''ECSPI2_MISO'', 0x548, 0), (''ECSPI2_MOSI'', 0x54c, 1),
     (''ECSPI2_SS0'', 0x550, 0)]"

text \<open>The text of \<open>match\<close> as a format and its values.\<close>

definition match :: "u32 \<Rightarrow> int \<Rightarrow> string \<times> arg list" where
  "match val32 expect =
     (let val = uint val32
      in if (0 \<le> expect \<and> val = expect) \<or> (expect < 0 \<and> val \<noteq> expect) then (''ok(%d)'', [AI val])
         else if expect < 0 then (''expect != %d but got %d'', [AI (- expect), AI val])
         else (''expect = %d but got %d'', [AI expect, AI val]))"

definition imxMuxDump :: "map_fn \<Rightarrow> maps \<Rightarrow> unit io" where
  "imxMuxDump mapFn s =
     bind (mapFn ''imx.pinmux'' 0x20E0000 False 0 s) (\<lambda>(m, s).
     seq (forM iMxMuxs (\<lambda>(name, off, expect). bind (read32 m off) (\<lambda>r.
            let (f, args) = match (r AND 0xf) expect
            in print (''%s: force=%d mode=ALT%d '' @ f)
                 ([AS name, AW (drop_bit 4 r AND 1), AW (r AND 0xf)] @ args))))
         (forM iMxDaisy (\<lambda>(name, off, expect). bind (read32 m off) (\<lambda>r.
            let (f, args) = match (r AND 1) expect
            in print (''%s: input=%d '' @ f) ([AS name, AW (r AND 1)] @ args)))))"

section \<open>Single accesses\<close>

text \<open>
  \<open>Mem()\<close> of a mapping is its slice, that of the other regions ends the process. The access of
  \<open>n\<close> bytes through the pointer to the element at \<open>off\<close> checks only that element.
\<close>

fun mem_slice :: "region \<Rightarrow> int \<Rightarrow> iomapping io" where
  "mem_slice (MemRegion nm m) off =
     (if 0 \<le> off \<and> off < mapLen m then Ret m else index_panic)"
| "mem_slice (FileRegion nm w b) off =
     Fail (Fatal ''file region %s cannot return mapping'' [AS nm])"
| "mem_slice (AstMem nm a n) off =
     seq (print ''Mem() function not implemented for p2a'' []) (Fail (Panic ''oops''))"

definition poke_one :: "region \<Rightarrow> int \<Rightarrow> char \<Rightarrow> int \<Rightarrow> unit io" where
  "poke_one r off c val =
     (if c \<in> {CHR ''8'', CHR ''q'', CHR ''Q''}
      then bind (mem_slice r off) (\<lambda>m. store_n m off (put64 (word_of_int val)))
      else if c \<in> {CHR ''4'', CHR ''l'', CHR ''L''} then write32 r off (word_of_int val)
      else if c \<in> {CHR ''2'', CHR ''w'', CHR ''W''}
      then bind (mem_slice r off) (\<lambda>m. store_n m off (put16 (word_of_int val)))
      else if c \<in> {CHR ''1'', CHR ''b'', CHR ''B''} then write8 r off (word_of_int val)
      else Ret ())"

definition peek_one :: "region \<Rightarrow> int \<Rightarrow> char \<Rightarrow> u64 io" where
  "peek_one r off c =
     (if c \<in> {CHR ''8'', CHR ''q'', CHR ''Q''}
      then bind (mem_slice r off) (\<lambda>m. bind (load_n m off 8) (\<lambda>bs.
        case get64 bs of Some v \<Rightarrow> Ret v | None \<Rightarrow> Fail BadResp))
      else if c \<in> {CHR ''4'', CHR ''l'', CHR ''L''} then bind (read32 r off) (\<lambda>v. Ret (ucast v))
      else if c \<in> {CHR ''2'', CHR ''w'', CHR ''W''}
      then bind (mem_slice r off) (\<lambda>m. bind (load_n m off 2) (\<lambda>bs.
        case get16 bs of Some v \<Rightarrow> Ret (ucast v) | None \<Rightarrow> Fail BadResp))
      else if c \<in> {CHR ''1'', CHR ''b'', CHR ''B''} then bind (read8 r off) (\<lambda>v. Ret (ucast v))
      else Ret 0)"

text \<open>The format of the value.\<close>

definition num_fmt :: "char \<Rightarrow> string" where
  "num_fmt c = (if c \<in> {CHR ''4'', CHR ''l'', CHR ''L''} then ''%#08x'' else ''%#x'')"

section \<open>Blocks\<close>

text \<open>The words of \<open>b\<close> from index \<open>i\<close> on.\<close>

function store_block :: "region \<Rightarrow> int \<Rightarrow> u8 list \<Rightarrow> unit io" where
  "store_block r off b =
     (if b = [] then Ret ()
      else case get32 b of
          None \<Rightarrow> index_panic
        | Some v \<Rightarrow> seq (write32 r off v) (store_block r (off + 4) (drop 4 b)))"
  by auto
termination by (relation "measure (\<lambda>(r, off, b). length b)") auto

text \<open>
  The loop that reads \<open>n\<close> bytes from \<open>off\<close> on into a \<open>bufio.Writer\<close>: its buffer of 4096 bytes is
  written when it is full and another word comes, and at the end.
\<close>

definition flush :: "u8 list \<Rightarrow> unit io" where
  "flush buf =
     (if buf = [] then Ret ()
      else bind (stdout_write buf) (\<lambda>(n, e).
        if e \<or> n < length buf then Fail (Fatal ''%v'' []) else Ret ()))"

function dump_block :: "region \<Rightarrow> int \<Rightarrow> int \<Rightarrow> u8 list \<Rightarrow> unit io" where
  "dump_block r off n buf =
     (if n \<le> 0 then flush buf
      else bind (read32 r off) (\<lambda>v.
        if length buf = 4096 then seq (flush buf) (dump_block r (off + 4) (n - 4) (put32 v))
        else dump_block r (off + 4) (n - 4) (buf @ put32 v)))"
  by auto
termination by (relation "measure (\<lambda>(r, off, n, buf). nat n)") auto

declare store_block.simps [simp del] dump_block.simps [simp del]

section \<open>The command\<close>

record kpoke_flags =
  astGpio :: bool
  astDump :: bool
  astVga :: bool
  mmapOp :: bool
  imxDump :: bool
  wflag :: bool
  mon :: int
  i2cmon :: int

definition usage :: "'a io" where
  "usage = seq (print ''usage: kpoke [options ]  <memaddr>.<spec>  [ <newval> ]'' []) (Fail (Fatal ''exit status 1'' []))"

definition poke_len :: "int \<Rightarrow> int \<Rightarrow> int" where
  "poke_len off ioLen =
     (if 4096 < i64 (off + ioLen) then page_round (i64 (off + ioLen)) else 0)"

text \<open>What the arguments ask for: an address, the width or a length, whether to write, a value.\<close>

definition parse_args :: "bool \<Rightarrow> string list \<Rightarrow> (int \<times> (char + int) \<times> bool \<times> int) io" where
  "parse_args wr args =
     (if length args < 1 \<or> 2 < length args then usage
      else let locs = Split (CHR ''.'') (args ! 0); (addr, err) = ParseInt (locs ! 0) 0 64
        in if err \<noteq> None then Fail (Fatal ''cannot parse %s'' [AS (locs ! 0)])
           else let write = (2 \<le> length args);
                    val = (if write then fst (ParseInt (args ! 1) 0 64) else 0)
             in if length locs = 1 then Ret (addr, Inl (CHR ''L''), write, val)
                else if length (locs ! 1) = 1 then Ret (addr, Inl (locs ! 1 ! 0), write, val)
                else Ret (addr, Inr (fst (ParseInt (locs ! 1) 0 32)), wr, val))"

definition transfer :: "region \<Rightarrow> int \<Rightarrow> int \<Rightarrow> (char + int) \<Rightarrow> bool \<Rightarrow> int \<Rightarrow> unit io" where
  "transfer r addr off what write val =
     (case what of
        Inl c \<Rightarrow>
          if write
          then seq (poke_one r off c val)
            (print (''%#08x.%c := '' @ num_fmt c) [AI addr, AS [c], AI val])
          else bind (peek_one r off c) (\<lambda>v.
            print (''%#08x.%c = '' @ num_fmt c) [AI addr, AS [c], AW v])
      | Inr ioLen \<Rightarrow>
          if write
          then if ioLen < 0 then Fail (Panic ''makeslice: len out of range'')
               else bind (ReadFull (nat ioLen) []) (store_block r off)
          else dump_block r off ioLen [])"

definition poke :: "map_fn \<Rightarrow> bool \<Rightarrow> string list \<Rightarrow> maps \<Rightarrow> unit io" where
  "poke mapFn wr args s =
     bind (parse_args wr args) (\<lambda>(addr, what, write, val).
       let page = addr AND NOT 4095; off = addr AND 4095;
           ioLen = (case what of Inl c \<Rightarrow> 0 | Inr n \<Rightarrow> n)
       in bind (mapFn '''' page write (poke_len off ioLen) s) (\<lambda>(r, s).
            transfer r addr off what write val))"

definition watch_one :: "config \<Rightarrow> map_fn \<Rightarrow> int \<Rightarrow> maps \<Rightarrow> maps io" where
  "watch_one cfg mapFn n s =
     (if n = 0 then Ret s
      else bind (mapFn ''reg'' (n AND NOT 4095) False 0 s) (\<lambda>(m, s).
        seq (MonLoop cfg [watch m (n AND 4095) 0]) (Ret s)))"

definition watch_i2c :: "config \<Rightarrow> map_fn \<Rightarrow> int \<Rightarrow> maps \<Rightarrow> maps io" where
  "watch_i2c cfg mapFn n s =
     (if n < 0 then Ret s
      else bind (Bmc.New cfg s) (\<lambda>(a, s).
        bind (mapFn ''i2c'' 0x1e78a000 False 0 s) (\<lambda>(r, s).
        seq (print ''monitoring i2c bus %d: 0x%08x'' [AI n, AI (0x1e78a000 + I2cBase a n)])
       (seq (MonLoopFun cfg [watch r (I2cBase a n + 0x14) (NOT 0x60000)] kpoke_i2cDec no_cfn ()) (Ret s)))))"

definition kpoke_main :: "config \<Rightarrow> kpoke_flags \<Rightarrow> string list \<Rightarrow> unit io" where
  "kpoke_main cfg o1 args =
     (let mapFn = choose_map cfg (astVga o1) (mmapOp o1); s = \<lparr>pm = pmem_init, bar = None\<rparr>
      in if astDump o1
         then bind (scuDump mapFn s) (\<lambda>s. bind (gpioDump mapFn s) (\<lambda>s.
           bind (lpcDump mapFn s) (\<lambda>_. Ret ())))
         else if imxDump o1 then imxMuxDump mapFn s
         else bind (watch_one cfg mapFn (mon o1) s) (\<lambda>s.
           bind (watch_i2c cfg mapFn (i2cmon o1) s) (\<lambda>s.
             if astGpio o1 then astGpioMon cfg mapFn s
             else poke mapFn (wflag o1) args s)))"

section \<open>Blocks are copied word by word\<close>

text \<open>What a run wrote to standard output, and what it read from standard input.\<close>

fun out_bytes :: "event list \<Rightarrow> u8 list" where
  "out_bytes [] = []"
| "out_bytes ((Stdout bs, _) # tr) = bs @ out_bytes tr"
| "out_bytes (_ # tr) = out_bytes tr"

fun in_bytes :: "event list \<Rightarrow> u8 list" where
  "in_bytes [] = []"
| "in_bytes ((Stdin _, RBytes bs _) # tr) = bs @ in_bytes tr"
| "in_bytes (_ # tr) = in_bytes tr"

lemma out_bytes_append [simp]: "out_bytes (tr @ tr') = out_bytes tr @ out_bytes tr'"
  by (induction tr rule: out_bytes.induct) auto

lemma in_bytes_append [simp]: "in_bytes (tr @ tr') = in_bytes tr @ in_bytes tr'"
  by (induction tr rule: in_bytes.induct) auto

text \<open>The accesses that read, and that write, the words \<open>vs\<close> from an offset on.\<close>

primrec word_reads :: "region \<Rightarrow> int \<Rightarrow> u32 list \<Rightarrow> event list" where
  "word_reads r off [] = []"
| "word_reads r off (v # vs) = (Rd32 r off, RU32 v) # word_reads r (off + 4) vs"

primrec word_writes :: "region \<Rightarrow> int \<Rightarrow> u32 list \<Rightarrow> event list" where
  "word_writes r off [] = []"
| "word_writes r off (v # vs) = (Wr32 r off v, RUnit) # word_writes r (off + 4) vs"

text \<open>Output aside, and a piece of input: some bytes, or an error or the end of the input.\<close>

definition is_out :: "event \<Rightarrow> bool" where
  "is_out e \<longleftrightarrow> (\<exists>bs. fst e = Stdout bs)"

definition piece :: "event \<Rightarrow> bool" where
  "piece e \<longleftrightarrow> (\<exists>k bs. e = (Stdin k, RBytes bs False) \<and> bs \<noteq> [])"

definition no_piece :: "event \<Rightarrow> bool" where
  "no_piece e \<longleftrightarrow> (\<exists>k bs b. e = (Stdin k, RBytes bs b) \<and> (b \<or> bs = []))"

lemma flush_runs:
  "runs (flush buf) tr (Done ()) \<Longrightarrow> out_bytes tr = buf \<and> filter (\<lambda>e. \<not> is_out e) tr = []"
  by (auto simp: flush_def stdout_write_def is_out_def split: if_splits)

lemma dump_runs:
  assumes "runs (dump_block r off n buf) tr (Done ())"
  shows "\<exists>vs. length vs = nat ((n + 3) div 4) \<and> filter (\<lambda>e. \<not> is_out e) tr = word_reads r off vs \<and>
    out_bytes tr = buf @ concat (map put32 vs)"
  using assms
proof (induction r off n buf arbitrary: tr rule: dump_block.induct)
  case (1 r off n buf)
  show ?case
  proof (cases "n \<le> 0")
    case True
    then have "nat ((n + 3) div 4) = 0" by simp
    then show ?thesis
      using "1.prems" True flush_runs by (subst (asm) dump_block.simps) simp
  next
    case False
    then have k: "nat ((n + 3) div 4) = Suc (nat ((n - 4 + 3) div 4))" by simp
    from "1.prems" False obtain v tr1 where tr: "tr = (Rd32 r off, RU32 v) # tr1"
      and rest: "runs (if length buf = 4096 then seq (flush buf) (dump_block r (off + 4) (n - 4) (put32 v))
        else dump_block r (off + 4) (n - 4) (buf @ put32 v)) tr1 (Done ())"
      by (subst (asm) dump_block.simps) auto
    have "\<exists>vs. length vs = nat ((n - 4 + 3) div 4) \<and> filter (\<lambda>e. \<not> is_out e) tr1 = word_reads r (off + 4) vs \<and>
        out_bytes tr1 = buf @ put32 v @ concat (map put32 vs)"
    proof (cases "length buf = 4096")
      case True
      from rest True obtain tr2 tr3 where t: "tr1 = tr2 @ tr3" "runs (flush buf) tr2 (Done ())"
        and d: "runs (dump_block r (off + 4) (n - 4) (put32 v)) tr3 (Done ())"
        by (auto elim: runs_bindE)
      from "1.IH"(1) [OF False True d] flush_runs [OF t(2)] t(1) show ?thesis by auto
    next
      case no: False
      then have d: "runs (dump_block r (off + 4) (n - 4) (buf @ put32 v)) tr1 (Done ())"
        using rest by simp
      from "1.IH"(2) [OF False no d] show ?thesis by simp
    qed
    then obtain vs where "length vs = nat ((n - 4 + 3) div 4)" "filter (\<lambda>e. \<not> is_out e) tr1 = word_reads r (off + 4) vs"
        "out_bytes tr1 = buf @ put32 v @ concat (map put32 vs)" by blast
    then show ?thesis using tr k by (intro exI [of _ "v # vs"]) (simp add: is_out_def)
  qed
qed

text \<open>
  \<open>ReadFull\<close> returns exactly the bytes of the pieces it got, and gives up only when there is no
  further piece.
\<close>

lemma ReadFull_runs:
  assumes "runs (ReadFull n acc) tr res" "length acc \<le> n"
  shows "(\<exists>b. res = Done b \<and> length b = n \<and> list_all piece tr \<and> b = acc @ in_bytes tr) \<or>
    (\<exists>tr0 e m args. tr = tr0 @ [e] \<and> list_all piece tr0 \<and> no_piece e \<and> res = Failed (Fatal m args))"
  using assms
proof (induction n acc arbitrary: tr rule: ReadFull.induct)
  case (1 n acc)
  show ?case
  proof (cases "n \<le> length acc")
    case True
    then show ?thesis using "1.prems" by (subst (asm) ReadFull.simps) simp
  next
    case False
    from "1.prems"(1) False obtain bs e tr1 where tr: "tr = (Stdin (n - length acc), RBytes bs e) # tr1"
        "length bs \<le> n - length acc"
      and rest: "runs (if e \<or> bs = []
        then Fail (Fatal ''ReadFull(%d):%d,%s,prev=%d'' [AI (int n), AI (int (length bs)), AI (int (length acc))])
        else ReadFull n (acc @ bs)) tr1 res"
      by (subst (asm) ReadFull.simps) (auto simp: stdin_read_def)
    show ?thesis
    proof (cases "e \<or> bs = []")
      case True
      then show ?thesis using rest tr by (auto simp: no_piece_def)
    next
      case more: False
      then have "runs (ReadFull n (acc @ bs)) tr1 res" "length (acc @ bs) \<le> n"
        using rest tr(2) False by auto
      from "1.IH" [OF False more this] have IH:
        "(\<exists>b. res = Done b \<and> length b = n \<and> list_all piece tr1 \<and> b = (acc @ bs) @ in_bytes tr1) \<or>
         (\<exists>tr0 e m args. tr1 = tr0 @ [e] \<and> list_all piece tr0 \<and> no_piece e \<and> res = Failed (Fatal m args))" .
      have "piece (Stdin (n - length acc), RBytes bs e)" using more by (simp add: piece_def)
      with IH show ?thesis
        unfolding tr(1) using more by (auto intro: exI [of _ "_ # _"])
    qed
  qed
qed

text \<open>Storing whole words writes each; a partial word at the end is a panic after them.\<close>

lemma store_words:
  assumes "runs (store_block r off b) tr res" "length b mod 4 = 0"
  shows "\<exists>vs. b = concat (map put32 vs) \<and> tr = word_writes r off vs \<and> res = Done ()"
  using assms
proof (induction r off b arbitrary: tr rule: store_block.induct)
  case (1 r off b)
  show ?case
  proof (cases "b = []")
    case True
    then show ?thesis using "1.prems" by (subst (asm) store_block.simps) (auto intro: exI [of _ "[]"])
  next
    case False
    then have len: "4 \<le> length b" using "1.prems"(2) by (cases b rule: get32.cases) auto
    then obtain v where v: "get32 b = Some v" using le32.dec_total by fastforce
    have b: "b = put32 v @ drop 4 b" using le32.enc_dec [OF v] by simp
    obtain tr' where t: "tr = (Wr32 r off v, RUnit) # tr'" "runs (store_block r (off + 4) (drop 4 b)) tr' res"
      using "1.prems"(1) False v by (subst (asm) store_block.simps) auto
    have m: "length (drop 4 b) mod 4 = 0" using "1.prems"(2) len by (simp add: mod_if)
    from "1.IH" [OF False v t(2) m] obtain vs where
      "drop 4 b = concat (map put32 vs)" "tr' = word_writes r (off + 4) vs" "res = Done ()" by blast
    then show ?thesis using b t(1) by (intro exI [of _ "v # vs"]) simp
  qed
qed

lemma store_partial_word:
  assumes "runs (store_block r off b) tr res" "length b mod 4 \<noteq> 0"
  shows "\<exists>vs bs. b = concat (map put32 vs) @ bs \<and> length bs < 4 \<and> tr = word_writes r off vs \<and>
    res = Failed (Panic ''index out of range'')"
  using assms
proof (induction r off b arbitrary: tr rule: store_block.induct)
  case (1 r off b)
  then have ne: "b \<noteq> []" by auto
  show ?case
  proof (cases "get32 b")
    case None
    then show ?thesis
      using "1.prems"(1) ne le32.dec_None_iff [of b]
      by (subst (asm) store_block.simps) (auto simp: index_panic_def intro!: exI [of _ "[]"] exI [of _ b])
  next
    case (Some v)
    have b: "b = put32 v @ drop 4 b" using le32.enc_dec [OF Some] by simp
    obtain tr' where t: "tr = (Wr32 r off v, RUnit) # tr'" "runs (store_block r (off + 4) (drop 4 b)) tr' res"
      using "1.prems"(1) ne Some by (subst (asm) store_block.simps) auto
    have "4 \<le> length b" using Some le32.dec_None_iff [of b] by fastforce
    then have "length (drop 4 b) mod 4 \<noteq> 0" using "1.prems"(2) by (simp add: mod_if)
    from "1.IH" [OF ne Some t(2) this] obtain vs bs where "drop 4 b = concat (map put32 vs) @ bs" "length bs < 4"
        "tr' = word_writes r (off + 4) vs" "res = Failed (Panic ''index out of range'')" by blast
    then show ?thesis using b t(1) by (intro exI [of _ "v # vs"] exI [of _ bs]) simp
  qed
qed

text \<open>
  Property C12. Copying a block, for a length of whole words: a dump of \<open>n\<close> bytes that returns has
  read the words from its offset on, each once and in order, and done nothing else but write
  exactly their bytes to standard output. A store of \<open>n\<close> bytes reads standard input, in whatever
  pieces it comes, before it writes anything: either the input ends or fails first, and then it
  stops with a message and nothing is written; or it takes exactly \<open>n\<close> bytes and writes
  their words from its offset on, each once and in order, and returns. When the input is what the dump
  put out, the words written are the words that were read.
\<close>

theorem dump_store:
  assumes "0 \<le> n" "n mod 4 = 0" "runs (transfer r a off (Inr n) False x) tr (Done ())"
    and "runs (transfer r' a' off' (Inr n) True x') tr' res"
  shows "\<exists>vs. 4 * int (length vs) = n \<and> filter (\<lambda>e. \<not> is_out e) tr = word_reads r off vs \<and>
    out_bytes tr = concat (map put32 vs) \<and>
    ((\<exists>ins e m args. tr' = ins @ [e] \<and> list_all piece ins \<and> no_piece e \<and> res = Failed (Fatal m args)) \<or>
     (\<exists>ins ws. tr' = ins @ word_writes r' off' ws \<and> list_all piece ins \<and> in_bytes ins = concat (map put32 ws) \<and>
        4 * int (length ws) = n \<and> res = Done () \<and> (in_bytes ins = out_bytes tr \<longrightarrow> ws = vs)))"
proof -
  have "runs (dump_block r off n []) tr (Done ())" using assms(3) by (simp add: transfer_def)
  from dump_runs [OF this] obtain vs where vs: "length vs = nat ((n + 3) div 4)"
      "filter (\<lambda>e. \<not> is_out e) tr = word_reads r off vs" "out_bytes tr = concat (map put32 vs)" by auto
  have "0 \<le> (n + 3) div 4 \<and> 4 * ((n + 3) div 4) = n" using assms(1,2) by presburger
  then have "4 * int (length vs) = n" using vs(1) by simp
  moreover have "(\<exists>ins e m args. tr' = ins @ [e] \<and> list_all piece ins \<and> no_piece e \<and> res = Failed (Fatal m args)) \<or>
     (\<exists>ins ws. tr' = ins @ word_writes r' off' ws \<and> list_all piece ins \<and> in_bytes ins = concat (map put32 ws) \<and>
        4 * int (length ws) = n \<and> res = Done () \<and> (in_bytes ins = out_bytes tr \<longrightarrow> ws = vs))"
  proof -
    have "runs (bind (ReadFull (nat n) []) (store_block r' off')) tr' res"
      using assms(1,4) by (simp add: transfer_def)
    then show ?thesis
    proof (cases rule: runs_bindE)
      case (ok tr1 tr2 b)
      from ReadFull_runs [OF ok(1)] have b: "length b = nat n" "list_all piece tr1" "b = in_bytes tr1" by auto
      have "length b mod 4 = 0" using b(1) assms(1,2) by (metis nat_mod_distrib nat_numeral nat_0 zero_le_numeral)
      from store_words [OF ok(2) this] obtain ws where
        ws: "b = concat (map put32 ws)" "tr2 = word_writes r' off' ws" "res = Done ()" by blast
      have "4 * int (length ws) = n" using b(1) ws(1) le32.length_stream [of ws] assms(1) by simp
      moreover have "in_bytes tr1 = out_bytes tr \<longrightarrow> ws = vs"
        using b(3) ws(1) vs(3) le32.stream_inj by metis
      ultimately have "tr' = tr1 @ word_writes r' off' ws \<and> list_all piece tr1 \<and>
          in_bytes tr1 = concat (map put32 ws) \<and> 4 * int (length ws) = n \<and> res = Done () \<and>
          (in_bytes tr1 = out_bytes tr \<longrightarrow> ws = vs)"
        using ok(3) b ws by simp
      then show ?thesis by blast
    next
      case (fail e)
      from ReadFull_runs [OF fail(1)] fail(2) show ?thesis by auto
    qed
  qed
  ultimately show ?thesis using vs(2,3) by blast
qed

text \<open>Input that comes in pieces of at most 3 bytes, and words that count.\<close>

definition trickle :: "nat handler" where
  "trickle q n = (case q of
       Stdin k \<Rightarrow> (Inr (RBytes (replicate (min k 3) (of_nat n)) False), Suc n)
     | Rd32 _ _ \<Rightarrow> (Inr (RU32 (of_nat n)), Suc n)
     | _ \<Rightarrow> (Inr (quiet q), n))"

theorem dump_store_witness:
  "\<exists>tr tr' vs ins ws. runs (transfer (AstMem [] 0 64) 8 8 (Inr 8) False 0) tr (Done ()) \<and>
     filter (\<lambda>e. \<not> is_out e) tr = word_reads (AstMem [] 0 64) 8 vs \<and> length vs = 2 \<and>
     runs (transfer (AstMem [] 0 64) 16 16 (Inr 8) True 0) tr' (Done ()) \<and>
     tr' = ins @ word_writes (AstMem [] 0 64) 16 ws \<and> in_bytes ins = concat (map put32 ws)"
proof -
  let ?p = "\<lambda>w k. transfer (AstMem [] 0 64) k k (Inr 8) w 0"
  have "case fst (exec trickle (?p False 8) 1) of Done x \<Rightarrow> True | Failed e \<Rightarrow> False"
    "case fst (exec trickle (?p True 16) 1) of Done x \<Rightarrow> True | Failed e \<Rightarrow> False" by code_simp+
  then obtain u u' where "exec trickle (?p False 8) 1 = (Done (), u)" "exec trickle (?p True 16) 1 = (Done (), u')"
    by (cases "exec trickle (?p False 8) 1"; cases "exec trickle (?p True 16) 1") (auto split: outcome.splits)
  from exec_done_runs [OF this(1)] exec_done_runs [OF this(2)] obtain tr tr' where
    r: "runs (?p False 8) tr (Done ())" "runs (?p True 16) tr' (Done ())" by blast
  from dump_store [OF _ _ r] obtain vs ins ws where "4 * int (length vs) = 8"
    "filter (\<lambda>e. \<not> is_out e) tr = word_reads (AstMem [] 0 64) 8 vs"
    "tr' = ins @ word_writes (AstMem [] 0 64) 16 ws" "in_bytes ins = concat (map put32 ws)"
    by auto
  then show ?thesis using r by (intro exI conjI) (assumption | simp)+
qed

section \<open>The mapping covers the block\<close>

lemma safe_dump:
  assumes "\<And>i. 0 \<le> i \<Longrightarrow> i < n \<Longrightarrow> i mod 4 = 0 \<Longrightarrow> P (Rd32 r (off + i))" "\<And>bs. P (Stdout bs)"
  shows "safe P (dump_block r off n buf)"
  using assms
proof (induction r off n buf rule: dump_block.induct)
  case (1 r off n buf)
  have f: "safe P (flush b)" for b
    using "1.prems"(2) by (auto simp: flush_def stdout_write_def intro!: safe_bindI split: resp.split)
  show ?case
  proof (cases "n \<le> 0")
    case True
    then show ?thesis using f by (subst dump_block.simps) simp
  next
    case False
    have next_word: "P (Rd32 r (off + 4 + i))" if "0 \<le> i" "i < n - 4" "i mod 4 = 0" for i
      using "1.prems"(1) [of "i + 4"] that by (simp add: algebra_simps)
    have "P (Rd32 r off)" using "1.prems"(1) [of 0] False by simp
    moreover have "safe P (dump_block r (off + 4) (n - 4) (put32 v))" if "length buf = 4096" for v
      using "1.IH"(1) [OF False that] next_word "1.prems"(2) by simp
    moreover have "safe P (dump_block r (off + 4) (n - 4) (buf @ put32 v))" if "length buf \<noteq> 4096" for v
      using "1.IH"(2) [OF False that] next_word "1.prems"(2) by simp
    ultimately show ?thesis
      using f False by (subst dump_block.simps) (auto simp: read32_def intro!: safe_bindI split: resp.split)
  qed
qed

lemma safe_store:
  assumes "\<And>i v. 0 \<le> i \<Longrightarrow> i + 4 \<le> int (length b) \<Longrightarrow> P (Wr32 r (off + i) v)"
  shows "safe P (store_block r off b)"
  using assms
proof (induction r off b rule: store_block.induct)
  case (1 r off b)
  show ?case
  proof (cases "b = []")
    case True
    then show ?thesis by (subst store_block.simps) simp
  next
    case False
    have "safe P (store_block r (off + 4) (drop 4 b))" if v: "get32 b = Some v" for v
    proof (rule "1.IH" [OF False v])
      fix i w
      assume "0 \<le> i" "i + 4 \<le> int (length (drop 4 b))"
      then show "P (Wr32 r (off + 4 + i) w)" using "1.prems" [of "i + 4" w] by (simp add: algebra_simps)
    qed
    moreover have "P (Wr32 r off v)" if "get32 b = Some v" for v
    proof -
      have "4 \<le> length b" using that le32.dec_None_iff [of b] by fastforce
      then show ?thesis using "1.prems" [of 0 v] by simp
    qed
    ultimately show ?thesis
      using False by (subst store_block.simps)
        (auto simp: write32_def index_panic_def intro!: safe_bindI split: option.split)
  qed
qed

text \<open>The pages mapped for a block, as \<open>Map\<close> rounds them.\<close>

lemma poke_len_covers:
  assumes "0 \<le> off" "off < 4096" "0 \<le> n" "n < 2 ^ 32"
  shows "off + n \<le> round_len (poke_len off n) \<and> round_len (poke_len off n) mod 4096 = 0 \<and>
     round_len (poke_len off n) < 2 ^ 33"
proof -
  have i: "i64 (off + n) = off + n" using assms by simp
  have r: "round_len 0 = 4096" by (simp add: round_len_def page_round_def i64_def)
  have p: "x \<le> page_round x \<and> page_round x < x + 4096 \<and> page_round x mod 4096 = 0"
    if "0 < x" "x < 2 ^ 62" for x
    using page_round_bounds [of x] that by (auto simp: dvd_eq_mod_eq_0)
  show ?thesis
  proof (cases "4096 < off + n")
    case True
    let ?l = "page_round (off + n)"
    have l: "off + n \<le> ?l" "?l < off + n + 4096" "?l mod 4096 = 0"
      using p [of "off + n"] True assms by auto
    have "(- ?l) mod 4096 = 0" using l(3) by (simp add: zmod_zminus1_eq_if)
    then have "page_round ?l = ?l" using page_round_eq [of ?l] l True assms by simp
    then show ?thesis using l True assms by (simp add: poke_len_def i round_len_def)
  next
    case False
    then show ?thesis using assms by (simp add: poke_len_def i r)
  qed
qed

text \<open>
  Property C40. Bounds of a block: for an aligned address the mapping \<open>kpoke\<close> asks for contains
  every word the dump reads and every word the store writes, so both stay inside it and behave
  the same through a mapping and through the memory device.
\<close>

theorem block_in_bounds:
  assumes "0 \<le> off" "off < 4096" "off mod 4 = 0" "0 \<le> n" "n < 2 ^ 32"
    and "0 \<le> hwAddr m" "hwAddr m < 2 ^ 62" "mapLen m = round_len (poke_len off n)"
  shows "safe inside (dump_block (MemRegion nm m) off n []) \<and>
     (int (length b) = n \<longrightarrow> safe inside (store_block (MemRegion nm m) off b))"
proof -
  note c = poke_len_covers [OF assms(1,2,4,5)]
  have cover: "off + n \<le> mapLen m" using c assms(8) by simp
  have span: "0 \<le> hwAddr m" "hwAddr m + mapLen m < 2 ^ 63" using c assms(6-8) by simp_all
  have last: "off + i + 4 \<le> mapLen m" if "i < n" "i mod 4 = 0" for i
  proof -
    have "mapLen m mod 4096 mod 4 = 0" using c assms(8) by simp
    then have "mapLen m mod 4 = 0" by (simp add: mod_mod_cancel)
    moreover have div4: "(l - (a + j)) mod 4 = 0" if "l mod 4 = 0" "a mod 4 = 0" "j mod 4 = 0" for l a j :: int
      using that by presburger
    ultimately have "(mapLen m - (off + i)) mod 4 = 0" using assms(3) that(2) by (intro div4)
    moreover have "0 < mapLen m - (off + i)" using c assms(8) that(1) by linarith
    moreover have "4 \<le> d" if "(d :: int) mod 4 = 0" "0 < d" for d using that by presburger
    ultimately have "4 \<le> mapLen m - (off + i)" by simp
    then show ?thesis by simp
  qed
  have "safe inside (dump_block (MemRegion nm m) off n [])"
  proof (rule safe_dump)
    fix i
    assume "0 \<le> i" "i < n" "i mod 4 = 0"
    then show "inside (Rd32 (MemRegion nm m) (off + i))"
      using last [of i] span assms(1) by simp
  qed simp
  moreover have "safe inside (store_block (MemRegion nm m) off b)" if "int (length b) = n"
  proof (rule safe_store)
    fix i v
    assume "0 \<le> i" "i + 4 \<le> int (length b)"
    then show "inside (Wr32 (MemRegion nm m) (off + i) v)"
      using that cover span assms(1) by simp
  qed
  ultimately show ?thesis by blast
qed

theorem block_in_bounds_witness:
  "safe inside (dump_block (MemRegion [] \<lparr>hwAddr = 0x1000, mapLen = 0x3000, mapWrite = True\<rparr>) 0x10 8192 []) \<and>
   safe inside (store_block (MemRegion [] \<lparr>hwAddr = 0x1000, mapLen = 0x3000, mapWrite = True\<rparr>) 0x10 (replicate 8192 7))"
proof -
  have "0x3000 = round_len (poke_len 0x10 8192)"
    by (simp add: round_len_def poke_len_def page_round_def i64_def)
  then show ?thesis
    using block_in_bounds [where off = "0x10" and n = 8192 and b = "replicate 8192 7"
      and m = "\<lparr>hwAddr = 0x1000, mapLen = 0x3000, mapWrite = True\<rparr>" and nm = "[]"] by simp
qed

end
