(* ===== verification/Msr.thy ===== *)
theory Msr
  imports GoIO GoText
begin

text \<open>
  Package \<open>msr\<close>, model-specific registers: msr/msr.go over the Linux backend (msr/msr_linux.go, a
  device file that is read and written at the number of the register) and over the FreeBSD one
  (msr/msr_freebsd.go, two requests of \<open>/dev/cpuctl\<close>). What the package needs of a backend is
  the locale \<open>msr_backend\<close>; both meet it on a machine with the same registers.
\<close>

section \<open>msr.go over a backend\<close>

datatype msr_error =
    OsError ioerr
  | GotBytes string u32 nat
  | CtlError int int \<comment> \<open>the request and the error number\<close>

text \<open>
  A backend: the file of a processor, \<open>readAt\<close> on a file, a buffer and an offset, with the buffer
  after it, the count and the error; and \<open>writeAt\<close>.
\<close>

type_synonym read_at_fun = "string \<Rightarrow> u8 list \<Rightarrow> int \<Rightarrow> (u8 list \<times> nat \<times> msr_error option) io"
type_synonym write_at_fun = "string \<Rightarrow> u8 list \<Rightarrow> int \<Rightarrow> (nat \<times> msr_error option) io"

text \<open>
  The table of open files is never filled (and could not be, it is nil), so every access opens
  the file; the file is its path.
\<close>

definition getFd :: "(int \<Rightarrow> string) \<Rightarrow> int \<Rightarrow> string io" where
  "getFd msrFile cpu =
     (let cpu = (if cpu = - 1 then 0 else cpu)
      in bind (open_file (msrFile cpu)) (\<lambda>ok.
           if ok then Ret (msrFile cpu) else Fail (Fatal ''%v'' [])))"

definition Read_by :: "(int \<Rightarrow> string) \<Rightarrow> read_at_fun \<Rightarrow> int \<Rightarrow> u32 \<Rightarrow> (msr_error + u64) io" where
  "Read_by msrFile readAt cpu addr =
     bind (getFd msrFile cpu) (\<lambda>fd.
     bind (readAt fd (replicate 8 0) (uint addr)) (\<lambda>(b, n, err).
       case err of
         Some e \<Rightarrow> Ret (Inl e)
       | None \<Rightarrow>
           if n \<noteq> 8 then Ret (Inl (GotBytes ''msr read 0x%x got %d bytes'' addr n))
           else (case get64 b of Some v \<Rightarrow> Ret (Inr v) | None \<Rightarrow> index_panic)))"

definition Write_by :: "(int \<Rightarrow> string) \<Rightarrow> write_at_fun \<Rightarrow> int \<Rightarrow> u32 \<Rightarrow> u64 \<Rightarrow> msr_error option io" where
  "Write_by msrFile writeAt cpu addr val =
     bind (getFd msrFile cpu) (\<lambda>fd.
     bind (writeAt fd (put64 val) (uint addr)) (\<lambda>(n, err).
       case err of
         Some e \<Rightarrow> Ret (Some e)
       | None \<Rightarrow> Ret (if n \<noteq> 8 then Some (GotBytes ''msr write 0x%x got %d bytes'' addr n) else None)))"

definition MustRead_by :: "(int \<Rightarrow> string) \<Rightarrow> read_at_fun \<Rightarrow> int \<Rightarrow> u32 \<Rightarrow> u64 io" where
  "MustRead_by msrFile readAt cpu addr = bind (Read_by msrFile readAt cpu addr) (\<lambda>r.
     case r of Inr v \<Rightarrow> Ret v | Inl _ \<Rightarrow> Fail (Fatal ''%v'' []))"

section \<open>The Linux backend\<close>

definition linux_msrFile :: "int \<Rightarrow> string" where
  "linux_msrFile cpu = ''/dev/cpu/'' @ int_str cpu @ ''/msr''"

definition linux_readAt :: read_at_fun where
  "linux_readAt f b n = bind (read_at f n (length b)) (\<lambda>(bs, e).
     Ret (bs @ drop (length bs) b, length bs, map_option OsError e))"

definition linux_writeAt :: write_at_fun where
  "linux_writeAt f b n = bind (write_at f n b) (\<lambda>(k, e). Ret (k, map_option OsError e))"

section \<open>The FreeBSD backend\<close>

definition ioctlPtr64 :: "string \<Rightarrow> ioctl_req \<Rightarrow> (msr_error + u64) io" where
  "ioctlPtr64 f r = bind (ioctl f r) (\<lambda>a.
     case a of
       Errno e \<Rightarrow> Ret (Inl (CtlError (ioctl_number r) e))
     | MsrData v \<Rightarrow> Ret (Inr v)
     | _ \<Rightarrow> Fail BadResp)"

definition bsd_msrFile :: "int \<Rightarrow> string" where
  "bsd_msrFile cpu = ''/dev/cpuctl'' @ int_str cpu"

text \<open>A request that fails leaves the argument as it was, with data 0.\<close>

definition bsd_readAt :: read_at_fun where
  "bsd_readAt f b n = bind (ioctlPtr64 f (CPUCTL_RDMSR \<lparr>msr_no = n, msr_data = 0\<rparr>)) (\<lambda>r.
     let (v, err) = (case r of Inl e \<Rightarrow> (0, Some e) | Inr v \<Rightarrow> (v, None))
     in if length b < 8 then index_panic else Ret (put64 v @ drop 8 b, 8, err))"

definition bsd_writeAt :: write_at_fun where
  "bsd_writeAt f b n =
     (case get64 b of
        None \<Rightarrow> index_panic
      | Some v \<Rightarrow> bind (ioctlPtr64 f (CPUCTL_WRMSR \<lparr>msr_no = n, msr_data = v\<rparr>)) (\<lambda>r.
          Ret (8, case r of Inl e \<Rightarrow> Some e | Inr _ \<Rightarrow> None)))"

section \<open>The package in each build\<close>

definition msr_Read :: "int \<Rightarrow> u32 \<Rightarrow> (msr_error + u64) io" where
  "msr_Read = Read_by linux_msrFile linux_readAt"

definition msr_Write :: "int \<Rightarrow> u32 \<Rightarrow> u64 \<Rightarrow> msr_error option io" where
  "msr_Write = Write_by linux_msrFile linux_writeAt"

definition MustRead :: "int \<Rightarrow> u32 \<Rightarrow> u64 io" where
  "MustRead = MustRead_by linux_msrFile linux_readAt"

definition bsd_msr_Read :: "int \<Rightarrow> u32 \<Rightarrow> (msr_error + u64) io" where
  "bsd_msr_Read = Read_by bsd_msrFile bsd_readAt"

definition bsd_msr_Write :: "int \<Rightarrow> u32 \<Rightarrow> u64 \<Rightarrow> msr_error option io" where
  "bsd_msr_Write = Write_by bsd_msrFile bsd_writeAt"

definition bsd_MustRead :: "int \<Rightarrow> u32 \<Rightarrow> u64 io" where
  "bsd_MustRead = MustRead_by bsd_msrFile bsd_readAt"

section \<open>What a backend promises\<close>

text \<open>
  The machine: the model-specific registers the processors have, and their values. On the file of a
  processor, \<open>readAt\<close> fills eight bytes with the value of a register and \<open>writeAt\<close> sets it; both
  report an error on a register the processor does not have.
\<close>

type_synonym msrs = "int \<times> u32 \<Rightarrow> u64 option"

text \<open>
  What the package makes of that: accesses to the registers of a map. Processor -1 is processor 0, and
  an access to a processor the machine does not have ends the process.
\<close>

definition no_cpu :: "'a outcome" where
  "no_cpu = Failed (Fatal ''%v'' [])"

definition read_spec :: "int list \<Rightarrow> int \<Rightarrow> u32 \<Rightarrow> msrs \<Rightarrow> u64 option outcome \<times> msrs" where
  "read_spec cpus cpu a s =
     (let c = if cpu = - 1 then 0 else cpu
      in if c \<in> set cpus then (Done (s (c, a)), s) else (no_cpu, s))"

definition write_spec :: "int list \<Rightarrow> int \<Rightarrow> u32 \<Rightarrow> u64 \<Rightarrow> msrs \<Rightarrow> u64 option outcome \<times> msrs" where
  "write_spec cpus cpu a v s =
     (let c = if cpu = - 1 then 0 else cpu
      in if c \<notin> set cpus then (no_cpu, s)
         else if s (c, a) = None then (Done None, s) else (Done (Some v), s((c, a) \<mapsto> v)))"

datatype access = Get int u32 | Set int u32 u64

fun access_spec :: "int list \<Rightarrow> access \<Rightarrow> msrs \<Rightarrow> u64 option outcome \<times> msrs" where
  "access_spec cpus (Get cpu a) s = read_spec cpus cpu a s"
| "access_spec cpus (Set cpu a v) s = write_spec cpus cpu a v s"

fun session_spec :: "int list \<Rightarrow> access list \<Rightarrow> msrs \<Rightarrow> u64 option list outcome \<times> msrs" where
  "session_spec cpus [] s = (Done [], s)"
| "session_spec cpus (x # xs) s =
     (case access_spec cpus x s of
        (Failed e, s) \<Rightarrow> (Failed e, s)
      | (Done r, s) \<Rightarrow>
          (case session_spec cpus xs s of (Failed e, s) \<Rightarrow> (Failed e, s) | (Done rs, s) \<Rightarrow> (Done (r # rs), s)))"

text \<open>The same accesses through the package: a value, or \<open>None\<close> for an error.\<close>

fun do_access :: "(int \<Rightarrow> u32 \<Rightarrow> (msr_error + u64) io) \<Rightarrow> (int \<Rightarrow> u32 \<Rightarrow> u64 \<Rightarrow> msr_error option io) \<Rightarrow>
    access \<Rightarrow> u64 option io" where
  "do_access rd wr (Get cpu a) = bind (rd cpu a) (\<lambda>r. Ret (case r of Inr v \<Rightarrow> Some v | Inl _ \<Rightarrow> None))"
| "do_access rd wr (Set cpu a v) = bind (wr cpu a v) (\<lambda>e. Ret (if e = None then Some v else None))"

fun session :: "(int \<Rightarrow> u32 \<Rightarrow> (msr_error + u64) io) \<Rightarrow> (int \<Rightarrow> u32 \<Rightarrow> u64 \<Rightarrow> msr_error option io) \<Rightarrow>
    access list \<Rightarrow> u64 option list io" where
  "session rd wr [] = Ret []"
| "session rd wr (x # xs) = bind (do_access rd wr x) (\<lambda>r. bind (session rd wr xs) (\<lambda>rs. Ret (r # rs)))"

locale msr_backend =
  fixes msrFile :: "int \<Rightarrow> string" and readAt :: read_at_fun and writeAt :: write_at_fun
    and os :: "int list \<Rightarrow> msrs handler"
  assumes opens: "exec (os cpus) (open_file (msrFile c)) s = (Done (c \<in> set cpus), s)"
    and reads: "c \<in> set cpus \<Longrightarrow> \<exists>b n e. exec (os cpus) (readAt (msrFile c) (replicate 8 0) (uint a)) s =
      (Done (case s (c, a) of Some v \<Rightarrow> (put64 v, 8, None) | None \<Rightarrow> (b, n, Some e)), s)"
    and writes: "c \<in> set cpus \<Longrightarrow> \<exists>n e. exec (os cpus) (writeAt (msrFile c) (put64 v) (uint a)) s =
      (case s (c, a) of Some _ \<Rightarrow> (Done (8, None), s((c, a) \<mapsto> v)) | None \<Rightarrow> (Done (n, Some e), s))"
begin

lemma getFd_exec: "exec (os cpus) (getFd msrFile cpu) s =
   (let c = if cpu = - 1 then 0 else cpu
    in if c \<in> set cpus then (Done (msrFile c), s) else (no_cpu, s))"
  by (simp add: getFd_def exec_bind opens Let_def no_cpu_def)

lemma Read_exec: "\<exists>e. exec (os cpus) (Read_by msrFile readAt cpu a) s =
   (let c = if cpu = - 1 then 0 else cpu
    in if c \<in> set cpus then (Done (case s (c, a) of Some v \<Rightarrow> Inr v | None \<Rightarrow> Inl e), s)
       else (no_cpu, s))"
proof -
  let ?c = "if cpu = - 1 then 0 else cpu"
  show ?thesis
  proof (cases "?c \<in> set cpus")
    case True
    from reads [OF this, of a s] obtain b n e where
      "exec (os cpus) (readAt (msrFile ?c) (replicate 8 0) (uint a)) s =
        (Done (case s (?c, a) of Some v \<Rightarrow> (put64 v, 8, None) | None \<Rightarrow> (b, n, Some e)), s)" by blast
    then show ?thesis
      using True by (auto simp: Read_by_def exec_bind getFd_exec Let_def le64.dec_enc_id split: option.split)
  qed (simp add: Read_by_def exec_bind getFd_exec Let_def no_cpu_def)
qed

lemma Write_exec: "\<exists>e. exec (os cpus) (Write_by msrFile writeAt cpu a v) s =
   (let c = if cpu = - 1 then 0 else cpu
    in if c \<in> set cpus then (case s (c, a) of Some _ \<Rightarrow> (Done None, s((c, a) \<mapsto> v)) | None \<Rightarrow> (Done (Some e), s))
       else (no_cpu, s))"
proof -
  let ?c = "if cpu = - 1 then 0 else cpu"
  show ?thesis
  proof (cases "?c \<in> set cpus")
    case True
    from writes [OF this, of v a s] obtain n e where
      "exec (os cpus) (writeAt (msrFile ?c) (put64 v) (uint a)) s =
        (case s (?c, a) of Some _ \<Rightarrow> (Done (8, None), s((?c, a) \<mapsto> v)) | None \<Rightarrow> (Done (n, Some e), s))" by blast
    then show ?thesis
      using True by (auto simp: Write_by_def exec_bind getFd_exec Let_def split: option.split)
  qed (simp add: Write_by_def exec_bind getFd_exec Let_def no_cpu_def)
qed

lemma session_exec:
  "exec (os cpus) (session (Read_by msrFile readAt) (Write_by msrFile writeAt) xs) s = session_spec cpus xs s"
proof (induction xs arbitrary: s)
  case (Cons x xs)
  have "exec (os cpus) (do_access (Read_by msrFile readAt) (Write_by msrFile writeAt) x) s = access_spec cpus x s"
  proof (cases x)
    case (Get cpu a)
    then show ?thesis using Read_exec [of cpus cpu a s]
      by (auto simp: exec_bind read_spec_def Let_def no_cpu_def split: option.split)
  next
    case (Set cpu a v)
    then show ?thesis using Write_exec [of cpus cpu a v s]
      by (auto simp: exec_bind write_spec_def Let_def no_cpu_def split: option.splits)
  qed
  then show ?case by (simp add: exec_bind Cons split: prod.split outcome.split)
qed simp

lemma MustRead_exec:
  "exec (os cpus) (MustRead_by msrFile readAt cpu a) s =
     (case read_spec cpus cpu a s of (Done (Some v), s) \<Rightarrow> (Done v, s) | (_, s) \<Rightarrow> (no_cpu, s))"
  using Read_exec [of cpus cpu a s]
  by (auto simp: MustRead_by_def exec_bind read_spec_def Let_def no_cpu_def split: option.split)

end

section \<open>A machine under both systems\<close>

lemma dec_str_inj: "dec_str m = dec_str n \<Longrightarrow> m = n"
  using parse_digits_of [of 10 m "int (max m n)" False] parse_digits_of [of 10 n "int (max m n)" False] by simp

lemma int_str_inj: "int_str m = int_str n \<Longrightarrow> m = n"
proof -
  have h: "hd (dec_str k) \<noteq> CHR ''-''" for k
    by (rule hd_digits_of) simp_all
  have neg: "''-'' @ x \<noteq> dec_str k" for x k
    using h [of k] by (metis append_Cons list.sel(1))
  have pos: "dec_str k \<noteq> ''-'' @ x" for x k
    using neg by metis
  assume a: "int_str m = int_str n"
  show "m = n"
  proof (cases "m < 0"; cases "n < 0")
    assume "m < 0" "n < 0"
    with a have "dec_str (nat (- m)) = dec_str (nat (- n))" by (simp add: int_str_def)
    then show "m = n" using dec_str_inj \<open>m < 0\<close> \<open>n < 0\<close> by fastforce
  next
    assume "\<not> m < 0" "\<not> n < 0"
    with a have "dec_str (nat m) = dec_str (nat n)" by (simp add: int_str_def)
    then show "m = n" using dec_str_inj \<open>\<not> m < 0\<close> \<open>\<not> n < 0\<close> by fastforce
  qed (use a in \<open>simp_all only: int_str_def if_True if_False neg pos\<close>)
qed

definition cpu_of :: "(int \<Rightarrow> string) \<Rightarrow> int list \<Rightarrow> string \<Rightarrow> int option" where
  "cpu_of msrFile cpus path = find (\<lambda>c. msrFile c = path) cpus"

definition linux_msrs :: "int list \<Rightarrow> msrs handler" where
  "linux_msrs cpus q s = (case q of
       OpenFile path \<Rightarrow> (Inr (if cpu_of linux_msrFile cpus path = None then RErr else ROk), s)
     | ReadAt path off n \<Rightarrow> (Inr (case cpu_of linux_msrFile cpus path of
           None \<Rightarrow> RAt [] (Some NotOpened)
         | Some c \<Rightarrow> (case s (c, word_of_int off) of
               Some v \<Rightarrow> if n = 8 then RAt (put64 v) None else RAt [] (Some IOFailed)
             | None \<Rightarrow> RAt [] (Some IOFailed))), s)
     | WriteAt path off bs \<Rightarrow> (case cpu_of linux_msrFile cpus path of
           None \<Rightarrow> (Inr (RWrote 0 (Some NotOpened)), s)
         | Some c \<Rightarrow> (case (s (c, word_of_int off), get64 bs) of
               (Some _, Some v) \<Rightarrow> (Inr (RWrote 8 None), s((c, word_of_int off) \<mapsto> v))
             | _ \<Rightarrow> (Inr (RWrote 0 (Some IOFailed)), s)))
     | _ \<Rightarrow> (Inr (quiet q), s))"

definition bsd_msrs :: "int list \<Rightarrow> msrs handler" where
  "bsd_msrs cpus q s = (case q of
       OpenFile path \<Rightarrow> (Inr (if cpu_of bsd_msrFile cpus path = None then RErr else ROk), s)
     | Ioctl path (CPUCTL_RDMSR a) \<Rightarrow> (Inr (RIoctl (case cpu_of bsd_msrFile cpus path of
           None \<Rightarrow> Errno 9
         | Some c \<Rightarrow> (case s (c, word_of_int (msr_no a)) of Some v \<Rightarrow> MsrData v | None \<Rightarrow> Errno 14))), s)
     | Ioctl path (CPUCTL_WRMSR a) \<Rightarrow> (case cpu_of bsd_msrFile cpus path of
           None \<Rightarrow> (Inr (RIoctl (Errno 9)), s)
         | Some c \<Rightarrow> (case s (c, word_of_int (msr_no a)) of
               Some _ \<Rightarrow> (Inr (RIoctl (MsrData (msr_data a))), s((c, word_of_int (msr_no a)) \<mapsto> msr_data a))
             | None \<Rightarrow> (Inr (RIoctl (Errno 14)), s)))
     | _ \<Rightarrow> (Inr (quiet q), s))"

lemma cpu_of_file:
  assumes "inj msrFile"
  shows "cpu_of msrFile cpus (msrFile c) = (if c \<in> set cpus then Some c else None)"
  using assms by (induction cpus) (auto simp: cpu_of_def dest: injD)

lemma inj_files: "inj linux_msrFile" "inj bsd_msrFile"
  by (auto intro!: injI int_str_inj simp: linux_msrFile_def bsd_msrFile_def)

interpretation linux_msr: msr_backend linux_msrFile linux_readAt linux_writeAt linux_msrs
proof
  fix cpus c s a v
  show "exec (linux_msrs cpus) (open_file (linux_msrFile c)) s = (Done (c \<in> set cpus), s)"
    by (simp add: open_file_def linux_msrs_def cpu_of_file inj_files)
  assume "c \<in> set cpus"
  then show "\<exists>b n e. exec (linux_msrs cpus) (linux_readAt (linux_msrFile c) (replicate 8 0) (uint a)) s =
      (Done (case s (c, a) of Some v \<Rightarrow> (put64 v, 8, None) | None \<Rightarrow> (b, n, Some e)), s)"
    "\<exists>n e. exec (linux_msrs cpus) (linux_writeAt (linux_msrFile c) (put64 v) (uint a)) s =
      (case s (c, a) of Some _ \<Rightarrow> (Done (8, None), s((c, a) \<mapsto> v)) | None \<Rightarrow> (Done (n, Some e), s))"
    by (simp_all add: linux_readAt_def linux_writeAt_def read_at_def write_at_def linux_msrs_def
        cpu_of_file inj_files le64.dec_enc_id le64.length_enc split: option.split)
qed

interpretation bsd_msr: msr_backend bsd_msrFile bsd_readAt bsd_writeAt bsd_msrs
proof
  fix cpus c s a v
  show "exec (bsd_msrs cpus) (open_file (bsd_msrFile c)) s = (Done (c \<in> set cpus), s)"
    by (simp add: open_file_def bsd_msrs_def cpu_of_file inj_files)
  assume "c \<in> set cpus"
  then show "\<exists>b n e. exec (bsd_msrs cpus) (bsd_readAt (bsd_msrFile c) (replicate 8 0) (uint a)) s =
      (Done (case s (c, a) of Some v \<Rightarrow> (put64 v, 8, None) | None \<Rightarrow> (b, n, Some e)), s)"
    "\<exists>n e. exec (bsd_msrs cpus) (bsd_writeAt (bsd_msrFile c) (put64 v) (uint a)) s =
      (case s (c, a) of Some _ \<Rightarrow> (Done (8, None), s((c, a) \<mapsto> v)) | None \<Rightarrow> (Done (n, Some e), s))"
    by (simp_all add: bsd_readAt_def bsd_writeAt_def ioctlPtr64_def ioctl_def bsd_msrs_def
        cpu_of_file inj_files le64.dec_enc_id split: option.split)
qed

text \<open>
  Property C14. Package \<open>msr\<close> gives access to the registers of the machine, the same in both builds: any
  sequence of reads and writes has the results, the final registers and the end of the same accesses
  to a map from processors and registers to values. A read returns the value last written, an
  access to a register that does not exist is an error and changes nothing, a processor that does
  not exist ends the process; \<open>MustRead\<close> ends it on any error.
\<close>

theorem msr_sessions:
  "exec (linux_msrs cpus) (session msr_Read msr_Write xs) s = session_spec cpus xs s \<and>
   exec (bsd_msrs cpus) (session bsd_msr_Read bsd_msr_Write xs) s = session_spec cpus xs s \<and>
   exec (linux_msrs cpus) (MustRead cpu a) s = exec (bsd_msrs cpus) (bsd_MustRead cpu a) s"
  unfolding msr_Read_def msr_Write_def bsd_msr_Read_def bsd_msr_Write_def MustRead_def bsd_MustRead_def
  by (simp add: linux_msr.session_exec bsd_msr.session_exec linux_msr.MustRead_exec bsd_msr.MustRead_exec)

end
