(* ===== verification/PciBsd.thy ===== *)
theory PciBsd
  imports Pci
begin

text \<open>
  The FreeBSD build of package \<open>pci\<close> (pci/sys_freebsd.go): configuration space through the
  requests of \<open>/dev/pci\<close>, the devices as the kernel lists them. The functions of pci/defs.go are
  those of theory Pci, with the reads of this build.

  What they need of a build is the locale \<open>pci_backend\<close>, which both builds meet. The main theorem
  says that on the same machine both find the same world.

  The field \<open>sel\<close> of a device is determined by its domain, bus and \<open>devFn\<close>, since a function
  number has three bits (\<open>sel_of_dev\<close>), so it is not kept. \<open>Uncache\<close> does nothing in this build.
\<close>

section \<open>Configuration space\<close>

definition pci_file :: string where "pci_file = ''/dev/pci''"

definition PCI_GETCONF_LAST_DEVICE :: u32 where "PCI_GETCONF_LAST_DEVICE = 0"

definition sel_of :: "PciDev \<Rightarrow> struct_pcisel" where
  "sel_of d = \<lparr>pc_domain = word_of_int (domain d), pc_bus = word_of_int (bus d),
     pc_dev = word_of_int (devFn d div 8), pc_func = word_of_int (devFn d mod 8)\<rparr>"

text \<open>
  A device that is not known to be an Express device has no extended space: reading there gives
  zeros. Otherwise the buffer has four bytes whatever the width of the access.
\<close>

definition bsd_Read :: cfg_read where
  "bsd_Read d off l =
     (if devType d = - 1 \<and> 0x100 \<le> off
      then (if l \<le> 4 then Ret (replicate l 0) else slice_panic)
      else bind (ioctl pci_file (PCIOCREAD \<lparr>pi_sel = sel_of d, pi_reg = word_of_int off,
                   pi_width = of_nat l, pi_data = 0\<rparr>)) (\<lambda>a.
        case a of
          PciIo v \<Rightarrow> Ret (put32 v)
        | Errno e \<Rightarrow> Fail (Fatal ''%s:PCIOCREAD(%d,%d):%d'' [AS (Name d), AI off, AI (int l), AI e])
        | _ \<Rightarrow> Fail BadResp))"

definition bsd_Write :: cfg_write where
  "bsd_Write d off data =
     (case get32 (take 4 data @ replicate (4 - length data) 0) of
        None \<Rightarrow> index_panic
      | Some v \<Rightarrow>
          bind (ioctl pci_file (PCIOCWRITE \<lparr>pi_sel = sel_of d, pi_reg = word_of_int off,
                  pi_width = of_nat (length data), pi_data = v\<rparr>)) (\<lambda>a.
            case a of
              PciIo _ \<Rightarrow> Ret ()
            | Errno e \<Rightarrow> Fail (Fatal ''%s:PCIOCWRITE(%d,%d):%d''
                [AS (Name d), AI off, AI (int (length data)), AI e])
            | _ \<Rightarrow> Fail BadResp))"

section \<open>The scan\<close>

definition sel_name :: "struct_pcisel \<Rightarrow> string" where
  "sel_name s = bdf_name (uint (pc_domain s)) (uint (pc_bus s)) (uint (pc_dev s) * 8 + uint (pc_func s))"

definition dev_of :: "struct_pcisel \<Rightarrow> PciDev" where
  "dev_of s = zero_dev\<lparr>domain := uint (pc_domain s), bus := uint (pc_bus s),
     devFn := uint (pc_dev s) * 8 + uint (pc_func s), Name := sel_name s\<rparr>"

fun bsd_devs :: "config \<Rightarrow> World \<Rightarrow> struct_pcisel list \<Rightarrow> World io" where
  "bsd_devs cfg w [] = Ret w"
| "bsd_devs cfg w (s # ss) = bind (AddDev_by bsd_Read cfg w (dev_of s)) (\<lambda>w. bsd_devs cfg w ss)"

text \<open>The request for the list, with the size of an entry.\<close>

definition conf_req :: "nat \<Rightarrow> struct_pci_conf_io" where
  "conf_req esz = \<lparr>pat_buf_len = 0, num_patterns = 0, match_buf_len = of_nat (2048 * esz),
     num_matches = 0, conf_offset = 0, generation = 0, conf_status = 0\<rparr>"

definition list_devs :: "config \<Rightarrow> World \<Rightarrow> struct_pci_conf_io \<Rightarrow> struct_pcisel list \<Rightarrow> World io" where
  "list_devs cfg w io sels =
     (if conf_status io \<noteq> PCI_GETCONF_LAST_DEVICE
      then Fail (Fatal ''PCIOCGETCONF.status=%d'' [AW (conf_status io)])
      else bsd_devs cfg w sels)"

definition fbsd14Scan :: "config \<Rightarrow> World \<Rightarrow> World io" where
  "fbsd14Scan cfg w =
     bind (ioctl pci_file (PCIOCGETCONF_14 (conf_req conf14_size))) (\<lambda>a.
       case a of
         Errno e \<Rightarrow> Fail (Fatal ''PCIOCGETCONF returns error %d'' [AI e])
       | Confs14 io cs \<Rightarrow> list_devs cfg w io (map pc_sel cs)
       | _ \<Rightarrow> Fail BadResp)"

text \<open>Error 25 (ENOTTY) is that of a kernel which does not know the request.\<close>

definition fbsdCurrentScan :: "config \<Rightarrow> World \<Rightarrow> World io" where
  "fbsdCurrentScan cfg w =
     bind (ioctl pci_file (PCIOCGETCONF (conf_req conf_size))) (\<lambda>a.
       case a of
         Errno e \<Rightarrow> if e = 25 then fbsd14Scan cfg w
           else Fail (Fatal ''PCIOCGETCONF returns error %d'' [AI e])
       | Confs io cs \<Rightarrow> list_devs cfg w io (map pc_sel cs)
       | _ \<Rightarrow> Fail BadResp)"

definition bsd_Scan :: "config \<Rightarrow> World io" where
  "bsd_Scan cfg = bind (open_file pci_file) (\<lambda>ok.
     if ok then fbsdCurrentScan cfg empty_world else Fail (Fatal '''' []))"

definition bsd_PciInit :: "config \<Rightarrow> World io" where
  "bsd_PciInit cfg = PciInit_by (bsd_Scan cfg)"

section \<open>What a build promises\<close>

text \<open>Programs that only fail with a message, or by running out of turns.\<close>

definition no_panic :: "'a io \<Rightarrow> bool" where
  "no_panic p \<longleftrightarrow> (\<forall>tr e. runs p tr (Failed e) \<longrightarrow> e = OutOfFuel \<or> (\<exists>m args. e = Fatal m args))"

named_theorems no_panic_intros \<open>composing programs that do not panic\<close>

lemma no_panicD: "no_panic p \<Longrightarrow> runs p tr (Failed e) \<Longrightarrow> e = OutOfFuel \<or> (\<exists>m args. e = Fatal m args)"
  unfolding no_panic_def by blast

lemma no_panic_simps [simp, no_panic_intros]:
  "no_panic (Ret x)" "no_panic (Fail OutOfFuel)" "no_panic (Fail (Fatal m args))" "no_panic (print m args)"
  by (auto simp: no_panic_def)

lemma no_panic_bind [no_panic_intros]:
  "no_panic p \<Longrightarrow> (\<And>x. no_panic (f x)) \<Longrightarrow> no_panic (bind p f)"
  unfolding no_panic_def by (blast elim: runs_bindE)

lemma no_panic_bind_Done: "no_panic p \<Longrightarrow> (\<And>x tr. runs p tr (Done x) \<Longrightarrow> no_panic (f x)) \<Longrightarrow> no_panic (bind p f)"
  unfolding no_panic_def by (blast elim: runs_bindE)

lemma no_panic_if [no_panic_intros]:
  "(b \<Longrightarrow> no_panic p) \<Longrightarrow> (\<not> b \<Longrightarrow> no_panic q) \<Longrightarrow> no_panic (if b then p else q)"
  by simp

lemma no_panic_Let [no_panic_intros]: "no_panic (f x) \<Longrightarrow> no_panic (Let x f)"
  by simp

text \<open>
  A read of at most four bytes fills its buffer or ends the process with a message; it takes at
  most one access. A write completes or ends the process with a message, in one access.
\<close>

locale pci_backend =
  fixes rd :: cfg_read and wr :: cfg_write
  assumes rd_fills: "runs (rd d off n) tr (Done b) \<Longrightarrow> n \<le> 4 \<Longrightarrow> n \<le> length b"
    and rd_fatal: "n \<le> 4 \<Longrightarrow> no_panic (rd d off n)"
    and rd_once: "runs (rd d off n) tr out \<Longrightarrow> length tr \<le> 1"
    and wr_fatal: "no_panic (wr d off bs)"
    and wr_once: "runs (wr d off bs) tr out' \<Longrightarrow> length tr = 1"
begin

text \<open>The functions of pci/defs.go over such a build do not panic.\<close>

lemma read_decodes:
  assumes "n \<le> 4" "\<And>b. n \<le> length b \<Longrightarrow> no_panic (k b)"
  shows "no_panic (bind (rd d off n) k)"
  by (rule no_panic_bind_Done [OF rd_fatal [OF assms(1)]]) (use rd_fills assms in blast)

lemma no_panic_Read8 [no_panic_intros]: "no_panic (Read8_by rd d off)"
  unfolding Read8_by_def by (rule read_decodes) (auto split: list.split)

lemma no_panic_Read16 [no_panic_intros]: "no_panic (Read16_by rd d off)"
  unfolding Read16_by_def by (rule read_decodes) (use le16.dec_None_iff in \<open>force split: option.split\<close>)+

lemma no_panic_Read32 [no_panic_intros]: "no_panic (Read32_by rd d off)"
  unfolding Read32_by_def by (rule read_decodes) (use le32.dec_None_iff in \<open>force split: option.split\<close>)+

lemma no_panic_ecap_loop [no_panic_intros]: "no_panic (ecap_loop_by rd n d off m)"
  by (induction n arbitrary: off m) (auto intro!: no_panic_intros)

lemma no_panic_cap_loop [no_panic_intros]: "no_panic (cap_loop_by rd n d start m)"
  by (induction n arbitrary: start m) (auto simp: Let_def intro!: no_panic_intros)

lemma no_panic_AddDev: "no_panic (AddDev_by rd cfg w d)"
  unfolding AddDev_by_def probe_by_def capInit_by_def exp_caps_by_def EcapInit_by_def file_dev_by_def PciStatus_by_def
  by (intro no_panic_intros)

lemma no_panic_write: "no_panic (Write32_by wr d off v)" "no_panic (Write16_by wr d off u)"
  unfolding Write32_by_def Write16_by_def by (rule wr_fatal)+

text \<open>A walk takes one access a step.\<close>

lemma Read32_once: "runs (Read32_by rd d off) tr out \<Longrightarrow> length tr \<le> 1"
  unfolding Read32_by_def by (erule runs_bindE) (auto dest!: rd_once split: option.splits)

lemma ecap_accesses: "runs (ecap_loop_by rd n d off m) tr out \<Longrightarrow> length tr \<le> n"
proof (induction n arbitrary: off m tr)
  case (Suc n)
  show ?case
  proof (cases "off = 0")
    case False
    with Suc.prems show ?thesis
      by (simp only: ecap_loop_by.simps if_False, elim runs_bindE)
        (force dest: Read32_once Suc.IH split: if_splits)+
  qed (use Suc.prems in simp)
qed (auto split: if_splits)

end

interpretation linux: pci_backend PciRead PciWrite
proof
  fix d off n tr and b :: "u8 list" and out :: "u8 list outcome" and out' :: "unit outcome" and bs
  show "runs (PciRead d off n) tr (Done b) \<Longrightarrow> n \<le> 4 \<Longrightarrow> n \<le> length b" using PciRead_runs by fastforce
  show "no_panic (PciRead d off n)" unfolding no_panic_def using PciRead_runs by blast
  show "runs (PciRead d off n) tr out \<Longrightarrow> length tr \<le> 1" using PciRead_runs by fastforce
  show "no_panic (PciWrite d off bs)" unfolding no_panic_def PciWrite_def by (auto simp: io_defs split: if_splits)
  show "runs (PciWrite d off bs) tr out' \<Longrightarrow> length tr = 1" unfolding PciWrite_def by (auto simp: io_defs split: if_splits)
qed

lemma bsd_ioctl_read:
  "runs (bind (ioctl f (PCIOCREAD io)) k) tr out \<longleftrightarrow>
     (\<exists>v tr'. tr = (Ioctl f (PCIOCREAD io), RIoctl (PciIo v)) # tr' \<and> runs (k (PciIo v)) tr' out) \<or>
     (\<exists>e tr'. tr = (Ioctl f (PCIOCREAD io), RIoctl (Errno e)) # tr' \<and> e \<noteq> 0 \<and> runs (k (Errno e)) tr' out)"
  by (auto elim: ioctl_fits.elims)

lemma bsd_ioctl_write:
  "runs (bind (ioctl f (PCIOCWRITE io)) k) tr out \<longleftrightarrow>
     (\<exists>v tr'. tr = (Ioctl f (PCIOCWRITE io), RIoctl (PciIo v)) # tr' \<and> runs (k (PciIo v)) tr' out) \<or>
     (\<exists>e tr'. tr = (Ioctl f (PCIOCWRITE io), RIoctl (Errno e)) # tr' \<and> e \<noteq> 0 \<and> runs (k (Errno e)) tr' out)"
  by (auto elim: ioctl_fits.elims)

interpretation bsd: pci_backend bsd_Read bsd_Write
proof
  fix d off n tr and b :: "u8 list" and out :: "u8 list outcome" and out' :: "unit outcome" and bs
  show "runs (bsd_Read d off n) tr (Done b) \<Longrightarrow> n \<le> 4 \<Longrightarrow> n \<le> length b"
    unfolding bsd_Read_def by (auto simp: bsd_ioctl_read le32.length_enc slice_panic_def simp del: runs_bind_ioctl split: if_splits)
  show "no_panic (bsd_Read d off n)" if "n \<le> 4"
    unfolding bsd_Read_def no_panic_def using that
    by (auto simp: bsd_ioctl_read simp del: runs_bind_ioctl split: if_splits)
  show "runs (bsd_Read d off n) tr out \<Longrightarrow> length tr \<le> 1"
    unfolding bsd_Read_def by (auto simp: bsd_ioctl_read slice_panic_def simp del: runs_bind_ioctl split: if_splits)
  obtain v where v: "get32 (take 4 bs @ replicate (4 - length bs) 0) = Some v"
    using le32.dec_None_iff [of "take 4 bs @ replicate (4 - length bs) 0"] by fastforce
  show "no_panic (bsd_Write d off bs)"
    unfolding bsd_Write_def no_panic_def v by (auto simp: bsd_ioctl_write simp del: runs_bind_ioctl)
  show "runs (bsd_Write d off bs) tr out' \<Longrightarrow> length tr = 1"
    unfolding bsd_Write_def v by (auto simp: bsd_ioctl_write simp del: runs_bind_ioctl)
qed

lemma fresh_dev_of: "fresh (dev_of s)"
  by (simp add: fresh_def dev_of_def zero_dev_def sel_name_def)

lemma bsd_devs_ok:
  "world_ok w \<Longrightarrow> unlinked w \<Longrightarrow> returns (bsd_devs cfg w ss) (\<lambda>w. world_ok w \<and> unlinked w)"
proof (induction ss arbitrary: w)
  case (Cons s ss)
  show ?case
    by (simp, rule returns_bind [OF AddDev_ok [OF Cons.prems fresh_dev_of]]) (simp add: Cons.IH)
qed simp

lemma bsd_Scan_ok: "returns (bsd_Scan cfg) (\<lambda>w. world_ok w \<and> unlinked w)"
proof -
  have "returns (list_devs cfg empty_world io ss) (\<lambda>w. world_ok w \<and> unlinked w)" for io ss
    unfolding list_devs_def using bsd_devs_ok [OF world_ok_empty] by simp
  then show ?thesis
    unfolding bsd_Scan_def fbsdCurrentScan_def fbsd14Scan_def
    by (auto intro!: returns_seq split: ioctl_resp.split)
qed

lemma bsd_devs_no_panic: "no_panic (bsd_devs cfg w ss)"
  by (induction ss arbitrary: w) (auto intro: no_panic_bind bsd.no_panic_AddDev)

lemma no_panic_ioctl:
  "(\<And>a. ioctl_fits r a \<Longrightarrow> no_panic (k a)) \<Longrightarrow> no_panic (bind (ioctl f r) k)"
  unfolding no_panic_def by auto

lemma bsd_Scan_no_panic: "no_panic (bsd_Scan cfg)"
proof -
  have l: "no_panic (list_devs cfg w io ss)" for w io ss
    unfolding list_devs_def by (intro no_panic_intros bsd_devs_no_panic)
  have "no_panic (fbsd14Scan cfg w)" for w
    unfolding fbsd14Scan_def by (rule no_panic_ioctl) (auto split: ioctl_resp.split intro: l)
  then have "no_panic (fbsdCurrentScan cfg w)" for w
    unfolding fbsdCurrentScan_def by (intro no_panic_ioctl) (auto split: ioctl_resp.split intro: l)
  moreover have "no_panic (open_file f)" for f
    by (auto simp: no_panic_def io_defs)
  ultimately show ?thesis unfolding bsd_Scan_def by (intro no_panic_intros)
qed

lemma sel_of_dev: "pc_func s < 8 \<Longrightarrow> sel_of (dev_of s) = s"
proof -
  assume "pc_func s < 8"
  then have f: "uint (pc_func s) < 8" by (simp add: word_less_def)
  then have "(uint (pc_dev s) * 8 + uint (pc_func s)) div 8 = uint (pc_dev s)"
    "(uint (pc_dev s) * 8 + uint (pc_func s)) mod 8 = uint (pc_func s)"
    by (simp_all add: div_plus_div_distrib_dvd_left)
  then show ?thesis by (simp add: sel_of_def dev_of_def)
qed

section \<open>The same machine under both systems\<close>

text \<open>
  A machine: its devices with the bytes of their configuration spaces. Linux shows each as a file
  of 256 or 4096 bytes; the FreeBSD kernel answers a read inside the space with the bytes and a
  read outside of it with ones. A kernel before version 15 knows the older request only. The bound on
  the number of devices is what fits in the buffer of the request, whose length is that of 2048
  entries of 122 bytes, when the kernel's entries take 128.
\<close>

type_synonym machine = "(struct_pcisel \<times> u8 list) list"

definition cfg_of :: "machine \<Rightarrow> string \<Rightarrow> u8 list option" where
  "cfg_of ms = map_of (map (\<lambda>(s, cs). (config_path (sel_name s), cs)) ms)"

definition linux_os :: "machine \<Rightarrow> unit handler" where
  "linux_os ms q s = (Inr (case q of
       ReadDir _ \<Rightarrow> RNames (map (\<lambda>(s, cs). sel_name s) ms)
     | ReadAt path off n \<Rightarrow>
         (case cfg_of ms path of
            None \<Rightarrow> RAt [] (Some NotOpened)
          | Some cs \<Rightarrow> RAt (take n (drop (nat off) cs)) (if length cs < nat off + n then Some EOF else None))
     | _ \<Rightarrow> quiet q), s)"

definition load_le :: "u8 list \<Rightarrow> u32" where
  "load_le bs = (case get32 (bs @ replicate (4 - length bs) 0) of Some v \<Rightarrow> v | None \<Rightarrow> 0)"

definition blank_conf14 :: "struct_pcisel \<Rightarrow> struct_pci_conf14" where
  "blank_conf14 s = \<lparr>pc_sel = s, pc_hdr = 0, pc_subvendor = 0, pc_subdevice = 0, pc_vendor = 0, pc_device = 0,
     pc_class = 0, pc_subclass = 0, pc_progif = 0, pc_revid = 0, pd_name = [], pd_unit = 0\<rparr>"

definition blank_conf :: "struct_pcisel \<Rightarrow> struct_pci_conf" where
  "blank_conf s = struct_pci_conf14.extend (blank_conf14 s)
     (struct_pci_conf.fields 0 0 [])"

definition bsd_os :: "bool \<Rightarrow> machine \<Rightarrow> unit handler" where
  "bsd_os old ms q s = (Inr (case q of
       Ioctl _ (PCIOCGETCONF io) \<Rightarrow> RIoctl (if old then Errno 25
         else Confs (io\<lparr>num_matches := of_nat (length ms)\<rparr>) (map (\<lambda>(s, cs). blank_conf s) ms))
     | Ioctl _ (PCIOCGETCONF_14 io) \<Rightarrow>
         RIoctl (Confs14 (io\<lparr>num_matches := of_nat (length ms)\<rparr>) (map (\<lambda>(s, cs). blank_conf14 s) ms))
     | Ioctl _ (PCIOCREAD io) \<Rightarrow> RIoctl
         (case map_of ms (pi_sel io) of
            None \<Rightarrow> Errno 19
          | Some cs \<Rightarrow>
              (let off = unat (pi_reg io); n = unat (pi_width io)
               in if off + n \<le> length cs then PciIo (load_le (take n (drop off cs))) else PciIo (- 1)))
     | _ \<Rightarrow> quiet q), s)"

definition machine_ok :: "machine \<Rightarrow> bool" where
  "machine_ok ms \<longleftrightarrow> distinct (map fst ms) \<and> length ms \<le> 1952 \<and>
     list_all (\<lambda>(s, cs). pc_func s < 8 \<and> pc_domain s < 0x8000 \<and> length cs \<in> {256, 4096}) ms"

lemma scan_sel_name: "pc_domain s < 0x8000 \<Longrightarrow> scan_name (sel_name s) = Inr (dev_of s)"
proof -
  assume "pc_domain s < 0x8000"
  then have d: "uint (pc_domain s) < 0x8000" by (simp add: word_less_def)
  have b: "uint (pc_bus s) < 256" "uint (pc_dev s) < 256" "uint (pc_func s) < 256"
    using uint_lt2p [of "pc_bus s"] uint_lt2p [of "pc_dev s"] uint_lt2p [of "pc_func s"] by simp_all
  have "(uint (pc_dev s) * 8 + uint (pc_func s)) div 8 < 0x8000" using b by linarith
  then show ?thesis
    unfolding sel_name_def using d b
    by (subst scan_name_bdf) (simp_all add: dev_of_def sel_name_def zero_dev_def Let_def)
qed

lemma sel_name_inj:
  assumes "pc_func s < 8" "pc_domain s < 0x8000" "pc_func t < 8" "pc_domain t < 0x8000" "sel_name s = sel_name t"
  shows "s = t"
proof -
  have "dev_of s = dev_of t" using scan_sel_name assms by (metis sum.inject(2))
  then show ?thesis using sel_of_dev assms(1,3) by metis
qed

lemma cfg_of_sel:
  assumes "machine_ok ms" "map_of ms s = Some cs"
  shows "cfg_of ms (config_path (sel_name s)) = Some cs"
proof -
  have "cfg_of ms' (config_path (sel_name s)) = Some cs"
    if "set ms' \<subseteq> set ms" "map_of ms' s = Some cs" for ms'
    using that
  proof (induction ms')
    case (Cons x xs)
    obtain t ds where x: "x = (t, ds)" by (cases x)
    have m: "x \<in> set ms" "(s, cs) \<in> set ms" using Cons.prems(1) map_of_SomeD [OF assms(2)] by auto
    have "t = s" if "sel_name t = sel_name s"
      using sel_name_inj [of t s] that m assms(1) x by (auto simp: machine_ok_def list_all_iff)
    then show ?case using Cons x by (auto simp: cfg_of_def config_path_def split: if_splits)
  qed simp
  then show ?thesis using assms(2) by blast
qed

text \<open>A device of the machine, and its bytes.\<close>

definition is_dev :: "machine \<Rightarrow> PciDev \<Rightarrow> u8 list \<Rightarrow> bool" where
  "is_dev ms d cs \<longleftrightarrow> map_of ms (sel_of d) = Some cs \<and> Name d = sel_name (sel_of d)"

lemma is_dev_dev_of: "machine_ok ms \<Longrightarrow> (s, cs) \<in> set ms \<Longrightarrow> is_dev ms (dev_of s) cs"
proof -
  assume m: "machine_ok ms" "(s, cs) \<in> set ms"
  then have "sel_of (dev_of s) = s" by (intro sel_of_dev) (auto simp: machine_ok_def list_all_iff)
  moreover have "Name (dev_of s) = sel_name s" by (simp add: dev_of_def)
  moreover have "map_of ms s = Some cs" using m by (simp add: machine_ok_def)
  ultimately show ?thesis by (simp add: is_dev_def)
qed

lemma is_dev_upd [simp]:
  "is_dev ms (d\<lparr>Ecap := e\<rparr>) cs = is_dev ms d cs" "is_dev ms (d\<lparr>Ocap := e\<rparr>) cs = is_dev ms d cs"
  "is_dev ms (d\<lparr>devType := i\<rparr>) cs = is_dev ms d cs" "is_dev ms (d\<lparr>reqId := i\<rparr>) cs = is_dev ms d cs"
  "is_dev ms (d\<lparr>devClass := c\<rparr>) cs = is_dev ms d cs" "is_dev ms (d\<lparr>headerType := i\<rparr>) cs = is_dev ms d cs"
  "is_dev ms (d\<lparr>LnkCapSpeed := i\<rparr>) cs = is_dev ms d cs" "is_dev ms (d\<lparr>LnkCapWidth := i\<rparr>) cs = is_dev ms d cs"
  "is_dev ms (d\<lparr>Vendor := v\<rparr>) cs = is_dev ms d cs" "is_dev ms (d\<lparr>Device := v\<rparr>) cs = is_dev ms d cs"
  by (simp_all add: is_dev_def sel_of_def)

lemma put_load_le: "length bs \<le> 4 \<Longrightarrow> put32 (load_le bs) = bs @ replicate (4 - length bs) 0"
proof -
  assume "length bs \<le> 4"
  then obtain v where v: "get32 (bs @ replicate (4 - length bs) 0) = Some v"
    using le32.dec_None_iff [of "bs @ replicate (4 - length bs) 0"] by fastforce
  from le32.enc_dec [OF v] show ?thesis using \<open>length bs \<le> 4\<close> by (simp add: load_le_def v)
qed

lemma exec_linux_read:
  assumes "machine_ok ms" "is_dev ms d cs" "exec (linux_os ms) (PciRead d off n) () = (Done b, ())"
  shows "b = take n (drop (nat off) cs) \<and> nat off + n \<le> length cs \<or> off = 256 \<and> length cs \<le> 256 \<and> b = replicate n 0"
proof -
  have "cfg_of ms (config_path (Name d)) = Some cs"
    using cfg_of_sel [OF assms(1)] assms(2) by (simp add: is_dev_def)
  then show ?thesis
    using assms(3) by (auto simp: PciRead_def read_at_def linux_os_def split: if_splits)
qed

lemma exec_bsd_read:
  assumes "is_dev ms d cs" "\<not> (devType d = - 1 \<and> 0x100 \<le> off)" "0 \<le> off" "off < 2 ^ 32" "n \<le> 4" "nat off + n \<le> length cs"
  shows "exec (bsd_os old ms) (bsd_Read d off n) () =
    (Done (take n (drop (nat off) cs) @ replicate (4 - n) 0), ())"
proof -
  have "unat (word_of_int off :: u32) = nat off"
    using assms(3,4) by (simp add: unat_eq_nat_uint uint_word_of_int_eq take_bit_eq_mod)
  moreover have "unat (of_nat n :: u32) = n" using assms(5) by (simp add: unat_of_nat take_bit_eq_mod)
  moreover have "length (take n (drop (nat off) cs)) = n" using assms(6) by simp
  moreover have "map_of ms (sel_of d) = Some cs" using assms(1) by (simp add: is_dev_def)
  ultimately show ?thesis
    using assms(2,5,6) put_load_le [of "take n (drop (nat off) cs)"]
    by (auto simp: bsd_Read_def ioctl_def bsd_os_def)
qed

text \<open>
  \<open>agrees\<close>: what the Linux build computes on a machine, when it satisfies \<open>P\<close>, the FreeBSD build
  computes too.
\<close>

definition agrees :: "bool \<Rightarrow> machine \<Rightarrow> ('a \<Rightarrow> bool) \<Rightarrow> 'a io \<Rightarrow> 'a io \<Rightarrow> bool" where
  "agrees old ms P p q \<longleftrightarrow>
     (\<forall>x. exec (linux_os ms) p () = (Done x, ()) \<and> P x \<longrightarrow> exec (bsd_os old ms) q () = (Done x, ()))"

lemma agrees_Ret [simp]: "agrees old ms P (Ret x) (Ret x)"
  by (simp add: agrees_def)

lemma agrees_Fail [simp]: "agrees old ms P (Fail e) q"
  by (simp add: agrees_def)

lemma agrees_mono: "agrees old ms (\<lambda>_. True) p q \<Longrightarrow> agrees old ms P p q"
  by (simp add: agrees_def)

lemma agrees_bind:
  assumes "agrees old ms (\<lambda>_. True) p q"
    and "\<And>x. exec (linux_os ms) p () = (Done x, ()) \<Longrightarrow> agrees old ms P (f x) (g x)"
  shows "agrees old ms P (bind p f) (bind q g)"
  using assms unfolding agrees_def by (fastforce simp: exec_bind split: prod.splits outcome.splits)

lemma agrees_print [simp]: "agrees old ms P (print m args) (print m args)"
  by (simp add: agrees_def print_def linux_os_def bsd_os_def quiet_def)

text \<open>A read both builds do: not one of the extended space of a device that may have none.\<close>

definition plain_read :: "PciDev \<Rightarrow> u8 list \<Rightarrow> int \<Rightarrow> bool" where
  "plain_read d cs off \<longleftrightarrow> 0 \<le> off \<and> off < 4096 \<and> (0x100 \<le> off \<longrightarrow> devType d \<noteq> - 1 \<and> length cs = 4096)"

lemma agrees_decode:
  assumes "machine_ok ms" "is_dev ms d cs" "plain_read d cs off" "n \<le> 4" "0 < n"
    and "\<And>bs. length bs = n \<Longrightarrow> k (bs @ replicate (4 - n) 0) = k bs" "\<And>bs. length bs = n \<Longrightarrow> \<exists>v. k bs = Ret v"
  shows "agrees old ms P (bind (PciRead d off n) k) (bind (bsd_Read d off n) k)"
  unfolding agrees_def
proof (intro allI impI)
  fix x
  assume "exec (linux_os ms) (bind (PciRead d off n) k) () = (Done x, ()) \<and> P x"
  then obtain b where b: "exec (linux_os ms) (PciRead d off n) () = (Done b, ())" "exec (linux_os ms) (k b) () = (Done x, ())"
    by (auto simp: exec_bind split: prod.splits outcome.splits)
  from exec_linux_read [OF assms(1,2) b(1)] assms(3)
  have full: "b = take n (drop (nat off) cs)" "nat off + n \<le> length cs"
    by (auto simp: plain_read_def)
  then have "length b = n" by simp
  with assms(6,7) obtain v where "k b = Ret v" "k (b @ replicate (4 - n) 0) = Ret v" by metis
  moreover have "exec (bsd_os old ms) (bsd_Read d off n) () = (Done (b @ replicate (4 - n) 0), ())"
    unfolding full(1) by (rule exec_bsd_read [OF assms(2) _ _ _ assms(4) full(2)])
      (use assms(3) in \<open>auto simp: plain_read_def\<close>)
  ultimately show "exec (bsd_os old ms) (bind (bsd_Read d off n) k) () = (Done x, ())"
    using b(2) by (simp add: exec_bind)
qed

lemma agrees_reads:
  assumes "machine_ok ms" "is_dev ms d cs" "plain_read d cs off"
  shows "agrees old ms P8 (Read8_by PciRead d off) (Read8_by bsd_Read d off)"
    "agrees old ms P16 (Read16_by PciRead d off) (Read16_by bsd_Read d off)"
    "agrees old ms P32 (Read32_by PciRead d off) (Read32_by bsd_Read d off)"
proof -
  show "agrees old ms P8 (Read8_by PciRead d off) (Read8_by bsd_Read d off)"
    unfolding Read8_by_def by (rule agrees_decode [OF assms]) (auto simp: length_Suc_conv)
  have g16: "get16 (bs @ r) = get16 bs \<and> (\<exists>v. get16 bs = Some v)" if "length bs = 2" for bs r
    using le16.dec_take [of "bs @ r"] le16.dec_None_iff [of bs] that by fastforce
  show "agrees old ms P16 (Read16_by PciRead d off) (Read16_by bsd_Read d off)"
    unfolding Read16_by_def by (rule agrees_decode [OF assms]) (use g16 in \<open>force+\<close>)
  have g32: "\<exists>v. get32 bs = Some v" if "length bs = 4" for bs
    using le32.dec_None_iff [of bs] that by fastforce
  show "agrees old ms P32 (Read32_by PciRead d off) (Read32_by bsd_Read d off)"
    unfolding Read32_by_def by (rule agrees_decode [OF assms]) (use g32 in \<open>force+\<close>)
qed

lemma agrees_ecap_loop:
  assumes "machine_ok ms" "is_dev ms d cs" "devType d \<noteq> - 1" "length cs = 4096" "0 \<le> off" "off < 4096"
  shows "agrees old ms P (ecap_loop_by PciRead n d off m) (ecap_loop_by bsd_Read n d off m)"
  using assms(5,6)
proof (induction n arbitrary: off m)
  case 0
  then show ?case by simp
next
  case (Suc n)
  have "plain_read d cs off" using assms(3,4) Suc.prems by (simp add: plain_read_def)
  moreover have "agrees old ms P (ecap_loop_by PciRead n d (uint (drop_bit 20 v)) m')
      (ecap_loop_by bsd_Read n d (uint (drop_bit 20 v)) m')" for v :: u32 and m'
    by (rule Suc.IH [OF _ ecap_next]) simp
  ultimately show ?case
    by (auto intro!: agrees_bind agrees_reads(3) [OF assms(1,2)])
qed

lemma agrees_cap_loop:
  assumes "machine_ok ms" "is_dev ms d cs"
  shows "agrees old ms P (cap_loop_by PciRead n d start m) (cap_loop_by bsd_Read n d start m)"
proof (induction n arbitrary: start m)
  case (Suc n)
  have "plain_read d cs start" if "0x40 \<le> start" "start < 0xff" using that by (simp add: plain_read_def)
  then show ?case
    using Suc.IH by (auto simp: Let_def intro!: agrees_bind agrees_reads(2) [OF assms])
qed simp

text \<open>Where a device has 256 bytes, both walks of the extended capabilities find none.\<close>

lemma agrees_no_ecaps:
  assumes "machine_ok ms" "is_dev ms d cs" "length cs = 256"
  shows "agrees old ms P (ecap_loop_by PciRead n d 0x100 Map.empty) (ecap_loop_by bsd_Read n d 0x100 Map.empty)"
proof (cases n)
  case (Suc k)
  have "exec (linux_os ms) (Read32_by PciRead d 0x100) () = (Done 0, ())"
  proof -
    have "cfg_of ms (config_path (Name d)) = Some cs"
      using cfg_of_sel [OF assms(1)] assms(2) by (simp add: is_dev_def)
    then have "exec (linux_os ms) (PciRead d 0x100 4) () = (Done [0, 0, 0, 0], ())"
      using assms(3) by (simp add: PciRead_def read_at_def linux_os_def numeral_eq_Suc)
    then show ?thesis by (simp add: Read32_by_def exec_bind)
  qed
  moreover have "\<exists>v. exec (bsd_os old ms) (Read32_by bsd_Read d 0x100) () = (Done v, ()) \<and> (v = 0 \<or> v = - 1)"
  proof (cases "devType d = - 1")
    case True
    then show ?thesis by (simp add: bsd_Read_def Read32_by_def numeral_eq_Suc)
  next
    case False
    have "map_of ms (sel_of d) = Some cs" using assms(2) by (simp add: is_dev_def)
    then have "exec (bsd_os old ms) (bsd_Read d 0x100 4) () = (Done (put32 (- 1)), ())"
      using assms(3) False by (simp add: bsd_Read_def ioctl_def bsd_os_def)
    then show ?thesis by (simp add: Read32_by_def exec_bind le32.dec_enc_id)
  qed
  ultimately show ?thesis unfolding Suc by (auto simp: agrees_def exec_bind)
qed simp

lemma agrees_bind_if:
  assumes "agrees old ms Q p q"
    and "\<And>x. exec (linux_os ms) p () = (Done x, ()) \<Longrightarrow> agrees old ms P (f x) (g x)"
    and "\<And>x y. exec (linux_os ms) p () = (Done x, ()) \<Longrightarrow> exec (linux_os ms) (f x) () = (Done y, ()) \<Longrightarrow> P y \<Longrightarrow> Q x"
  shows "agrees old ms P (bind p f) (bind q g)"
  unfolding agrees_def
proof (intro allI impI)
  fix y
  assume y: "exec (linux_os ms) (bind p f) () = (Done y, ()) \<and> P y"
  then obtain x where x: "exec (linux_os ms) p () = (Done x, ())" "exec (linux_os ms) (f x) () = (Done y, ())"
    by (auto simp: exec_bind split: prod.splits outcome.splits)
  then have "Q x" using assms(3) y by blast
  then have "exec (bsd_os old ms) q () = (Done x, ())" using assms(1) x(1) unfolding agrees_def by blast
  moreover have "exec (bsd_os old ms) (g x) () = (Done y, ())"
    using assms(2) [OF x(1)] x(2) y unfolding agrees_def by blast
  ultimately show "exec (bsd_os old ms) (bind q g) () = (Done y, ())" by (simp add: exec_bind)
qed

lemma agrees_vacuous: "(\<And>x. exec (linux_os ms) p () = (Done x, ()) \<Longrightarrow> \<not> P x) \<Longrightarrow> agrees old ms P p q"
  unfolding agrees_def by blast

lemma exec_returns: "exec h p s = (Done x, s') \<Longrightarrow> returns p Q \<Longrightarrow> Q x"
  by (drule exec_done_runs, elim exE) (rule returnsD)

lemma is_dev_same: "same_id d e \<Longrightarrow> is_dev ms d cs \<Longrightarrow> is_dev ms e cs"
  by (simp add: is_dev_def same_id_def sel_of_def)

text \<open>
  A device both builds find in the same way: its Express capability fits below the extended
  space, and it has extended space only if it is an Express device.
\<close>

definition usual :: "machine \<Rightarrow> PciDev \<Rightarrow> bool" where
  "usual ms d \<longleftrightarrow> at (Ocap d) PCI_CAP_ID_EXP < 0xf4 \<and>
     (case map_of ms (sel_of d) of Some cs \<Rightarrow> length cs = 4096 \<longrightarrow> devType d \<noteq> - 1 | None \<Rightarrow> True)"

definition all_usual :: "machine \<Rightarrow> World \<Rightarrow> bool" where
  "all_usual ms w \<longleftrightarrow> list_all (usual ms) (heap w)"

lemma plain_low: "0 \<le> off \<Longrightarrow> off < 0x100 \<Longrightarrow> plain_read d cs off"
  by (simp add: plain_read_def)

lemma agrees_capInit:
  assumes "machine_ok ms" "is_dev ms d cs"
  shows "agrees old ms P (capInit_by PciRead cfg d) (capInit_by bsd_Read cfg d)"
  unfolding capInit_by_def PciStatus_by_def Let_def
  by (auto intro!: agrees_bind agrees_reads [where cs = cs, OF assms(1)] agrees_cap_loop [where cs = cs, OF assms(1)] plain_low simp: assms(2))

lemma agrees_exp_caps:
  assumes "machine_ok ms" "is_dev ms d cs" "at (Ocap d) PCI_CAP_ID_EXP < 0xf4"
  shows "agrees old ms P (exp_caps_by PciRead d) (exp_caps_by bsd_Read d)"
  unfolding exp_caps_by_def Let_def using assms(3)
  by (auto intro!: agrees_bind agrees_reads [where cs = cs, OF assms(1)] plain_low simp: assms(2))

lemma agrees_EcapInit:
  assumes "machine_ok ms" "is_dev ms d cs" "usual ms d"
  shows "agrees old ms P (EcapInit_by PciRead cfg d) (EcapInit_by bsd_Read cfg d)"
proof -
  have m: "map_of ms (sel_of d) = Some cs" using assms(2) by (simp add: is_dev_def)
  then have "length cs = 256 \<or> length cs = 4096 \<and> devType d \<noteq> - 1"
    using assms(1,3) map_of_SomeD [OF m] by (auto simp: machine_ok_def list_all_iff usual_def)
  then have "agrees old ms Q (ecap_loop_by PciRead n d 0x100 Map.empty) (ecap_loop_by bsd_Read n d 0x100 Map.empty)" for Q n
    using agrees_no_ecaps [OF assms(1,2)] agrees_ecap_loop [OF assms(1,2), of "0x100"] by auto
  then show ?thesis unfolding EcapInit_by_def by (intro agrees_bind) simp_all
qed

lemma agrees_file_dev:
  assumes "machine_ok ms" "is_dev ms d cs"
  shows "agrees old ms P (file_dev_by PciRead w d) (file_dev_by bsd_Read w d)"
  unfolding file_dev_by_def Let_def
  by (auto intro!: agrees_bind agrees_reads [where cs = cs, OF assms(1)] plain_low simp: assms(2))

text \<open>A device that is committed keeps what \<open>usual\<close> is about.\<close>

definition same_caps :: "PciDev \<Rightarrow> PciDev \<Rightarrow> bool" where
  "same_caps d e \<longleftrightarrow> same_id d e \<and> Ocap e = Ocap d \<and> devType e = devType d"

lemma usual_same: "same_caps d e \<Longrightarrow> usual ms e = usual ms d"
proof -
  assume "same_caps d e"
  then have "sel_of e = sel_of d" "Ocap e = Ocap d" "devType e = devType d"
    by (simp_all add: same_caps_def same_id_def sel_of_def)
  then show ?thesis unfolding usual_def by (simp split: option.split)
qed

lemma file_dev_keeps: "returns (file_dev_by rd w d) (\<lambda>w'. set (heap w) \<subseteq> set (heap w') \<and> (\<exists>e \<in> set (heap w'). same_caps d e))"
proof -
  have "returns (Ret (commit e w)) (\<lambda>w'. set (heap w) \<subseteq> set (heap w') \<and> (\<exists>e \<in> set (heap w'). same_caps d e))"
    if "same_caps d e" for e
    using that by (auto simp: commit_def Let_def)
  then show ?thesis
    unfolding file_dev_by_def Let_def by (auto simp: same_caps_def same_id_def intro!: returns_seq)
qed

lemma EcapInit_same: "returns (EcapInit_by rd cfg d) (same_caps d)"
  by (rule returns_mono [OF EcapInit_by_returns]) (simp add: same_caps_def)

lemma same_caps_trans: "same_caps d e \<Longrightarrow> same_caps e f \<Longrightarrow> same_caps d f"
  by (simp add: same_caps_def same_id_def)

lemma exp_caps_same:
  "returns (bind (exp_caps_by rd d) (\<lambda>e. bind (EcapInit_by rd cfg e) (file_dev_by rd w)))
     (\<lambda>w'. \<exists>e \<in> set (heap w'). Ocap e = Ocap d)"
proof (rule returns_bind [OF exp_caps_by_returns])
  fix e
  assume e: "same_id d e \<and> Ocap e = Ocap d \<and> Ecap e = Ecap d"
  show "returns (bind (EcapInit_by rd cfg e) (file_dev_by rd w)) (\<lambda>w'. \<exists>e \<in> set (heap w'). Ocap e = Ocap d)"
    by (rule returns_bind [OF EcapInit_same], rule returns_mono [OF file_dev_keeps])
      (use e in \<open>auto simp: same_caps_def\<close>)
qed

lemma EcapInit_keeps:
  "returns (bind (EcapInit_by rd cfg d) (file_dev_by rd w)) (\<lambda>w'. \<exists>e \<in> set (heap w'). same_caps d e)"
  by (rule returns_bind [OF EcapInit_same], rule returns_mono [OF file_dev_keeps]) (auto intro: same_caps_trans)

lemma agrees_ecap_file:
  assumes ms: "machine_ok ms" and e: "is_dev ms e cs"
  shows "agrees old ms (all_usual ms) (bind (EcapInit_by PciRead cfg e) (file_dev_by PciRead w))
    (bind (EcapInit_by bsd_Read cfg e) (file_dev_by bsd_Read w))"
proof (cases "usual ms e")
  case True
  show ?thesis
  proof (rule agrees_bind [OF agrees_EcapInit [OF ms e True]])
    fix x
    assume "exec (linux_os ms) (EcapInit_by PciRead cfg e) () = (Done x, ())"
    from exec_returns [OF this EcapInit_same] have "same_id e x" by (simp add: same_caps_def)
    then show "agrees old ms (all_usual ms) (file_dev_by PciRead w x) (file_dev_by bsd_Read w x)"
      by (rule agrees_file_dev [OF ms is_dev_same [OF _ e]])
  qed
next
  case False
  show ?thesis
  proof (rule agrees_vacuous)
    fix w'
    assume "exec (linux_os ms) (bind (EcapInit_by PciRead cfg e) (file_dev_by PciRead w)) () = (Done w', ())"
    from exec_returns [OF this EcapInit_keeps] False show "\<not> all_usual ms w'"
      using usual_same by (auto simp: all_usual_def list_all_iff)
  qed
qed

lemma agrees_exp_file:
  assumes ms: "machine_ok ms" and e: "is_dev ms e cs"
  shows "agrees old ms (all_usual ms)
    (bind (exp_caps_by PciRead e) (\<lambda>d. bind (EcapInit_by PciRead cfg d) (file_dev_by PciRead w)))
    (bind (exp_caps_by bsd_Read e) (\<lambda>d. bind (EcapInit_by bsd_Read cfg d) (file_dev_by bsd_Read w)))"
proof (cases "at (Ocap e) PCI_CAP_ID_EXP < 0xf4")
  case True
  show ?thesis
  proof (rule agrees_bind [OF agrees_exp_caps [OF ms e True]])
    fix x
    assume "exec (linux_os ms) (exp_caps_by PciRead e) () = (Done x, ())"
    from exec_returns [OF this exp_caps_by_returns] have "same_id e x" by simp
    then show "agrees old ms (all_usual ms) (bind (EcapInit_by PciRead cfg x) (file_dev_by PciRead w))
        (bind (EcapInit_by bsd_Read cfg x) (file_dev_by bsd_Read w))"
      by (rule agrees_ecap_file [OF ms is_dev_same [OF _ e]])
  qed
next
  case False
  show ?thesis
  proof (rule agrees_vacuous)
    fix w'
    assume "exec (linux_os ms) (bind (exp_caps_by PciRead e)
      (\<lambda>d. bind (EcapInit_by PciRead cfg d) (file_dev_by PciRead w))) () = (Done w', ())"
    from exec_returns [OF this exp_caps_same]
    obtain ea where ea: "ea \<in> set (heap w')" "Ocap ea = Ocap e" by blast
    then have "\<not> usual ms ea" using False by (simp add: usual_def)
    then show "\<not> all_usual ms w'" using ea(1) by (auto simp: all_usual_def list_all_iff)
  qed
qed

lemma agrees_probe_file:
  assumes ms: "machine_ok ms" and e: "is_dev ms e cs"
  shows "agrees old ms (all_usual ms) (bind (probe_by PciRead cfg e) (file_dev_by PciRead w))
    (bind (probe_by bsd_Read cfg e) (file_dev_by bsd_Read w))"
  unfolding probe_by_def bind_assoc
proof (rule agrees_bind [OF agrees_reads(2) [OF ms e plain_low]])
  fix cls
  have e': "is_dev ms (e\<lparr>devClass := cls\<rparr>) cs" using e by simp
  show "agrees old ms (all_usual ms)
      (bind (capInit_by PciRead cfg (e\<lparr>devClass := cls\<rparr>)) (\<lambda>d. bind (exp_caps_by PciRead d)
        (\<lambda>d. bind (EcapInit_by PciRead cfg d) (file_dev_by PciRead w))))
      (bind (capInit_by bsd_Read cfg (e\<lparr>devClass := cls\<rparr>)) (\<lambda>d. bind (exp_caps_by bsd_Read d)
        (\<lambda>d. bind (EcapInit_by bsd_Read cfg d) (file_dev_by bsd_Read w))))"
  proof (rule agrees_bind [OF agrees_capInit [OF ms e']])
    fix x
    assume "exec (linux_os ms) (capInit_by PciRead cfg (e\<lparr>devClass := cls\<rparr>)) () = (Done x, ())"
    then have "probed (e\<lparr>devClass := cls\<rparr>) x"
      by (rule exec_returns [OF _ capInit_by_returns]) (simp add: same_id_def)
    then have "same_id (e\<lparr>devClass := cls\<rparr>) x" by (simp add: probed_def)
    then show "agrees old ms (all_usual ms)
        (bind (exp_caps_by PciRead x) (\<lambda>d. bind (EcapInit_by PciRead cfg d) (file_dev_by PciRead w)))
        (bind (exp_caps_by bsd_Read x) (\<lambda>d. bind (EcapInit_by bsd_Read cfg d) (file_dev_by bsd_Read w)))"
      by (rule agrees_exp_file [OF ms is_dev_same [OF _ e']])
  qed
qed simp_all

lemma agrees_AddDev:
  assumes "machine_ok ms" "is_dev ms d cs"
  shows "agrees old ms (all_usual ms) (AddDev_by PciRead cfg w d) (AddDev_by bsd_Read cfg w d)"
  unfolding AddDev_by_def Let_def
  by (intro agrees_bind agrees_reads [where cs = cs, OF assms(1)] plain_low agrees_Ret)
    (auto simp: assms(2) intro!: agrees_probe_file [where cs = cs, OF assms(1)] agrees_bind)

lemma AddDev_grows: "returns (AddDev_by rd cfg w d) (\<lambda>w'. set (heap w) \<subseteq> set (heap w'))"
proof -
  have "returns (file_dev_by rd w e) (\<lambda>w'. set (heap w) \<subseteq> set (heap w'))" for e
    by (rule returns_mono [OF file_dev_keeps]) blast
  then show ?thesis unfolding AddDev_by_def Let_def by (auto intro!: returns_seq)
qed

lemma scan_loop_grows: "returns (scan_loop cfg w fs) (\<lambda>w'. set (heap w) \<subseteq> set (heap w'))"
proof (induction fs arbitrary: w)
  case (Cons f fs)
  have "returns (bind (AddDev cfg w d) (\<lambda>w. scan_loop cfg w fs)) (\<lambda>w'. set (heap w) \<subseteq> set (heap w'))" for d
    unfolding AddDev_def
    by (rule returns_bind [OF AddDev_grows], rule returns_mono [OF Cons.IH]) blast
  then show ?case by (auto intro!: returns_seq Cons.IH split: option.split sum.split)
qed simp

lemma agrees_scan:
  assumes "machine_ok ms" "set ss \<subseteq> set ms"
  shows "agrees old ms (all_usual ms) (scan_loop cfg w (map (\<lambda>(s, cs). sel_name s) ss)) (bsd_devs cfg w (map fst ss))"
  using assms(2)
proof (induction ss arbitrary: w)
  case (Cons x ss)
  obtain s cs where x: "x = (s, cs)" by (cases x)
  then have m: "(s, cs) \<in> set ms" "pc_domain s < 0x8000"
    using Cons.prems assms(1) by (auto simp: machine_ok_def list_all_iff)
  have step: "agrees old ms (all_usual ms) (bind (AddDev cfg w (dev_of s)) (\<lambda>w. scan_loop cfg w (map (\<lambda>(s, cs). sel_name s) ss)))
      (bind (AddDev_by bsd_Read cfg w (dev_of s)) (\<lambda>w. bsd_devs cfg w (map fst ss)))"
    unfolding AddDev_def
  proof (rule agrees_bind_if [OF agrees_AddDev [OF assms(1) is_dev_dev_of [OF assms(1) m(1)]]])
    fix w1 w2
    assume "exec (linux_os ms) (scan_loop cfg w1 (map (\<lambda>(s, cs). sel_name s) ss)) () = (Done w2, ())" "all_usual ms w2"
    from exec_returns [OF this(1) scan_loop_grows] this(2) show "all_usual ms w1"
      by (auto simp: all_usual_def list_all_iff)
  qed (use Cons in simp)
  have "exec (linux_os ms) (stat_regular (config_path (sel_name s))) () = (Done (Some True), ())"
    by (auto simp: stat_regular_def linux_os_def quiet_def)
  then have "exec (linux_os ms) (scan_loop cfg w (map (\<lambda>(s, cs). sel_name s) (x # ss))) () =
      exec (linux_os ms) (bind (AddDev cfg w (dev_of s)) (\<lambda>w. scan_loop cfg w (map (\<lambda>(s, cs). sel_name s) ss))) ()"
    by (simp add: x exec_bind scan_sel_name [OF m(2)])
  then show ?case using step unfolding agrees_def by (simp add: x)
qed simp

lemma machine_devs:
  assumes "machine_ok ms" "exec (linux_os ms) (Scan cfg) () = (Done w, ())" "all_usual ms w"
  shows "exec (bsd_os old ms) (bsd_devs cfg empty_world (map fst ms)) () = (Done w, ())"
proof -
  have "exec (linux_os ms) (read_dir pciDir) () = (Done (Some (map (\<lambda>(s, cs). sel_name s) ms)), ())"
    by (simp add: read_dir_def linux_os_def)
  then have "exec (linux_os ms) (scan_loop cfg empty_world (map (\<lambda>(s, cs). sel_name s) ms)) () = (Done w, ())"
    using assms(2) by (simp add: Scan_def exec_bind)
  then show ?thesis
    using agrees_scan [OF assms(1) subset_refl, of old cfg empty_world] assms(3) unfolding agrees_def by blast
qed

lemma scan_agrees:
  assumes "machine_ok ms" "exec (linux_os ms) (Scan cfg) () = (Done w, ())" "all_usual ms w"
  shows "exec (bsd_os old ms) (bsd_Scan cfg) () = (Done w, ())"
proof -
  have devs: "exec (bsd_os old ms) (bsd_devs cfg empty_world (map fst ms)) () = (Done w, ())"
    by (rule machine_devs [OF assms])
  have len: "length ms \<le> 2048" "list_all (\<lambda>(s, cs). pc_func s < 8) ms"
    using assms(1) by (auto simp: machine_ok_def list_all_iff)
  have sels: "map (pc_sel \<circ> (\<lambda>(s, cs). blank_conf s)) ms = map fst ms"
    "map (pc_sel \<circ> (\<lambda>(s, cs). blank_conf14 s)) ms = map fst ms"
    by (auto simp: blank_conf_def blank_conf14_def struct_pci_conf14.defs struct_pci_conf.defs)
  have fit: "conf_fits esz (conf_req esz) ((conf_req esz)\<lparr>num_matches := of_nat (length ms)\<rparr>) (map fst ms)"
    if "esz \<le> 122" for esz
  proof -
    have "unat (of_nat (2048 * esz) :: u32) = 2048 * esz"
      using that by (simp only: unat_of_nat take_bit_eq_mod) simp
    moreover have "length ms * esz \<le> 2048 * esz" using len(1) by simp
    moreover have "unat (of_nat (length ms) :: u32) = length ms"
      using len(1) by (simp add: unat_of_nat take_bit_eq_mod)
    moreover have "list_all (\<lambda>s. pc_func s < 8) (map fst ms)"
      using len(2) by (auto simp: list_all_iff)
    ultimately show ?thesis by (simp add: conf_fits_def conf_req_def del: of_nat_mult)
  qed
  have ok: "conf_status (conf_req esz) = 0" for esz by (simp add: conf_req_def)
  have sizes: "conf14_size \<le> 122" "conf_size \<le> 122" by (simp_all add: conf14_size_def conf_size_def)
  have opened: "exec (bsd_os old ms) (open_file pci_file) () = (Done True, ())"
    by (simp add: open_file_def bsd_os_def quiet_def)
  have old_list: "exec (bsd_os old ms) (fbsd14Scan cfg empty_world) () = (Done w, ())"
    using fit [OF sizes(1)] devs
    by (simp add: fbsd14Scan_def exec_bind ioctl_def bsd_os_def list_devs_def PCI_GETCONF_LAST_DEVICE_def sels ok)
  have "exec (bsd_os old ms) (fbsdCurrentScan cfg empty_world) () = (Done w, ())"
    using fit [OF sizes(2)] devs old_list
    by (cases old) (simp_all add: fbsdCurrentScan_def exec_bind ioctl_def bsd_os_def list_devs_def PCI_GETCONF_LAST_DEVICE_def sels ok)
  then show ?thesis using opened by (simp add: bsd_Scan_def exec_bind)
qed

lemma PciInit_agrees:
  assumes "machine_ok ms" "exec (linux_os ms) (Scan cfg) () = (Done w, ())" "all_usual ms w"
  shows "exec (bsd_os old ms) (bsd_PciInit cfg) () = exec (linux_os ms) (PciInit cfg) ()"
  using assms(2) scan_agrees [OF assms, of old]
  by (simp add: bsd_PciInit_def PciInit_def PciInit_by_def exec_bind Let_def split: sum.split)

text \<open>
  Property C4. The two builds of package \<open>pci\<close> agree: on one machine, whose devices the Linux scan
  finds as \<open>usual\<close>, the FreeBSD scan finds the same devices in the same order with the same fields
  and files them in the same tables, on an old and on a new kernel; and \<open>PciInit\<close> links and names
  them alike, or fails alike.
\<close>

theorem builds_agree:
  assumes "machine_ok ms" "exec (linux_os ms) (Scan cfg) () = (Done w, ())" "all_usual ms w"
  shows "exec (bsd_os old ms) (bsd_Scan cfg) () = (Done w, ()) \<and>
     exec (bsd_os old ms) (bsd_PciInit cfg) () = exec (linux_os ms) (PciInit cfg) ()"
  using scan_agrees [OF assms] PciInit_agrees [OF assms] by simp

text \<open>
  A machine for the witness: the root port of \<open>two_devs\<close> with the 4096 bytes of an Express device, and
  behind it the BMC's VGA with 256. \<open>express_os\<close> answers as its Linux does, a byte at a time.
\<close>

definition space_byte :: "(int \<times> u8) list \<Rightarrow> nat \<Rightarrow> u8" where
  "space_byte m k = (case map_of m (int k) of Some b \<Rightarrow> b | None \<Rightarrow> 0)"

definition space :: "(int \<times> u8) list \<Rightarrow> nat \<Rightarrow> u8 list" where
  "space m n = map (space_byte m) [0..<n]"

definition express_machine :: machine where
  "express_machine =
     [(\<lparr>pc_domain = 0, pc_bus = 1, pc_dev = 0, pc_func = 0\<rparr>, space vga 256),
      (\<lparr>pc_domain = 0, pc_bus = 0, pc_dev = 1, pc_func = 0\<rparr>, space root_port 4096)]"

definition express_os :: "unit handler" where
  "express_os q s = (Inr (case q of
       ReadDir _ \<Rightarrow> RNames [''0000:01:00.0'', ''0000:00:01.0'']
     | ReadAt path off n \<Rightarrow>
         (let answer = (\<lambda>m k. RAt (map (space_byte m) [nat off..<min (nat off + n) k])
            (if k < nat off + n then Some EOF else None))
          in if path = config_path ''0000:01:00.0'' then answer vga 256
             else if path = config_path ''0000:00:01.0'' then answer root_port 4096
             else RAt [] (Some NotOpened))
     | _ \<Rightarrow> quiet q), s)"

lemma length_space [simp]: "length (space m n) = n"
  by (simp add: space_def)

lemma take_drop_space: "take n (drop k (space m l)) = map (space_byte m) [k..<min (k + n) l]"
  by (rule nth_equalityI) (auto simp: space_def)

lemma express_names:
  "sel_name \<lparr>pc_domain = 0, pc_bus = 1, pc_dev = 0, pc_func = 0\<rparr> = ''0000:01:00.0''"
  "sel_name \<lparr>pc_domain = 0, pc_bus = 0, pc_dev = 1, pc_func = 0\<rparr> = ''0000:00:01.0''"
  by code_simp+

lemma express_os_linux: "linux_os express_machine = express_os"
  by (intro ext) (auto simp: linux_os_def express_os_def express_machine_def cfg_of_def express_names
    take_drop_space Let_def config_path_def split: op.split)

lemma express_ok: "machine_ok express_machine"
  by (simp add: machine_ok_def express_machine_def)

lemma express_scan:
  "case fst (exec express_os (Scan plain_config) ()) of
     Done w \<Rightarrow> list_all (\<lambda>d. at (Ocap d) PCI_CAP_ID_EXP < 0xf4 \<and> devType d \<noteq> - 1) (heap w) \<and>
       map Name (heap w) = [''0000:01:00.0'', ''0000:00:01.0''] | Failed e \<Rightarrow> False"
  by code_simp

lemma express_usual:
  "\<exists>w. exec (linux_os express_machine) (Scan plain_config) () = (Done w, ()) \<and> all_usual express_machine w \<and>
     map Name (heap w) = [''0000:01:00.0'', ''0000:00:01.0'']"
proof -
  obtain w where w: "exec (linux_os express_machine) (Scan plain_config) () = (Done w, ())"
    "list_all (\<lambda>d. at (Ocap d) PCI_CAP_ID_EXP < 0xf4 \<and> devType d \<noteq> - 1) (heap w)"
    "map Name (heap w) = [''0000:01:00.0'', ''0000:00:01.0'']"
    using express_scan unfolding express_os_linux [symmetric]
    by (cases "exec (linux_os express_machine) (Scan plain_config) ()") (auto split: outcome.splits)
  from w(2) have "all_usual express_machine w"
    by (auto simp: all_usual_def usual_def list_all_iff split: option.split)
  with w(1,3) show ?thesis by (intro exI [of _ w] conjI)
qed

theorem builds_agree_witness:
  "\<exists>w. exec (linux_os express_machine) (Scan plain_config) () = (Done w, ()) \<and>
     map Name (heap w) = [''0000:01:00.0'', ''0000:00:01.0''] \<and>
     exec (bsd_os True express_machine) (bsd_Scan plain_config) () = (Done w, ()) \<and>
     exec (bsd_os False express_machine) (bsd_Scan plain_config) () = (Done w, ())"
proof -
  from express_usual obtain w where w: "exec (linux_os express_machine) (Scan plain_config) () = (Done w, ())"
    "all_usual express_machine w" "map Name (heap w) = [''0000:01:00.0'', ''0000:00:01.0'']"
    by (elim exE conjE)
  from w(1,3) builds_agree [OF express_ok w(1,2), of True] builds_agree [OF express_ok w(1,2), of False]
  show ?thesis by (intro exI [of _ w]) simp
qed

text \<open>
  The scan of the FreeBSD build never panics, whatever the kernel answers: it ends with a
  world or with a message, and of a world \<open>PciInit\<close> makes what it makes on Linux: sorted by name,
  with its tables filed and its links those of the bus numbers.
\<close>

lemma bsd_world:
  "no_panic (bsd_Scan cfg) \<and>
   returns (bsd_PciInit cfg) (\<lambda>w. world_ok w \<and> sorted_devs w \<and> linked {..<length (heap w)} w)"
proof
  show "returns (bsd_PciInit cfg) (\<lambda>w. world_ok w \<and> sorted_devs w \<and> linked {..<length (heap w)} w)"
    unfolding bsd_PciInit_def returns_def using PciInit_by_world [OF bsd_Scan_ok] by blast
qed (rule bsd_Scan_no_panic)

end
