(* ===== verification/BmcBsd.thy ===== *)
theory BmcBsd
  imports Bmc PciBsd
begin

text \<open>
  Finding the BMC from FreeBSD (ast/p2a.go \<open>Map\<close> over pci/sys_freebsd.go): on one machine both builds
  open the bridge at the same address, or fail alike.
\<close>

definition bsd_find_bar1 :: "config \<Rightarrow> maps \<Rightarrow> maps io" where
  "bsd_find_bar1 cfg s = find_bar1_by (bsd_PciInit cfg) bsd_Read cfg s"

section \<open>The devices of the world are those of the machine\<close>

definition all_devs :: "machine \<Rightarrow> World \<Rightarrow> bool" where
  "all_devs ms w \<longleftrightarrow> (\<forall>d \<in> set (heap w). \<exists>cs. is_dev ms d cs)"

lemma all_devs_commit: "all_devs ms w \<Longrightarrow> is_dev ms d cs \<Longrightarrow> all_devs ms (commit d w)"
  by (auto simp: all_devs_def commit_def Let_def)

lemma file_dev_devs:
  assumes "all_devs ms w" "is_dev ms d cs"
  shows "returns (file_dev_by rd w d) (all_devs ms)"
proof -
  have "returns (Ret (commit e w)) (all_devs ms)" if "same_id d e" for e
    using all_devs_commit [OF assms(1) is_dev_same [OF that assms(2)]] by simp
  then show ?thesis
    unfolding file_dev_by_def Let_def by (auto simp: same_id_def intro!: returns_seq)
qed

lemma AddDev_devs:
  assumes "all_devs ms w" "is_dev ms d cs"
  shows "returns (AddDev_by rd cfg w d) (all_devs ms)"
proof -
  have "returns (bind (probe_by rd cfg e) (file_dev_by rd w)) (all_devs ms)" if e: "is_dev ms e cs" for e
  proof (rule returns_bind [OF probe_returns])
    fix x
    assume "probed e x \<and> (\<forall>i j. Ecap x i = Some j \<longrightarrow> 1 \<le> j \<and> j \<le> 4095)"
    then have "same_id e x" by (simp add: probed_def)
    then show "returns (file_dev_by rd w x) (all_devs ms)"
      by (rule file_dev_devs [OF assms(1) is_dev_same [OF _ e]])
  qed
  then show ?thesis
    unfolding AddDev_by_def Let_def using assms by (auto intro!: returns_seq)
qed

lemma bsd_devs_devs:
  assumes "machine_ok ms"
  shows "set ss \<subseteq> fst ` set ms \<Longrightarrow> all_devs ms w \<Longrightarrow> returns (bsd_devs cfg w ss) (all_devs ms)"
proof (induction ss arbitrary: w)
  case (Cons s ss)
  then obtain cs where "(s, cs) \<in> set ms" by fastforce
  from is_dev_dev_of [OF assms this] have "returns (AddDev_by bsd_Read cfg w (dev_of s)) (all_devs ms)"
    by (rule AddDev_devs [OF Cons.prems(2)])
  then show ?case by (simp, rule returns_bind) (use Cons in auto)
qed simp

lemma core_dev: "core d = core e \<Longrightarrow> is_dev ms d cs = is_dev ms e cs"
proof -
  assume "core d = core e"
  from core_fields [OF this] show ?thesis by (simp add: is_dev_def sel_of_def)
qed

lemma same_core_devs: "same_core w w' \<Longrightarrow> all_devs ms w \<Longrightarrow> all_devs ms w'"
proof -
  assume a: "same_core w w'" "all_devs ms w"
  have "\<exists>cs. is_dev ms (dev w' i) cs" if "i < length (heap w')" for i
  proof -
    have i: "i < length (heap w)" "core (dev w' i) = core (dev w i)"
      using that a(1) by (simp_all add: same_core_def)
    then have "dev w i \<in> set (heap w)" by (simp add: dev_def)
    then obtain cs where "is_dev ms (dev w i) cs" using a(2) unfolding all_devs_def by blast
    then show ?thesis using core_dev [OF i(2)] by blast
  qed
  then show ?thesis by (auto simp: all_devs_def in_set_conv_nth dev_def)
qed

lemma fold_core: "same_core w (fold link_dev is w)"
  by (induction "is" arbitrary: w) (auto intro: same_core_trans [OF link_dev_core])

lemma PciInit_devs:
  assumes "returns scan (all_devs ms)"
  shows "returns (PciInit_by scan) (all_devs ms)"
  unfolding PciInit_by_def Let_def
proof (rule returns_bind [OF assms])
  fix w
  assume w: "all_devs ms w"
  define w1 where "w1 = link_all (sort_devs (w\<lparr>nameCount := Map.empty\<rparr>))"
  have "all_devs ms (sort_devs (w\<lparr>nameCount := Map.empty\<rparr>))"
    using w by (simp add: all_devs_def sort_devs_def)
  then have "all_devs ms w1" unfolding w1_def link_all_def by (rule same_core_devs [OF fold_core])
  then have "all_devs ms w2" if "nick_loop w1 is = Inr w2" for w2 "is"
    using nick_loop_links [OF that] same_core_devs unfolding same_links_def by blast
  then show "returns (case nick_loop (link_all (sort_devs (w\<lparr>nameCount := Map.empty\<rparr>)))
      (Devs (link_all (sort_devs (w\<lparr>nameCount := Map.empty\<rparr>)))) of Inl e \<Rightarrow> Fail e | Inr w \<Rightarrow> Ret w) (all_devs ms)"
    unfolding w1_def [symmetric] by (auto split: sum.split)
qed

section \<open>The bridge under both systems\<close>

lemma linux_read32_done:
  assumes "machine_ok ms" "is_dev ms d cs" "0 \<le> off" "off < 0x80"
  shows "\<exists>v. exec (linux_os ms) (Read32_by PciRead d off) () = (Done v, ())"
proof -
  have c: "cfg_of ms (config_path (Name d)) = Some cs"
    using cfg_of_sel [OF assms(1)] assms(2) by (simp add: is_dev_def)
  have "(sel_of d, cs) \<in> set ms" using assms(2) map_of_SomeD [of ms "sel_of d" cs] by (simp add: is_dev_def)
  then have "length cs = 256 \<or> length cs = 4096" using assms(1) by (auto simp: machine_ok_def list_all_iff)
  then have l: "nat off + 4 \<le> length cs" "length (take 4 (drop (nat off) cs)) = 4" using assms(4) by auto
  then have "exec (linux_os ms) (PciRead d off 4) () = (Done (take 4 (drop (nat off) cs)), ())"
    using c by (simp add: PciRead_def read_at_def linux_os_def)
  moreover have "get32 (take 4 (drop (nat off) cs)) \<noteq> None"
    unfolding le32.dec_None_iff using l(2) by simp
  ultimately show ?thesis by (auto simp: Read32_by_def exec_bind)
qed

lemma quiet_maps:
  "exec (linux_os ms) (open_dev d w) () = (Done True, ())" "exec (bsd_os old ms) (open_dev d w) () = (Done True, ())"
  "exec (linux_os ms) (mmap f m p) () = (Done True, ())" "exec (bsd_os old ms) (mmap f m p) () = (Done True, ())"
  by (simp_all add: open_dev_def mmap_def linux_os_def bsd_os_def quiet_def)

lemma getFile_alike: "exec (bsd_os old ms) (getFile cfg w st) () = exec (linux_os ms) (getFile cfg w st) ()"
  by (simp add: getFile_def exec_bind quiet_maps Let_def)

lemma Map_alike: "exec (bsd_os old ms) (Map cfg nm addr w n st) () = exec (linux_os ms) (Map cfg nm addr w n st) ()"
proof -
  have "exec (bsd_os old ms) (memHandle cfg m st) () = exec (linux_os ms) (memHandle cfg m st) ()" for m
    by (auto simp: memHandle_def exec_bind getFile_alike quiet_maps split: prod.split outcome.split)
  then show ?thesis
    by (auto simp: Map_def exec_bind Let_def split: option.split prod.split outcome.split)
qed

lemma PciInit_machine:
  assumes "machine_ok ms" "exec (linux_os ms) (Scan cfg) () = (Done w, ())" "all_usual ms w"
    and "exec (linux_os ms) (PciInit cfg) () = (Done w', ())"
  shows "all_devs ms w'"
proof -
  have "all_devs ms w"
    using exec_returns [OF machine_devs [OF assms(1-3)] bsd_devs_devs [OF assms(1)]]
    by (simp add: all_devs_def empty_world_def)
  then have "returns (PciInit_by (Ret w)) (all_devs ms)" by (intro PciInit_devs) simp
  moreover have "exec (linux_os ms) (PciInit_by (Ret w)) () = (Done w', ())"
    using assms(2,4) by (simp add: PciInit_def PciInit_by_def exec_bind)
  ultimately show ?thesis by (rule exec_returns [rotated])
qed

text \<open>
  Property C16. The BMC is found alike under both systems: on a machine whose devices the Linux scan
  finds as \<open>usual\<close>, looking for the bridge has the same outcome in both builds. If there is exactly
  one VGA device of the BMC, the same window at its BAR1 is mapped; if there is none, or more than one, or
  the scan or the mapping fails, both end with the same message.
\<close>

theorem bridge_found_alike:
  assumes "machine_ok ms" "exec (linux_os ms) (Scan cfg) () = (Done w, ())" "all_usual ms w"
  shows "exec (bsd_os old ms) (bsd_find_bar1 cfg s) () = exec (linux_os ms) (find_bar1 cfg s) ()"
proof (cases "bar s")
  case None
  have init: "exec (bsd_os old ms) (bsd_PciInit cfg) () = exec (linux_os ms) (PciInit cfg) ()"
    by (rule PciInit_agrees [OF assms])
  show ?thesis
  proof (cases "exec (linux_os ms) (PciInit cfg) ()")
    case (Pair o1 u)
    show ?thesis
    proof (cases o1)
      case (Failed e)
      then show ?thesis using Pair init None
        by (simp add: bsd_find_bar1_def find_bar1_def find_bar1_by_def exec_bind)
    next
      case (Done w')
      then have e: "exec (linux_os ms) (PciInit cfg) () = (Done w', ())" using Pair by simp
      let ?l = "FindById w' 0x1a03 0x2000"
      show ?thesis
      proof (cases "length ?l = 1")
        case False
        then show ?thesis using e init None
          by (simp add: bsd_find_bar1_def find_bar1_def find_bar1_by_def exec_bind Let_def)
      next
        case True
        have "?l ! 0 \<in> set (Devs w')" using True nth_mem [of 0 ?l] by (auto simp: FindById_def)
        moreover have "world_ok w'"
          using exec_done_runs [OF e] PciInit_world_ok by blast
        ultimately have "dev w' (?l ! 0) \<in> set (heap w')" by (auto simp: world_ok_def dev_def)
        with PciInit_machine [OF assms e] obtain cs where d: "is_dev ms (dev w' (?l ! 0)) cs"
          unfolding all_devs_def by blast
        obtain v where v: "exec (linux_os ms) (Read32_by PciRead (dev w' (?l ! 0)) 0x14) () = (Done v, ())"
          using linux_read32_done [OF assms(1) d] by fastforce
        have "agrees old ms (\<lambda>_. True) (Read32_by PciRead (dev w' (?l ! 0)) 0x14) (Read32_by bsd_Read (dev w' (?l ! 0)) 0x14)"
          by (rule agrees_reads(3) [OF assms(1) d plain_low]) simp_all
        then have "exec (bsd_os old ms) (Read32_by bsd_Read (dev w' (?l ! 0)) 0x14) () = (Done v, ())"
          using v unfolding agrees_def by blast
        then show ?thesis using e init None True v
          by (simp add: bsd_find_bar1_def find_bar1_def find_bar1_by_def exec_bind Let_def Map_alike
            split: prod.split outcome.split)
      qed
    qed
  qed
qed (simp add: bsd_find_bar1_def find_bar1_def find_bar1_by_def)
lemma express_bridge:
  "case fst (exec express_os (find_bar1 plain_config no_maps) ()) of
     Done s \<Rightarrow> bar s = Some (MemRegion ''ASTVGA-BAR1'' \<lparr>hwAddr = 0x90000000, mapLen = 0x20000, mapWrite = True\<rparr>)
   | Failed e \<Rightarrow> False"
  by code_simp

theorem bridge_found_alike_witness:
  "\<exists>s. exec (linux_os express_machine) (find_bar1 plain_config no_maps) () = (Done s, ()) \<and>
     exec (bsd_os True express_machine) (bsd_find_bar1 plain_config no_maps) () = (Done s, ()) \<and>
     bar s = Some (MemRegion ''ASTVGA-BAR1'' \<lparr>hwAddr = 0x90000000, mapLen = 0x20000, mapWrite = True\<rparr>)"
proof -
  let ?f = "find_bar1 plain_config no_maps"
  obtain s where s: "exec (linux_os express_machine) ?f () = (Done s, ())"
    "bar s = Some (MemRegion ''ASTVGA-BAR1'' \<lparr>hwAddr = 0x90000000, mapLen = 0x20000, mapWrite = True\<rparr>)"
    using express_bridge unfolding express_os_linux [symmetric]
    by (cases "exec (linux_os express_machine) ?f ()") (auto split: outcome.splits)
  from express_usual obtain w where
    "exec (linux_os express_machine) (Scan plain_config) () = (Done w, ())" "all_usual express_machine w"
    by (elim exE conjE)
  from bridge_found_alike [OF express_ok this, of True no_maps] s show ?thesis by auto
qed

end
